(* ===== verification/Trojan_Prelude.thy ===== *)
theory Trojan_Prelude
  imports Main "HOL-Library.Word" "HOL-Library.Sublist"
begin

text \<open>
  What every theory of the development shares: the machine integers and byte strings of the
  Rust source, the errors of \<^verbatim>\<open>std::io\<close>, asynchronous functions as state-passing
  functions with an explicit outcome, and the big-endian encoding of words, with the lemmas that
  the component proofs use through the collections \<^verbatim>\<open>async_simps\<close> and
  \<^verbatim>\<open>sim_intros\<close>.
\<close>

unbundle bit_operations_syntax

named_theorems async_simps \<open>rewriting rules for asynchronous functions\<close>
named_theorems sim_intros \<open>rules that build simulations of asynchronous functions\<close>

section \<open>Machine types\<close>

type_synonym u8 = "8 word"
type_synonym u16 = "16 word"
type_synonym u32 = "32 word"
type_synonym u128 = "128 word"
type_synonym bytes = "u8 list"

section \<open>Errors and outcomes\<close>

text \<open>The kinds of \<^verbatim>\<open>std::io::ErrorKind\<close> that the source names or receives.\<close>

datatype ErrorKind =
    Unsupported | InvalidInput | InvalidData | BrokenPipe | ConnectionReset | ConnectionRefused
  | NotConnected | AddrNotAvailable | Interrupted | UnexpectedEof | OtherKind

datatype io_error = Error (kind: ErrorKind) (message: string)

text \<open>
  An asynchronous function of the source ends with \<^verbatim>\<open>Ok\<close>, with \<^verbatim>\<open>Err\<close>, with
  a panic, or never (\<^verbatim>\<open>Hang\<close>: an \<^verbatim>\<open>await\<close> that is never woken again).
\<close>

datatype 'a outcome = Ok 'a | Err io_error | Panic string | Hang

type_synonym ('s, 'a) async = "'s \<Rightarrow> 'a outcome \<times> 's"

fun is_Ok :: "'a outcome \<Rightarrow> bool" where
  "is_Ok (Ok _) = True"
| "is_Ok _ = False"

lemma is_Ok_iff: "is_Ok r \<longleftrightarrow> (\<exists>a. r = Ok a)"
  by (cases r) auto

text \<open>The statuses other than \<^verbatim>\<open>Ok\<close> carry no value, so they move between result types.\<close>

fun bind_outcome :: "'a outcome \<Rightarrow> ('a \<Rightarrow> 'b outcome) \<Rightarrow> 'b outcome" where
  "bind_outcome (Ok a) f = f a"
| "bind_outcome (Err e) f = Err e"
| "bind_outcome (Panic p) f = Panic p"
| "bind_outcome Hang f = Hang"

section \<open>Asynchronous functions\<close>

definition return :: "'a \<Rightarrow> ('s, 'a) async" where
  "return a s = (Ok a, s)"

definition fail :: "io_error \<Rightarrow> ('s, 'a) async" where
  "fail e s = (Err e, s)"

definition panic :: "string \<Rightarrow> ('s, 'a) async" where
  "panic msg s = (Panic msg, s)"

text \<open>\<^verbatim>\<open>let x = m.await?; k(x)\<close>: an error, a panic or a hang of \<open>m\<close> ends the function.\<close>

definition await :: "('s, 'a) async \<Rightarrow> ('a \<Rightarrow> ('s, 'b) async) \<Rightarrow> ('s, 'b) async" where
  "await m k s = (case m s of
       (Ok a, s') \<Rightarrow> k a s'
     | (Err e, s') \<Rightarrow> (Err e, s')
     | (Panic p, s') \<Rightarrow> (Panic p, s')
     | (Hang, s') \<Rightarrow> (Hang, s'))"

text \<open>A pure fallible expression under \<^verbatim>\<open>?\<close>, and a pure expression that may panic.\<close>

definition try_result :: "io_error + 'a \<Rightarrow> ('s, 'a) async" where
  "try_result r = (case r of Inl e \<Rightarrow> fail e | Inr a \<Rightarrow> return a)"

definition eval_outcome :: "'a outcome \<Rightarrow> ('s, 'a) async" where
  "eval_outcome r s = (r, s)"

text \<open>\<^verbatim>\<open>match m.await { Ok(x) => x, Err(e) => return Err(f(e)) }\<close>.\<close>

definition map_err :: "(io_error \<Rightarrow> io_error) \<Rightarrow> ('s, 'a) async \<Rightarrow> ('s, 'a) async" where
  "map_err f m s = (case m s of (Err e, s') \<Rightarrow> (Err (f e), s') | r \<Rightarrow> r)"

text \<open>\<^verbatim>\<open>m.await.unwrap()\<close>: an error becomes a panic.\<close>

definition unwrap :: "('s, 'a) async \<Rightarrow> ('s, 'a) async" where
  "unwrap m s = (case m s of (Err e, s') \<Rightarrow> (Panic (message e), s') | r \<Rightarrow> r)"

definition amap :: "('a \<Rightarrow> 'b) \<Rightarrow> ('s, 'a) async \<Rightarrow> ('s, 'b) async" where
  "amap f m = await m (\<lambda>a. return (f a))"

lemma await_simps [async_simps]:
  "m s = (Ok a, s') \<Longrightarrow> await m k s = k a s'"
  "m s = (Err e, s') \<Longrightarrow> await m k s = (Err e, s')"
  "m s = (Panic p, s') \<Longrightarrow> await m k s = (Panic p, s')"
  "m s = (Hang, s') \<Longrightarrow> await m k s = (Hang, s')"
  by (simp_all add: await_def)

lemma pure_simps [simp, async_simps]:
  "return a s = (Ok a, s)"
  "fail e s = (Err e, s)"
  "panic msg s = (Panic msg, s)"
  "try_result (Inl e) s = (Err e, s)"
  "try_result (Inr a) s = (Ok a, s)"
  "eval_outcome r s = (r, s)"
  by (simp_all add: return_def fail_def panic_def try_result_def eval_outcome_def)

lemma await_return [simp, async_simps]: "await (return a) k = k a"
  by (rule ext) (simp add: await_def)

lemma await_fail [simp, async_simps]: "await (fail e) k = fail e"
  by (rule ext) (simp add: await_def)

lemma await_try [simp, async_simps]:
  "await (try_result (Inl e)) k = fail e"
  "await (try_result (Inr a)) k = k a"
  by (auto simp: await_def fun_eq_iff)

lemma await_assoc: "await (await m k) h = await m (\<lambda>a. await (k a) h)"
  by (rule ext) (simp add: await_def split: prod.splits outcome.splits)

lemma await_return_right [simp]: "await m return = m"
  by (rule ext) (simp add: await_def split: prod.splits outcome.splits)

lemma await_OkE:
  assumes "await m k s = (Ok b, t)"
  obtains a s' where "m s = (Ok a, s')" and "k a s' = (Ok b, t)"
  using assms by (auto simp: await_def split: prod.splits outcome.splits)

lemma await_Ok_iff:
  "await m k s = (Ok b, t) \<longleftrightarrow> (\<exists>a s'. m s = (Ok a, s') \<and> k a s' = (Ok b, t))"
  by (auto simp: await_def split: prod.splits outcome.splits)

lemma try_result_Ok_iff: "try_result r s = (Ok a, t) \<longleftrightarrow> r = Inr a \<and> t = s"
  by (cases r) auto

lemma amap_Ok_iff: "amap f m s = (Ok b, t) \<longleftrightarrow> (\<exists>a. m s = (Ok a, t) \<and> b = f a)"
  by (auto simp: amap_def await_Ok_iff)

lemmas Ok_iffs = await_Ok_iff try_result_Ok_iff

section \<open>Simulation of asynchronous functions\<close>

text \<open>
  \<open>m\<close> on states \<open>s\<close> with \<open>invar s\<close> does what \<open>m0\<close> does on the abstract state
  \<open>view s\<close>: the same outcome, the same observation \<open>obs\<close> of the state it leaves, and,
  when it returns \<^verbatim>\<open>Ok\<close>, a state that satisfies the invariant and has the same abstraction.
\<close>

definition simulates ::
  "('s \<Rightarrow> bool) \<Rightarrow> ('s \<Rightarrow> 't) \<Rightarrow> ('t \<Rightarrow> 'o) \<Rightarrow> ('s, 'a) async \<Rightarrow> ('t, 'a) async \<Rightarrow> bool" where
  "simulates invar view obs m m0 \<longleftrightarrow> (\<forall>s r s' r0 t'. invar s \<longrightarrow> m s = (r, s') \<longrightarrow> m0 (view s) = (r0, t') \<longrightarrow>
     r = r0 \<and> obs (view s') = obs t' \<and> (is_Ok r \<longrightarrow> invar s' \<and> view s' = t'))"

lemma simulatesI:
  assumes "\<And>s r s' r0 t'. invar s \<Longrightarrow> m s = (r, s') \<Longrightarrow> m0 (view s) = (r0, t') \<Longrightarrow>
    r = r0 \<and> obs (view s') = obs t' \<and> (is_Ok r \<longrightarrow> invar s' \<and> view s' = t')"
  shows "simulates invar view obs m m0"
  using assms unfolding simulates_def by blast

lemma simulatesD:
  assumes "simulates invar view obs m m0" and "invar s" and "m0 (view s) = (r, t)"
  obtains s' where "m s = (r, s')" and "obs (view s') = obs t" and "is_Ok r \<Longrightarrow> invar s' \<and> view s' = t"
  using assms unfolding simulates_def by (metis prod.exhaust)

lemma simulates_run:
  assumes "simulates invar view obs m m0" and "invar s"
  shows "fst (m s) = fst (m0 (view s)) \<and> obs (view (snd (m s))) = obs (snd (m0 (view s))) \<and>
    (is_Ok (fst (m s)) \<longrightarrow> invar (snd (m s)) \<and> view (snd (m s)) = snd (m0 (view s)))"
  using assms(1) [unfolded simulates_def, rule_format, OF assms(2) prod.collapse [symmetric] prod.collapse [symmetric]]
  by simp

lemma simulates_fst:
  "simulates invar view obs m m0 \<Longrightarrow> invar s \<Longrightarrow> fst (m s) = fst (m0 (view s))"
  using simulates_run [of invar view obs m m0 s] by simp

lemma simulates_obs:
  "simulates invar view obs m m0 \<Longrightarrow> invar s \<Longrightarrow> obs (view (snd (m s))) = obs (snd (m0 (view s)))"
  using simulates_run [of invar view obs m m0 s] by simp

lemma simulates_Ok:
  assumes "simulates invar view obs m m0" and "invar s"
  shows "(\<exists>s'. m s = (Ok a, s') \<and> invar s' \<and> view s' = t) \<longleftrightarrow> m0 (view s) = (Ok a, t)"
  using simulates_run [OF assms] by (cases "m s"; cases "m0 (view s)") auto

lemma simulates_OkD:
  assumes "simulates invar view obs m m0" and "invar s" and "m s = (Ok a, s')"
  shows "m0 (view s) = (Ok a, view s') \<and> invar s'"
  using simulates_run [OF assms(1,2)] assms(3) by (cases "m0 (view s)") simp

lemma simulates_return [sim_intros]: "simulates invar view obs (return a) (return a)"
  by (auto intro: simulatesI)

lemma simulates_fail [sim_intros]: "simulates invar view obs (fail e) (fail e)"
  by (auto intro: simulatesI)

lemma simulates_eval [sim_intros]: "simulates invar view obs (eval_outcome r) (eval_outcome r)"
  by (auto intro: simulatesI)

lemma simulates_panic [sim_intros]: "simulates invar view obs (panic p) (panic p)"
  by (auto intro: simulatesI)

lemma simulates_try [sim_intros]: "simulates invar view obs (try_result r) (try_result r)"
  by (cases r) (auto intro: simulatesI)

lemma simulates_await [sim_intros]:
  assumes m: "simulates invar view obs m m0"
    and k: "\<And>a. simulates invar view obs (k a) (k0 a)"
  shows "simulates invar view obs (await m k) (await m0 k0)"
proof (rule simulatesI)
  fix s r s' r0 t'
  assume s: "invar s" and run: "await m k s = (r, s')" and run0: "await m0 k0 (view s) = (r0, t')"
  obtain q u where q: "m0 (view s) = (q, u)"
    by (cases "m0 (view s)")
  obtain s1 where s1: "m s = (q, s1)" "obs (view s1) = obs u" "is_Ok q \<Longrightarrow> invar s1 \<and> view s1 = u"
    using simulatesD [OF m s q] by blast
  show "r = r0 \<and> obs (view s') = obs t' \<and> (is_Ok r \<longrightarrow> invar s' \<and> view s' = t')"
  proof (cases q)
    case (Ok a)
    then have "invar s1" and "k a s1 = (r, s')" and "k0 a (view s1) = (r0, t')"
      using s1 q run run0 by (simp_all add: await_def)
    then show ?thesis
      using k [of a] unfolding simulates_def by blast
  qed (use s1 q run run0 in \<open>auto simp: await_def\<close>)
qed

lemma simulates_map_err [sim_intros]:
  assumes "simulates invar view obs m m0"
  shows "simulates invar view obs (map_err f m) (map_err f m0)"
proof (rule simulatesI)
  fix s r s' r0 t'
  assume s: "invar s" and run: "map_err f m s = (r, s')" and run0: "map_err f m0 (view s) = (r0, t')"
  obtain q u where q: "m0 (view s) = (q, u)"
    by (cases "m0 (view s)")
  obtain s1 where "m s = (q, s1)" "obs (view s1) = obs u" "is_Ok q \<Longrightarrow> invar s1 \<and> view s1 = u"
    using simulatesD [OF assms s q] by blast
  with q run run0 show "r = r0 \<and> obs (view s') = obs t' \<and> (is_Ok r \<longrightarrow> invar s' \<and> view s' = t')"
    by (cases q) (auto simp: map_err_def)
qed

lemma simulates_unwrap [sim_intros]:
  assumes "simulates invar view obs m m0"
  shows "simulates invar view obs (unwrap m) (unwrap m0)"
proof (rule simulatesI)
  fix s r s' r0 t'
  assume s: "invar s" and run: "unwrap m s = (r, s')" and run0: "unwrap m0 (view s) = (r0, t')"
  obtain q u where q: "m0 (view s) = (q, u)"
    by (cases "m0 (view s)")
  obtain s1 where "m s = (q, s1)" "obs (view s1) = obs u" "is_Ok q \<Longrightarrow> invar s1 \<and> view s1 = u"
    using simulatesD [OF assms s q] by blast
  with q run run0 show "r = r0 \<and> obs (view s') = obs t' \<and> (is_Ok r \<longrightarrow> invar s' \<and> view s' = t')"
    by (cases q) (auto simp: unwrap_def)
qed

lemma simulates_amap [sim_intros]:
  "simulates invar view obs m m0 \<Longrightarrow> simulates invar view obs (amap f m) (amap f m0)"
  unfolding amap_def by (intro sim_intros)

lemma simulates_if [sim_intros]:
  "(b \<Longrightarrow> simulates invar view obs m m0) \<Longrightarrow> (\<not> b \<Longrightarrow> simulates invar view obs n n0) \<Longrightarrow>
   simulates invar view obs (if b then m else n) (if b then m0 else n0)"
  by simp

section \<open>Bytes and lengths\<close>

lemma unat_u8_less [simp]: "unat (b :: u8) < 256"
  using unsigned_less [of b] by simp

lemma unat_of_nat_u8 [simp]: "n < 256 \<Longrightarrow> unat (of_nat n :: u8) = n"
  by (simp add: unat_of_nat)

lemma unat_of_nat_u16 [simp]: "n < 65536 \<Longrightarrow> unat (of_nat n :: u16) = n"
  by (simp add: unat_of_nat)

section \<open>Big-endian words\<close>

text \<open>
  \<^verbatim>\<open>to_be_bytes\<close> and \<^verbatim>\<open>from_be_bytes\<close> of the unsigned integer types: \<open>be_bytes n w\<close>
  is the \<open>n\<close> low bytes of \<open>w\<close>, most significant first.
\<close>

primrec be_bytes :: "nat \<Rightarrow> 'a::len word \<Rightarrow> bytes" where
  "be_bytes 0 w = []"
| "be_bytes (Suc n) w = be_bytes n (drop_bit 8 w) @ [ucast w]"

definition of_be :: "bytes \<Rightarrow> 'a::len word" where
  "of_be = foldl (\<lambda>w b. push_bit 8 w OR ucast b) 0"

lemma length_be_bytes [simp]: "length (be_bytes n w) = n"
  by (induction n arbitrary: w) auto

lemma of_be_snoc: "of_be (bs @ [b]) = push_bit 8 (of_be bs) OR ucast b"
  by (simp add: of_be_def)

lemma of_be_Nil [simp]: "of_be [] = 0"
  by (simp add: of_be_def)

lemma of_be_be_bytes_take: "of_be (be_bytes n w) = take_bit (8 * n) (w :: 'a::len word)"
proof (induction n arbitrary: w)
  case 0
  then show ?case by simp
next
  case (Suc n)
  have "push_bit 8 (take_bit (8 * n) (drop_bit 8 w)) OR ucast (ucast w :: u8) = take_bit (8 * Suc n) w"
    by (rule bit_word_eqI)
      (auto simp: bit_simps not_le not_less le_less_Suc_eq)
  with Suc show ?case
    by (simp only: be_bytes.simps of_be_snoc)
qed

lemma of_be_be_bytes [simp]:
  "LENGTH('a) \<le> 8 * n \<Longrightarrow> of_be (be_bytes n w) = (w :: 'a::len word)"
  by (simp add: of_be_be_bytes_take take_bit_word_eq_self)

lemma be_bytes_of_be [simp]:
  "8 * length bs \<le> LENGTH('a) \<Longrightarrow> be_bytes (length bs) (of_be bs :: 'a::len word) = bs"
proof (induction bs rule: rev_induct)
  case Nil
  then show ?case by simp
next
  case (snoc b bs)
  let ?w = "of_be bs :: 'a word"
  have keep: "drop_bit 8 (push_bit 8 ?w OR ucast b) = ?w"
  proof (rule bit_word_eqI)
    fix i
    assume i: "i < LENGTH('a)"
    have high: "\<not> bit ?w i" if "\<not> 8 + i < LENGTH('a)"
    proof -
      have "?w = of_be (be_bytes (length bs) ?w)"
        using snoc by simp
      also have "\<dots> = take_bit (8 * length bs) ?w"
        by (rule of_be_be_bytes_take)
      finally have "bit ?w i \<longleftrightarrow> bit (take_bit (8 * length bs) ?w) i"
        by simp
      moreover have "\<not> i < 8 * length bs"
        using that snoc.prems by simp
      ultimately show ?thesis
        by (simp add: bit_simps)
    qed
    show "bit (drop_bit 8 (push_bit 8 ?w OR ucast b)) i \<longleftrightarrow> bit ?w i"
      using i high by (auto simp: bit_simps not_le dest: bit_imp_le_length)
  qed
  have low: "(ucast (push_bit 8 ?w OR ucast b) :: u8) = b"
    by (rule bit_word_eqI) (use snoc.prems in \<open>auto simp: bit_simps\<close>)
  have "be_bytes (length bs) ?w = bs"
    using snoc by simp
  then show ?case
    by (simp only: length_append_singleton be_bytes.simps of_be_snoc keep low)
qed

lemma be_bytes_inject:
  "LENGTH('a) \<le> 8 * n \<Longrightarrow> be_bytes n v = be_bytes n w \<longleftrightarrow> v = (w :: 'a::len word)"
  by (metis of_be_be_bytes)

section \<open>Lists of tasks\<close>

lemma ball_update: "\<forall>x \<in> set xs. P x \<Longrightarrow> P y \<Longrightarrow> \<forall>x \<in> set (xs[i := y]). P x"
  using set_update_subset_insert [of xs i y] by blast

end
