(* ===== verification/Common.thy ===== *)
theory Common
  imports Trojan_Prelude
begin

text \<open>
  The protocol-independent data of \<^verbatim>\<open>src/protocol/common\<close> and \<^verbatim>\<open>src/proxy/base.rs\<close>:
  address types, commands, addresses and the request that acceptors hand to handlers. Domain names
  are byte strings, IP addresses are words; the resolver behind \<^verbatim>\<open>to_socket_addrs\<close> is an
  argument of the conversion to a socket address.
\<close>

section \<open>Address types and commands\<close>

datatype Atype = IPv4 | IPv6 | DomainName

definition ATYPE_IPV4 :: u8 where "ATYPE_IPV4 = 1"
definition ATYPE_DOMAIN_NAME :: u8 where "ATYPE_DOMAIN_NAME = 3"
definition ATYPE_IPV6 :: u8 where "ATYPE_IPV6 = 4"

text \<open>The inherent \<^verbatim>\<open>Atype::from\<close>, which every caller uses, and the \<^verbatim>\<open>From<u8>\<close> trait.\<close>

definition Atype_from :: "u8 \<Rightarrow> io_error + Atype" where
  "Atype_from atype =
     (if atype = ATYPE_IPV4 then Inr IPv4
      else if atype = ATYPE_IPV6 then Inr IPv6
      else if atype = ATYPE_DOMAIN_NAME then Inr DomainName
      else Inl (Error Unsupported ''Unsupported address type''))"

definition Atype_From_trait :: "u8 \<Rightarrow> Atype" where
  "Atype_From_trait atype =
     (if atype = ATYPE_IPV4 then IPv4
      else if atype = ATYPE_IPV6 then IPv6
      else if atype = ATYPE_DOMAIN_NAME then DomainName
      else IPv4)"

fun to_byte :: "Atype \<Rightarrow> u8" where
  "to_byte IPv4 = ATYPE_IPV4"
| "to_byte IPv6 = ATYPE_IPV6"
| "to_byte DomainName = ATYPE_DOMAIN_NAME"

text \<open>\<^verbatim>\<open>atype as u8\<close>: the discriminants of the \<^verbatim>\<open>repr(u8)\<close> enumeration.\<close>

fun atype_u8 :: "Atype \<Rightarrow> u8" where
  "atype_u8 IPv4 = 1"
| "atype_u8 IPv6 = 4"
| "atype_u8 DomainName = 3"

fun Atype_fmt :: "Atype \<Rightarrow> string" where
  "Atype_fmt IPv4 = ''IPv4''"
| "Atype_fmt IPv6 = ''IPv6''"
| "Atype_fmt DomainName = ''DomainName''"

datatype Command = Connect | Bind | Udp

definition CONNECT :: u8 where "CONNECT = 1"
definition BIND :: u8 where "BIND = 2"
definition UDP_COMMAND :: u8 where "UDP_COMMAND = 3"

definition Command_from :: "u8 \<Rightarrow> io_error + Command" where
  "Command_from command =
     (if command = CONNECT then Inr Connect
      else if command = BIND then Inr Bind
      else if command = UDP_COMMAND then Inr Udp
      else Inl (Error Unsupported ''Unsupported command request''))"

fun command_u8 :: "Command \<Rightarrow> u8" where
  "command_u8 Connect = 1"
| "command_u8 Bind = 2"
| "command_u8 Udp = 3"

fun Command_fmt :: "Command \<Rightarrow> string" where
  "Command_fmt Connect = ''Connect''"
| "Command_fmt Bind = ''Bind''"
| "Command_fmt Udp = ''Udp''"

lemmas atype_consts = ATYPE_IPV4_def ATYPE_DOMAIN_NAME_def ATYPE_IPV6_def
lemmas command_consts = CONNECT_def BIND_def UDP_COMMAND_def

lemma to_byte_u8 [simp]: "to_byte a = atype_u8 a"
  by (cases a) (simp_all add: atype_consts)

lemma atype_u8_inject [simp]: "atype_u8 a = atype_u8 b \<longleftrightarrow> a = b"
  by (cases a; cases b) simp_all

lemma command_u8_inject [simp]: "command_u8 a = command_u8 b \<longleftrightarrow> a = b"
  by (cases a; cases b) simp_all

lemma Atype_from_u8 [simp]: "Atype_from (atype_u8 a) = Inr a"
  by (cases a) (simp_all add: Atype_from_def atype_consts)

lemma Command_from_u8 [simp]: "Command_from (command_u8 c) = Inr c"
  by (cases c) (simp_all add: Command_from_def command_consts)

lemma Atype_from_Inr: "Atype_from b = Inr a \<longleftrightarrow> b = atype_u8 a"
proof
  assume "Atype_from b = Inr a"
  then show "b = atype_u8 a"
    by (cases a) (simp_all add: Atype_from_def atype_consts split: if_splits)
qed simp

lemma Command_from_Inr: "Command_from b = Inr c \<longleftrightarrow> b = command_u8 c"
proof
  assume "Command_from b = Inr c"
  then show "b = command_u8 c"
    by (cases c) (simp_all add: Command_from_def command_consts split: if_splits)
qed simp

lemma Atype_from_Inl: "Atype_from b = Inl e \<Longrightarrow> e = Error Unsupported ''Unsupported address type''"
  by (simp add: Atype_from_def split: if_splits)

lemma Command_from_Inl: "Command_from b = Inl e \<Longrightarrow> e = Error Unsupported ''Unsupported command request''"
  by (simp add: Command_from_def split: if_splits)

section \<open>Addresses\<close>

text \<open>
  \<^verbatim>\<open>std::net::IpAddr\<close>, built from a word as \<^verbatim>\<open>Ipv4Addr::from(u32)\<close> and
  \<^verbatim>\<open>Ipv6Addr::from(u128)\<close> do; \<^verbatim>\<open>octets\<close> is the big-endian encoding of that word.
\<close>

datatype IpAddr = V4 u32 | V6 u128

fun octets :: "IpAddr \<Rightarrow> bytes" where
  "octets (V4 w) = be_bytes 4 w"
| "octets (V6 w) = be_bytes 16 w"

datatype SocketAddr = SocketAddr IpAddr u16

definition IPV4_SIZE :: nat where "IPV4_SIZE = 4"
definition IPV6_SIZE :: nat where "IPV6_SIZE = 16"

record DomainName =
  inner :: bytes

definition as_bytes :: "DomainName \<Rightarrow> bytes" where
  "as_bytes d = inner d"

datatype IpAddress = IpAddr IpAddr | Domain DomainName

record IpAddrPort =
  ip :: IpAddress
  port :: u16

definition IpAddrPort_new :: "IpAddress \<Rightarrow> u16 \<Rightarrow> IpAddrPort" where
  "IpAddrPort_new i p = \<lparr>ip = i, port = p\<rparr>"

fun IpAddress_len :: "IpAddress \<Rightarrow> nat" where
  "IpAddress_len (IpAddr (V4 _)) = IPV4_SIZE"
| "IpAddress_len (IpAddr (V6 _)) = IPV6_SIZE"
| "IpAddress_len (Domain domain) = length (inner domain)"

definition from_u32 :: "u32 \<Rightarrow> IpAddress" where
  "from_u32 addr = IpAddr (V4 addr)"

definition from_u128 :: "u128 \<Rightarrow> IpAddress" where
  "from_u128 addr = IpAddr (V6 addr)"

definition from_bytes :: "bytes \<Rightarrow> IpAddress" where
  "from_bytes addr = Domain \<lparr>inner = addr\<rparr>"

subsection \<open>UTF-8\<close>

text \<open>
  \<^verbatim>\<open>std::str::from_utf8\<close> accepts exactly the well-formed byte sequences of the Unicode
  standard: no overlong forms, no surrogates, nothing above U+10FFFF. A Rust \<^verbatim>\<open>str\<close> is
  the string of its bytes.
\<close>

definition in_range :: "nat \<Rightarrow> nat \<Rightarrow> u8 \<Rightarrow> bool" where
  "in_range lo hi b \<longleftrightarrow> lo \<le> unat b \<and> unat b \<le> hi"

definition cont_byte :: "u8 \<Rightarrow> bool" where
  "cont_byte b \<longleftrightarrow> in_range 0x80 0xBF b"

fun utf8_valid :: "bytes \<Rightarrow> bool" where
  "utf8_valid [] = True"
| "utf8_valid (b # bs) =
     (if in_range 0 0x7F b then utf8_valid bs
      else case bs of
        [] \<Rightarrow> False
      | c1 # bs1 \<Rightarrow>
          if in_range 0xC2 0xDF b then cont_byte c1 \<and> utf8_valid bs1
          else case bs1 of
            [] \<Rightarrow> False
          | c2 # bs2 \<Rightarrow>
              if in_range 0xE0 0xEF b then
                cont_byte c1 \<and> cont_byte c2 \<and>
                (b = 0xE0 \<longrightarrow> in_range 0xA0 0xBF c1) \<and> (b = 0xED \<longrightarrow> in_range 0x80 0x9F c1) \<and>
                utf8_valid bs2
              else case bs2 of
                [] \<Rightarrow> False
              | c3 # bs3 \<Rightarrow>
                  in_range 0xF0 0xF4 b \<and> cont_byte c1 \<and> cont_byte c2 \<and> cont_byte c3 \<and>
                  (b = 0xF0 \<longrightarrow> in_range 0x90 0xBF c1) \<and> (b = 0xF4 \<longrightarrow> in_range 0x80 0x8F c1) \<and>
                  utf8_valid bs3)"

definition str_of_bytes :: "bytes \<Rightarrow> string" where
  "str_of_bytes bs = map (\<lambda>b. char_of (unat b)) bs"

definition bytes_of_str :: "string \<Rightarrow> bytes" where
  "bytes_of_str cs = map (\<lambda>c. of_nat (of_char c)) cs"

definition from_utf8 :: "bytes \<Rightarrow> string option" where
  "from_utf8 bs = (if utf8_valid bs then Some (str_of_bytes bs) else None)"

lemma bytes_of_str_of_bytes [simp]: "bytes_of_str (str_of_bytes bs) = bs"
proof (induction bs)
  case (Cons b bs)
  have "unat b < 256"
    using unsigned_less [of b] by simp
  with Cons show ?case
    by (simp add: bytes_of_str_def str_of_bytes_def)
qed (simp add: bytes_of_str_def str_of_bytes_def)

lemma utf8_valid_ascii: "\<forall>b\<in>set bs. unat b < 128 \<Longrightarrow> utf8_valid bs"
  by (induction bs) (auto simp: in_range_def)

subsection \<open>Resolution to a socket address\<close>

text \<open>\<^verbatim>\<open>(name, port).to_socket_addrs()\<close> asks the operating system's resolver.\<close>

type_synonym resolver = "string \<Rightarrow> u16 \<Rightarrow> io_error + SocketAddr list"

definition into_SocketAddr :: "resolver \<Rightarrow> IpAddrPort \<Rightarrow> SocketAddr outcome" where
  "into_SocketAddr to_socket_addrs self =
     (case ip self of
        IpAddr addr \<Rightarrow> Ok (SocketAddr addr (port self))
      | Domain domain \<Rightarrow>
          let name = (case from_utf8 (inner domain) of Some n \<Rightarrow> n | None \<Rightarrow> ''127.0.0.1'') in
          (case to_socket_addrs name (port self) of
             Inl e \<Rightarrow> Panic (''Failed to resolve DNS name: '' @ name @ '', '' @ message e)
           | Inr addrs \<Rightarrow>
               (case addrs of
                  n # _ \<Rightarrow> Ok n
                | [] \<Rightarrow> Panic (''No DNS result for the domain name: '' @ name))))"

text \<open>A name that is not valid UTF-8 is looked up as the loopback address.\<close>

lemma invalid_name_is_loopback:
  assumes "ip self = Domain d" and "\<not> utf8_valid (inner d)" and "dns ''127.0.0.1'' (port self) = Inr (a # as)"
  shows "into_SocketAddr dns self = Ok a"
  using assms by (simp add: into_SocketAddr_def from_utf8_def)

section \<open>Requests\<close>

datatype SupportedProtocols = SOCKS | TROJAN | DIRECT

datatype TransportProtocol = TCP | UDP

record InboundRequest =
  atype :: Atype
  addr_port :: IpAddrPort
  command :: Command
  transport_protocol :: TransportProtocol
  proxy_protocol :: SupportedProtocols

definition InboundRequest_new ::
  "Atype \<Rightarrow> IpAddress \<Rightarrow> Command \<Rightarrow> u16 \<Rightarrow> TransportProtocol \<Rightarrow> SupportedProtocols \<Rightarrow> InboundRequest" where
  "InboundRequest_new at addr cmd p tp pp =
     \<lparr>atype = at, addr_port = IpAddrPort_new addr p, command = cmd,
      transport_protocol = tp, proxy_protocol = pp\<rparr>"

text \<open>
  The invariant every parser establishes and every encoder relies on: the address type byte
  describes the address that follows it, and a domain name fits its length byte.
\<close>

fun wf_addr :: "Atype \<Rightarrow> IpAddress \<Rightarrow> bool" where
  "wf_addr IPv4 (IpAddr (V4 _)) = True"
| "wf_addr IPv6 (IpAddr (V6 _)) = True"
| "wf_addr DomainName (Domain d) = (length (inner d) < 256)"
| "wf_addr _ _ = False"

definition transport_of :: "Command \<Rightarrow> TransportProtocol" where
  "transport_of cmd = (if cmd = Udp then UDP else TCP)"

definition wf_request :: "InboundRequest \<Rightarrow> bool" where
  "wf_request r \<longleftrightarrow> wf_addr (atype r) (ip (addr_port r)) \<and>
     transport_protocol r = transport_of (command r)"

lemma wf_addr_cases:
  assumes "wf_addr at a"
  obtains w where "at = IPv4" "a = IpAddr (V4 w)"
  | w where "at = IPv6" "a = IpAddr (V6 w)"
  | d where "at = DomainName" "a = Domain d" "length (inner d) < 256"
  using assms by (cases "(at, a)" rule: wf_addr.cases) auto

lemma wf_addr_from [simp]:
  "wf_addr IPv4 (from_u32 w)"
  "wf_addr IPv6 (from_u128 v)"
  "wf_addr DomainName (from_bytes bs) \<longleftrightarrow> length bs < 256"
  by (simp_all add: from_u32_def from_u128_def from_bytes_def)

lemma wf_addr_len:
  assumes "wf_addr at a"
  shows "IpAddress_len a < 256"
  using assms by (rule wf_addr_cases) (simp_all add: IPV4_SIZE_def IPV6_SIZE_def)

lemma length_octets: "length (octets a) = IpAddress_len (IpAddr a)"
  by (cases a) (simp_all add: IPV4_SIZE_def IPV6_SIZE_def)

end
