(* ===== verification/Async_Io.thy ===== *)
theory Async_Io
  imports Common
begin

text \<open>
  The interface of the source to \<^verbatim>\<open>tokio\<close>. The code reads and writes through the traits
  \<^verbatim>\<open>AsyncReadExt\<close>, \<^verbatim>\<open>AsyncWriteExt\<close>, \<^verbatim>\<open>UdpSocket\<close> and
  \<^verbatim>\<open>mpsc::Sender\<close>; none of them is code of this repository, so each is a record of
  operations that the definitions take as an argument. What the code relies on is stated against
  \<^verbatim>\<open>conn\<close>, \<^verbatim>\<open>udp\<close> and \<^verbatim>\<open>chan\<close>, the abstract byte stream, datagram socket and
  channel of the documentation: the locales below say that the operations simulate them.
\<close>

section \<open>Operations\<close>

record 's reader =
  read_exact :: "nat \<Rightarrow> ('s, bytes) async"
  read_u8 :: "('s, u8) async"
  read_u16 :: "('s, u16) async"
  read_u32 :: "('s, u32) async"
  read_u128 :: "('s, u128) async"
  read :: "nat \<Rightarrow> ('s, bytes) async"
  read_buf :: "nat \<Rightarrow> ('s, bytes) async"

record 's writer =
  write_all :: "bytes \<Rightarrow> ('s, unit) async"
  write_u8 :: "u8 \<Rightarrow> ('s, unit) async"
  write_u16 :: "u16 \<Rightarrow> ('s, unit) async"
  flush :: "('s, unit) async"

record 's udp_socket =
  send_to :: "bytes \<Rightarrow> SocketAddr \<Rightarrow> ('s, nat) async"
  recv_from :: "nat \<Rightarrow> ('s, bytes \<times> SocketAddr) async"
  recv :: "nat \<Rightarrow> ('s, bytes) async"

record ('s, 'm) sender =
  send :: "'m \<Rightarrow> ('s, unit) async"

section \<open>The abstract byte stream\<close>

text \<open>
  \<open>inp\<close> is everything the peer will ever send and \<open>iend\<close> what follows it: a clean end, an
  error, or silence. \<open>isizes\<close> fixes how many bytes the next calls of \<^verbatim>\<open>read\<close> find (at
  least one, at most what was asked for). \<open>outp\<close> is what was written, and \<open>oend\<close> says when
  the peer stops accepting.
\<close>

datatype ending = Eof | Broken io_error | Open

datatype wending = Accepting | WBreaks nat io_error | WStalls nat

record conn =
  inp :: bytes
  iend :: ending
  isizes :: "nat list"
  outp :: bytes
  oend :: wending

fun short_read :: "ending \<Rightarrow> 'a outcome" where
  "short_read Eof = Err (Error UnexpectedEof ''early eof'')"
| "short_read (Broken e) = Err e"
| "short_read Open = Hang"

definition conn_read_exact :: "nat \<Rightarrow> (conn, bytes) async" where
  "conn_read_exact n c =
     (if n \<le> length (inp c) then (Ok (take n (inp c)), c\<lparr>inp := drop n (inp c)\<rparr>)
      else (short_read (iend c), c\<lparr>inp := []\<rparr>))"

definition conn_read :: "nat \<Rightarrow> (conn, bytes) async" where
  "conn_read n c =
     (if inp c = [] then (case iend c of Eof \<Rightarrow> Ok [] | Broken e \<Rightarrow> Err e | Open \<Rightarrow> Hang, c)
      else let k = (case isizes c of [] \<Rightarrow> n | k # _ \<Rightarrow> min n (max 1 k)) in
        (Ok (take k (inp c)), c\<lparr>inp := drop k (inp c), isizes := tl (isizes c)\<rparr>))"

definition conn_reader :: "conn reader" where
  "conn_reader =
     \<lparr>read_exact = conn_read_exact,
      read_u8 = amap of_be (conn_read_exact 1),
      read_u16 = amap of_be (conn_read_exact 2),
      read_u32 = amap of_be (conn_read_exact 4),
      read_u128 = amap of_be (conn_read_exact 16),
      read = conn_read,
      read_buf = conn_read\<rparr>"

definition conn_write_all :: "bytes \<Rightarrow> (conn, unit) async" where
  "conn_write_all bs c =
     (case oend c of
        Accepting \<Rightarrow> (Ok (), c\<lparr>outp := outp c @ bs\<rparr>)
      | WBreaks k e \<Rightarrow>
          if length bs \<le> k
          then (Ok (), c\<lparr>outp := outp c @ bs, oend := WBreaks (k - length bs) e\<rparr>)
          else (Err e, c\<lparr>outp := outp c @ take k bs, oend := WBreaks 0 e\<rparr>)
      | WStalls k \<Rightarrow>
          if length bs \<le> k
          then (Ok (), c\<lparr>outp := outp c @ bs, oend := WStalls (k - length bs)\<rparr>)
          else (Hang, c\<lparr>outp := outp c @ take k bs, oend := WStalls 0\<rparr>))"

definition conn_flush :: "(conn, unit) async" where
  "conn_flush c =
     (case oend c of WBreaks 0 e \<Rightarrow> (Err e, c) | WStalls 0 \<Rightarrow> (Hang, c) | _ \<Rightarrow> (Ok (), c))"

definition conn_writer :: "conn writer" where
  "conn_writer =
     \<lparr>write_all = conn_write_all,
      write_u8 = (\<lambda>b. conn_write_all [b]),
      write_u16 = (\<lambda>w. conn_write_all (be_bytes 2 w)),
      flush = conn_flush\<rparr>"

text \<open>A peer that sends \<open>bs\<close>, closes its side and accepts everything.\<close>

definition peer :: "bytes \<Rightarrow> conn" where
  "peer bs = \<lparr>inp = bs, iend = Eof, isizes = [], outp = [], oend = Accepting\<rparr>"

lemma peer_sel [simp]:
  "inp (peer bs) = bs" "iend (peer bs) = Eof" "isizes (peer bs) = []" "outp (peer bs) = []"
  "oend (peer bs) = Accepting" "(peer bs)\<lparr>inp := cs\<rparr> = peer cs"
  by (simp_all add: peer_def)

subsection \<open>Evaluation of the abstract stream\<close>

lemma conn_reader_sel [simp]:
  "read_exact conn_reader = conn_read_exact"
  "read_u8 conn_reader = amap of_be (conn_read_exact (Suc 0))"
  "read_u16 conn_reader = amap of_be (conn_read_exact 2)"
  "read_u32 conn_reader = amap of_be (conn_read_exact 4)"
  "read_u128 conn_reader = amap of_be (conn_read_exact 16)"
  "read conn_reader = conn_read"
  "read_buf conn_reader = conn_read"
  by (simp_all add: conn_reader_def)

lemma conn_writer_sel [simp]:
  "write_all conn_writer = conn_write_all"
  "write_u8 conn_writer b = conn_write_all [b]"
  "write_u16 conn_writer w = conn_write_all (be_bytes 2 w)"
  "flush conn_writer = conn_flush"
  by (simp_all add: conn_writer_def)

lemma conn_read_exact_short:
  "length (inp c) < n \<Longrightarrow> conn_read_exact n c = (short_read (iend c), c\<lparr>inp := []\<rparr>)"
  by (simp add: conn_read_exact_def)

lemma conn_read_exact_Ok:
  "conn_read_exact n c = (Ok bs, c') \<longleftrightarrow>
     (\<exists>rest. length bs = n \<and> inp c = bs @ rest \<and> c' = c\<lparr>inp := rest\<rparr>)"
proof
  assume "conn_read_exact n c = (Ok bs, c')"
  then show "\<exists>rest. length bs = n \<and> inp c = bs @ rest \<and> c' = c\<lparr>inp := rest\<rparr>"
    by (cases "iend c")
      (auto simp: conn_read_exact_def split: if_splits intro!: exI [of _ "drop n (inp c)"])
qed (auto simp: conn_read_exact_def)

lemma conn_read_word_Ok:
  assumes "8 * n = LENGTH('a)"
  shows "amap of_be (conn_read_exact n) c = (Ok (w :: 'a::len word), c') \<longleftrightarrow>
     (\<exists>rest. inp c = be_bytes n w @ rest \<and> c' = c\<lparr>inp := rest\<rparr>)"
proof
  assume "amap of_be (conn_read_exact n) c = (Ok w, c')"
  then obtain bs rest where "length bs = n" "inp c = bs @ rest" "c' = c\<lparr>inp := rest\<rparr>" "w = of_be bs"
    by (auto simp: amap_Ok_iff conn_read_exact_Ok)
  moreover have "be_bytes n w = bs"
    using calculation assms be_bytes_of_be [of bs, where 'a = 'a] by simp
  ultimately show "\<exists>rest. inp c = be_bytes n w @ rest \<and> c' = c\<lparr>inp := rest\<rparr>"
    by simp
next
  assume "\<exists>rest. inp c = be_bytes n w @ rest \<and> c' = c\<lparr>inp := rest\<rparr>"
  then show "amap of_be (conn_read_exact n) c = (Ok w, c')"
    using assms by (auto simp: amap_Ok_iff conn_read_exact_def intro!: exI [of _ "be_bytes n w"])
qed

lemma be_bytes_1 [simp]: "be_bytes (Suc 0) w = [w]" for w :: u8
  by simp

lemma conn_read_words_Ok:
  "amap of_be (conn_read_exact (Suc 0)) c = (Ok (b :: u8), c') \<longleftrightarrow>
     (\<exists>rest. inp c = b # rest \<and> c' = c\<lparr>inp := rest\<rparr>)"
  "amap of_be (conn_read_exact 2) c = (Ok (p :: u16), c') \<longleftrightarrow>
     (\<exists>rest. inp c = be_bytes 2 p @ rest \<and> c' = c\<lparr>inp := rest\<rparr>)"
  "amap of_be (conn_read_exact 4) c = (Ok (v :: u32), c') \<longleftrightarrow>
     (\<exists>rest. inp c = be_bytes 4 v @ rest \<and> c' = c\<lparr>inp := rest\<rparr>)"
  "amap of_be (conn_read_exact 16) c = (Ok (w :: u128), c') \<longleftrightarrow>
     (\<exists>rest. inp c = be_bytes 16 w @ rest \<and> c' = c\<lparr>inp := rest\<rparr>)"
  using conn_read_word_Ok [of 1 c b c'] conn_read_word_Ok [of 2 c p c']
    conn_read_word_Ok [of 4 c v c'] conn_read_word_Ok [of 16 c w c']
  by simp_all

lemmas conn_read_Ok = conn_read_exact_Ok conn_read_words_Ok

lemma conn_reads_app [simp]:
  "n = length bs \<Longrightarrow> conn_read_exact n (c\<lparr>inp := bs @ rest\<rparr>) = (Ok bs, c\<lparr>inp := rest\<rparr>)"
  "amap of_be (conn_read_exact (Suc 0)) (c\<lparr>inp := (b :: u8) # rest\<rparr>) = (Ok b, c\<lparr>inp := rest\<rparr>)"
  "amap of_be (conn_read_exact 2) (c\<lparr>inp := be_bytes 2 (p :: u16) @ rest\<rparr>) = (Ok p, c\<lparr>inp := rest\<rparr>)"
  by (simp_all add: conn_read_Ok conn_read_exact_def)

lemma conn_write_accepting [simp]:
  "oend c = Accepting \<Longrightarrow> conn_write_all bs c = (Ok (), c\<lparr>outp := outp c @ bs\<rparr>)"
  "oend c = Accepting \<Longrightarrow> conn_flush c = (Ok (), c)"
  by (simp_all add: conn_write_all_def conn_flush_def)

text \<open>Only the first \<open>room\<close> bytes of what is written reach the peer.\<close>

fun room :: "wending \<Rightarrow> bytes \<Rightarrow> bytes" where
  "room Accepting bs = bs"
| "room (WBreaks k e) bs = take k bs"
| "room (WStalls k) bs = take k bs"

subsection \<open>Framed readers\<close>

lemma conn_inp_update_inject [simp]: "c\<lparr>inp := x\<rparr> = c\<lparr>inp := y\<rparr> \<longleftrightarrow> x = y"
  by (cases c) simp

lemma conn_inp_update: "inp c = bs \<Longrightarrow> c\<lparr>inp := bs\<rparr> = c"
  by (cases c) simp

text \<open>
  A reader is framed when the bytes it consumes decide its result: it leaves the bytes after them
  alone, does the same whatever follows, and on a strict prefix of them ends as a short read does.
\<close>

named_theorems framed_intros \<open>rules for framed readers\<close>

definition consumes :: "(conn, 'a) async \<Rightarrow> bytes \<Rightarrow> 'a \<Rightarrow> bool" where
  "consumes m u a \<longleftrightarrow>
     (\<forall>c x. m (c\<lparr>inp := u @ x\<rparr>) = (Ok a, c\<lparr>inp := x\<rparr>)) \<and>
     (\<forall>c v. strict_prefix v u \<longrightarrow> fst (m (c\<lparr>inp := v\<rparr>)) = short_read (iend c))"

definition framed :: "(conn, 'a) async \<Rightarrow> bool" where
  "framed m \<longleftrightarrow> (\<forall>c a c'. m c = (Ok a, c') \<longrightarrow>
     (\<exists>u x. inp c = u @ x \<and> c' = c\<lparr>inp := x\<rparr> \<and> consumes m u a))"

lemma framedI:
  assumes "\<And>c a c'. m c = (Ok a, c') \<Longrightarrow>
    \<exists>u x. inp c = u @ x \<and> c' = c\<lparr>inp := x\<rparr> \<and> consumes m u a"
  shows "framed m"
  using assms by (simp add: framed_def)

lemma framedD:
  assumes "framed m" and "m c = (Ok a, c')"
  obtains u x where "inp c = u @ x" "c' = c\<lparr>inp := x\<rparr>" "consumes m u a"
  using assms unfolding framed_def by blast

lemma framed_consumes:
  assumes "framed m" and run: "\<And>c x. m (c\<lparr>inp := u @ x\<rparr>) = (Ok a, c\<lparr>inp := x\<rparr>)"
  shows "consumes m u a"
proof -
  let ?c = "undefined\<lparr>inp := u @ []\<rparr> :: conn"
  have "m ?c = (Ok a, ?c\<lparr>inp := []\<rparr>)"
    by (subst run) simp
  then obtain v x where v: "inp ?c = v @ x" "?c\<lparr>inp := []\<rparr> = ?c\<lparr>inp := x\<rparr>" "consumes m v a"
    using framedD [OF assms(1)] by blast
  have "inp (?c\<lparr>inp := []\<rparr>) = inp (?c\<lparr>inp := x\<rparr>)"
    by (simp only: v(2))
  then have "x = []" by simp
  with v show ?thesis by simp
qed

lemma consumes_Nil: "(\<And>c. m c = (Ok a, c)) \<Longrightarrow> consumes m [] a"
  by (simp add: consumes_def)

lemma framed_eval [framed_intros]: "framed (eval_outcome r)"
proof (rule framedI)
  fix c c' :: conn and a
  assume "eval_outcome r c = (Ok a, c')"
  then show "\<exists>u x. inp c = u @ x \<and> c' = c\<lparr>inp := x\<rparr> \<and> consumes (eval_outcome r) u a"
    by (intro exI [of _ "[]"] exI [of _ "inp c"]) (simp add: consumes_Nil)
qed

lemma framed_return [framed_intros]: "framed (return a)"
proof -
  have "(return a :: (conn, _) async) = eval_outcome (Ok a)"
    by (rule ext) simp
  then show ?thesis
    using framed_eval by simp
qed

lemma framed_fail [framed_intros]: "framed (fail e)"
  by (rule framedI) simp

lemma framed_try [framed_intros]: "framed (try_result r)"
  by (cases r) (simp_all add: try_result_def framed_fail framed_return)

lemma consumes_await:
  assumes m: "consumes m u a" and k: "consumes (k a) v b"
  shows "consumes (await m k) (u @ v) b"
  unfolding consumes_def
proof (intro conjI allI impI)
  fix c x
  show "await m k (c\<lparr>inp := (u @ v) @ x\<rparr>) = (Ok b, c\<lparr>inp := x\<rparr>)"
    using m k by (simp add: consumes_def await_def)
next
  fix c w
  assume "strict_prefix w (u @ v)"
  then consider "strict_prefix w u" | v' where "w = u @ v'" "strict_prefix v' v"
    by (cases "w = u") (auto simp: strict_prefix_def prefix_append)
  then show "fst (await m k (c\<lparr>inp := w\<rparr>)) = short_read (iend c)"
  proof cases
    case 1
    then have "fst (m (c\<lparr>inp := w\<rparr>)) = short_read (iend c)"
      using m by (simp add: consumes_def)
    then show ?thesis
      by (cases "iend c") (auto simp: await_def split: prod.splits)
  next
    case 2
    then show ?thesis
      using m k by (simp add: consumes_def await_def)
  qed
qed

lemma framed_await [framed_intros]:
  assumes "framed m" and "\<And>a. framed (k a)"
  shows "framed (await m k)"
proof (rule framedI)
  fix c b c'
  assume "await m k c = (Ok b, c')"
  then obtain a s where "m c = (Ok a, s)" "k a s = (Ok b, c')"
    by (rule await_OkE)
  moreover from this obtain u x where "inp c = u @ x" "s = c\<lparr>inp := x\<rparr>" "consumes m u a"
    using framedD [OF assms(1)] by blast
  moreover from calculation obtain v y where "inp s = v @ y" "c' = s\<lparr>inp := y\<rparr>" "consumes (k a) v b"
    using framedD [OF assms(2)] by blast
  ultimately show "\<exists>u x. inp c = u @ x \<and> c' = c\<lparr>inp := x\<rparr> \<and> consumes (await m k) u b"
    using consumes_await [of m u a k v b] by (intro exI [of _ "u @ v"] exI [of _ y]) simp
qed

lemma framed_read_exact [framed_intros]: "framed (conn_read_exact n)"
proof (rule framedI)
  fix c bs c'
  assume "conn_read_exact n c = (Ok bs, c')"
  moreover have "consumes (conn_read_exact (length bs)) bs bs"
    unfolding consumes_def by (auto simp: conn_read_exact_short prefix_length_less)
  ultimately show "\<exists>u x. inp c = u @ x \<and> c' = c\<lparr>inp := x\<rparr> \<and> consumes (conn_read_exact n) u bs"
    by (auto simp: conn_read_exact_Ok)
qed

lemma framed_amap [framed_intros]: "framed m \<Longrightarrow> framed (amap f m)"
  unfolding amap_def by (intro framed_intros)

lemma framed_if [framed_intros]: "framed m \<Longrightarrow> framed n \<Longrightarrow> framed (if b then m else n)"
  by simp

subsection \<open>Readers that never panic\<close>

text \<open>
  The outcomes of a parser: a value, an error of one of the kinds \<open>K\<close> that it raises itself,
  or what a read past the end of the input gives.
\<close>

definition ends_well :: "ErrorKind set \<Rightarrow> (conn, 'a) async \<Rightarrow> bool" where
  "ends_well K m \<longleftrightarrow> (\<forall>c r c'. m c = (r, c') \<longrightarrow>
     iend c' = iend c \<and> (is_Ok r \<or> r = short_read (iend c) \<or> (\<exists>e. r = Err e \<and> kind e \<in> K)))"

named_theorems ends_well_intros \<open>rules for readers that never panic\<close>

lemma ends_well_return [ends_well_intros]: "ends_well K (return a)"
  by (simp add: ends_well_def)

lemma ends_well_fail [ends_well_intros]: "kind e \<in> K \<Longrightarrow> ends_well K (fail e)"
  by (simp add: ends_well_def)

lemma ends_well_read_exact [ends_well_intros]: "ends_well K (conn_read_exact n)"
  by (auto simp: ends_well_def conn_read_exact_def)

lemma ends_well_try [ends_well_intros]:
  "(\<And>e. r = Inl e \<Longrightarrow> kind e \<in> K) \<Longrightarrow> ends_well K (try_result r)"
  by (cases r) (auto simp: ends_well_def)

lemma short_read_bind [simp]: "bind_outcome (short_read e) f = short_read e"
  by (cases e) auto

lemma await_bind: "\<not> is_Ok (fst (m s)) \<Longrightarrow> await m k s = (bind_outcome (fst (m s)) undefined, snd (m s))"
  by (cases "m s"; cases "fst (m s)") (auto simp: await_def)

lemma ends_well_await [ends_well_intros]:
  assumes m: "ends_well K m" and k: "\<And>a. ends_well K (k a)"
  shows "ends_well K (await m k)"
  unfolding ends_well_def
proof (intro allI impI)
  fix c r c'
  assume run: "await m k c = (r, c')"
  obtain q d where q: "m c = (q, d)" by (cases "m c")
  have mq: "iend d = iend c" "is_Ok q \<or> q = short_read (iend c) \<or> (\<exists>e. q = Err e \<and> kind e \<in> K)"
    using m q unfolding ends_well_def by blast+
  show "iend c' = iend c \<and> (is_Ok r \<or> r = short_read (iend c) \<or> (\<exists>e. r = Err e \<and> kind e \<in> K))"
  proof (cases "is_Ok q")
    case True
    then obtain a where "k a d = (r, c')"
      using run q by (auto simp: is_Ok_iff await_def)
    with k [of a] mq(1) show ?thesis
      unfolding ends_well_def by metis
  next
    case False
    then have "r = bind_outcome q undefined" "c' = d"
      using run q await_bind [of m c k] by simp_all
    with False mq show ?thesis
      by auto
  qed
qed

lemma ends_well_amap [ends_well_intros]: "ends_well K m \<Longrightarrow> ends_well K (amap f m)"
  unfolding amap_def by (intro ends_well_intros)

subsection \<open>Readers that write nothing\<close>

named_theorems keeps_intros \<open>rules for functions that leave the output alone\<close>

definition keeps_output :: "(conn, 'a) async \<Rightarrow> bool" where
  "keeps_output m \<longleftrightarrow> (\<forall>c. outp (snd (m c)) = outp c \<and> oend (snd (m c)) = oend c)"

lemma keeps_outputD: "keeps_output m \<Longrightarrow> m c = (r, c') \<Longrightarrow> outp c' = outp c \<and> oend c' = oend c"
  unfolding keeps_output_def by (metis snd_conv)

lemma keeps_pure [keeps_intros]:
  "keeps_output (return a)" "keeps_output (fail e)" "keeps_output (try_result r)" "keeps_output (eval_outcome q)"
  "keeps_output (panic p)"
  by (simp_all add: keeps_output_def try_result_def split: sum.split)

lemma keeps_read [keeps_intros]: "keeps_output (conn_read_exact n)" "keeps_output (conn_read n)"
  by (simp_all add: keeps_output_def conn_read_exact_def conn_read_def Let_def)

lemma keeps_await [keeps_intros]:
  "keeps_output m \<Longrightarrow> (\<And>a. keeps_output (k a)) \<Longrightarrow> keeps_output (await m k)"
  by (auto simp: keeps_output_def await_def split: prod.split outcome.split) (metis snd_conv)+

lemma keeps_amap [keeps_intros]: "keeps_output m \<Longrightarrow> keeps_output (amap f m)"
  unfolding amap_def by (intro keeps_intros)

lemma keeps_if [keeps_intros]: "keeps_output m \<Longrightarrow> keeps_output n \<Longrightarrow> keeps_output (if b then m else n)"
  by simp

subsection \<open>Sequences of writes\<close>

text \<open>
  \<open>writes m bs\<close>: \<open>m\<close> sends exactly \<open>bs\<close>, or, when the peer stops accepting, the
  part of \<open>bs\<close> it still took, and then it does not return \<^verbatim>\<open>Ok\<close>.
\<close>

named_theorems writes_intros \<open>rules for sequences of writes\<close>

definition writes :: "(conn, unit) async \<Rightarrow> bytes \<Rightarrow> bool" where
  "writes m bs \<longleftrightarrow> (\<forall>c r c'. m c = (r, c') \<longrightarrow>
     outp c' = outp c @ room (oend c) bs \<and> inp c' = inp c \<and> iend c' = iend c \<and> isizes c' = isizes c \<and>
     (oend c = Accepting \<longrightarrow> r = Ok () \<and> oend c' = Accepting) \<and>
     (if is_Ok r then \<forall>cs. room (oend c) (bs @ cs) = bs @ room (oend c') cs
      else \<forall>cs. room (oend c) (bs @ cs) = room (oend c) bs))"

lemma writesD:
  assumes "writes m bs" and "m c = (r, c')"
  shows "outp c' = outp c @ room (oend c) bs" "inp c' = inp c" "iend c' = iend c" "isizes c' = isizes c"
    "oend c = Accepting \<Longrightarrow> r = Ok () \<and> oend c' = Accepting"
    "is_Ok r \<Longrightarrow> room (oend c) (bs @ cs) = bs @ room (oend c') cs"
    "\<not> is_Ok r \<Longrightarrow> room (oend c) (bs @ cs) = room (oend c) bs"
  using assms unfolding writes_def by (auto split: if_splits)

lemma room_Nil [simp]: "room w [] = []"
  by (cases w) auto

lemma room_prefix: "prefix (room w bs) bs"
  by (cases w) (auto simp: take_is_prefix)

lemma writes_all [writes_intros]: "writes (conn_write_all bs) bs"
  unfolding writes_def
proof (intro allI impI)
  fix c r c'
  assume "conn_write_all bs c = (r, c')"
  then show "outp c' = outp c @ room (oend c) bs \<and> inp c' = inp c \<and> iend c' = iend c \<and>
      isizes c' = isizes c \<and> (oend c = Accepting \<longrightarrow> r = Ok () \<and> oend c' = Accepting) \<and>
      (if is_Ok r then \<forall>cs. room (oend c) (bs @ cs) = bs @ room (oend c') cs
       else \<forall>cs. room (oend c) (bs @ cs) = room (oend c) bs)"
    by (cases "oend c") (auto simp: conn_write_all_def split: if_splits)
qed

lemma writes_flush [writes_intros]: "writes conn_flush []"
  unfolding writes_def
proof (intro allI impI)
  fix c r c'
  assume run: "conn_flush c = (r, c')"
  show "outp c' = outp c @ room (oend c) [] \<and> inp c' = inp c \<and> iend c' = iend c \<and>
      isizes c' = isizes c \<and> (oend c = Accepting \<longrightarrow> r = Ok () \<and> oend c' = Accepting) \<and>
      (if is_Ok r then \<forall>cs. room (oend c) ([] @ cs) = [] @ room (oend c') cs
       else \<forall>cs. room (oend c) ([] @ cs) = room (oend c) [])"
  proof (cases "oend c")
    case (WBreaks k e)
    with run show ?thesis by (cases k) (auto simp: conn_flush_def)
  next
    case (WStalls k)
    with run show ?thesis by (cases k) (auto simp: conn_flush_def)
  qed (use run in \<open>auto simp: conn_flush_def\<close>)
qed

lemma writes_return [writes_intros]: "writes (return ()) []"
  unfolding writes_def by simp

lemma writes_await:
  assumes m: "writes m bs" and n: "writes n cs"
  shows "writes (await m (\<lambda>_. n)) (bs @ cs)"
  unfolding writes_def
proof (intro allI impI)
  fix c r c'
  assume run: "await m (\<lambda>_. n) c = (r, c')"
  obtain q d where q: "m c = (q, d)" by (cases "m c")
  note md = writesD [OF m q]
  show "outp c' = outp c @ room (oend c) (bs @ cs) \<and> inp c' = inp c \<and> iend c' = iend c \<and>
      isizes c' = isizes c \<and> (oend c = Accepting \<longrightarrow> r = Ok () \<and> oend c' = Accepting) \<and>
      (if is_Ok r then \<forall>ds. room (oend c) ((bs @ cs) @ ds) = (bs @ cs) @ room (oend c') ds
       else \<forall>ds. room (oend c) ((bs @ cs) @ ds) = room (oend c) (bs @ cs))"
  proof (cases "is_Ok q")
    case True
    then have "n d = (r, c')"
      using run q by (auto simp: await_def is_Ok_iff)
    note nd = writesD [OF n this]
    have "outp d = outp c @ bs"
      using md(1) md(6) [OF True, of "[]"] by simp
    moreover have "r = Ok () \<and> oend c' = Accepting" if "oend c = Accepting"
      using nd(5) md(5) [OF that] by simp
    ultimately show ?thesis
      using nd(1-4,6,7) md(2-4) md(6) [OF True] by simp
  next
    case False
    then have "c' = d" "\<not> is_Ok r"
      using run q by (cases q; auto simp: await_def)+
    moreover have "oend c \<noteq> Accepting"
      using md(5) False by auto
    ultimately show ?thesis
      using md md(7) [OF False] by simp
  qed
qed

lemma writes_await_return [writes_intros]: "writes m bs \<Longrightarrow> writes (await m (\<lambda>_. return ())) bs"
  using writes_await [OF _ writes_return] by simp

lemma writes_Ok:
  assumes "writes m bs" and "oend c = Accepting"
  shows "m c = (Ok (), c\<lparr>outp := outp c @ bs\<rparr>)"
proof -
  obtain r c' where run: "m c = (r, c')" by (cases "m c")
  show ?thesis
    using writesD(1-5) [OF assms(1) run] assms(2) run by (cases c; cases c') auto
qed

section \<open>Contracts of readers and writers\<close>

locale exact_reader =
  fixes R :: "'s reader" and R0 :: "'t reader"
    and invar :: "'s \<Rightarrow> bool" and view :: "'s \<Rightarrow> 't" and obs :: "'t \<Rightarrow> 'o"
  assumes sim_read_exact [sim_intros]: "\<And>n. simulates invar view obs (read_exact R n) (read_exact R0 n)"
    and sim_read_u8 [sim_intros]: "simulates invar view obs (read_u8 R) (read_u8 R0)"
    and sim_read_u16 [sim_intros]: "simulates invar view obs (read_u16 R) (read_u16 R0)"
    and sim_read_u32 [sim_intros]: "simulates invar view obs (read_u32 R) (read_u32 R0)"
    and sim_read_u128 [sim_intros]: "simulates invar view obs (read_u128 R) (read_u128 R0)"

locale chunk_reader = exact_reader +
  assumes sim_read [sim_intros]: "\<And>n. simulates invar view obs (read R n) (read R0 n)"
    and sim_read_buf [sim_intros]: "\<And>n. simulates invar view obs (read_buf R n) (read_buf R0 n)"

locale byte_writer =
  fixes W :: "'s writer" and W0 :: "'t writer"
    and invar :: "'s \<Rightarrow> bool" and view :: "'s \<Rightarrow> 't" and obs :: "'t \<Rightarrow> 'o"
  assumes sim_write_all [sim_intros]: "\<And>bs. simulates invar view obs (write_all W bs) (write_all W0 bs)"
    and sim_write_u8 [sim_intros]: "\<And>b. simulates invar view obs (write_u8 W b) (write_u8 W0 b)"
    and sim_write_u16 [sim_intros]: "\<And>w. simulates invar view obs (write_u16 W w) (write_u16 W0 w)"
    and sim_flush [sim_intros]: "simulates invar view obs (flush W) (flush W0)"

locale byte_stream = chunk_reader R R0 invar view obs + byte_writer W W0 invar view obs
  for R :: "'s reader" and R0 :: "'t reader" and W :: "'s writer" and W0 :: "'t writer"
    and invar :: "'s \<Rightarrow> bool" and view :: "'s \<Rightarrow> 't" and obs :: "'t \<Rightarrow> 'o"

text \<open>Every stream refines itself; the abstract connection is the specification.\<close>

lemma simulates_refl: "simulates (\<lambda>_. True) (\<lambda>s. s) obs m m"
  by (auto intro: simulatesI)

interpretation conn_stream: byte_stream conn_reader conn_reader conn_writer conn_writer
  "\<lambda>_. True" "\<lambda>c. c" outp
  by unfold_locales (rule simulates_refl)+

end
