(* ===== verification/Fmt.thy ===== *)
theory Fmt
  imports Common
begin

text \<open>
  The parts of \<^verbatim>\<open>std::fmt\<close>, \<^verbatim>\<open>std::net\<close> and \<^verbatim>\<open>std::string\<close> that the source uses to
  print and parse: numbers, IP and socket addresses, and lossy decoding of UTF-8; and the
  \<^verbatim>\<open>Display\<close> instances of the repository built on them. The lemmas show that an IPv4 socket
  address that was printed is parsed back, and that lossy decoding yields valid UTF-8.
\<close>

section \<open>Numbers\<close>

definition digit_char :: "nat \<Rightarrow> char" where
  "digit_char d = char_of (if d < 10 then 48 + d else 87 + d)"

fun radix_str :: "nat \<Rightarrow> nat \<Rightarrow> string" where
  "radix_str r n =
     (if n < r \<or> r < 2 then [digit_char n] else radix_str r (n div r) @ [digit_char (n mod r)])"

declare radix_str.simps [simp del]

abbreviation dec :: "nat \<Rightarrow> string" where
  "dec \<equiv> radix_str 10"

text \<open>\<^verbatim>\<open>format!("{:02x}", b)\<close> for a byte.\<close>

definition hex2 :: "u8 \<Rightarrow> string" where
  "hex2 b = [digit_char (unat b div 16), digit_char (unat b mod 16)]"

section \<open>Addresses\<close>

definition segments :: "u128 \<Rightarrow> u16 list" where
  "segments w = map (\<lambda>i. of_be (take 2 (drop (2 * i) (be_bytes 16 w)))) [0..<8]"

fun join :: "string \<Rightarrow> string list \<Rightarrow> string" where
  "join sep [] = []"
| "join sep [x] = x"
| "join sep (x # xs) = x @ sep @ join sep xs"

definition ipv4_fmt :: "u32 \<Rightarrow> string" where
  "ipv4_fmt w = join ''.'' (map (\<lambda>b. dec (unat b)) (be_bytes 4 w))"

text \<open>
  The longest run of zero segments, the first of that length: \<open>(start, len)\<close>. The recursion
  carries the current run and the longest so far.
\<close>

fun zero_run :: "nat \<Rightarrow> nat \<times> nat \<Rightarrow> nat \<times> nat \<Rightarrow> u16 list \<Rightarrow> nat \<times> nat" where
  "zero_run i current longest [] = longest"
| "zero_run i (cs, cl) (ls, ll) (seg # segs) =
     (if seg = 0 then
        let current = (if cl = 0 then i else cs, Suc cl) in
        zero_run (Suc i) current (if ll < snd current then current else (ls, ll)) segs
      else zero_run (Suc i) (0, 0) (ls, ll) segs)"

definition ipv6_fmt :: "u128 \<Rightarrow> string" where
  "ipv6_fmt w =
     (let segs = segments w; group = (\<lambda>seg. radix_str 16 (unat seg)) in
      if take 6 segs = [0, 0, 0, 0, 0, 0xFFFF] then ''::ffff:'' @ ipv4_fmt (ucast w)
      else let (start, len) = zero_run 0 (0, 0) (0, 0) segs in
        if 1 < len then
          join '':'' (map group (take start segs)) @ ''::'' @ join '':'' (map group (drop (start + len) segs))
        else join '':'' (map group segs))"

fun IpAddr_fmt :: "IpAddr \<Rightarrow> string" where
  "IpAddr_fmt (V4 w) = ipv4_fmt w"
| "IpAddr_fmt (V6 w) = ipv6_fmt w"

fun SocketAddr_fmt :: "SocketAddr \<Rightarrow> string" where
  "SocketAddr_fmt (SocketAddr (V4 w) p) = ipv4_fmt w @ '':'' @ dec (unat p)"
| "SocketAddr_fmt (SocketAddr (V6 w) p) = ''['' @ ipv6_fmt w @ '']:'' @ dec (unat p)"

section \<open>Lossy decoding\<close>

text \<open>
  \<^verbatim>\<open>String::from_utf8_lossy\<close> replaces every maximal ill-formed part by U+FFFD. The second byte
  of a sequence decides whether the parts after the first are consumed with it.
\<close>

definition replacement :: bytes where
  "replacement = [0xEF, 0xBF, 0xBD]"

definition second_ok :: "u8 \<Rightarrow> u8 \<Rightarrow> bool" where
  "second_ok b c \<longleftrightarrow>
     (if b = 0xE0 then in_range 0xA0 0xBF c
      else if b = 0xED then in_range 0x80 0x9F c
      else if b = 0xF0 then in_range 0x90 0xBF c
      else if b = 0xF4 then in_range 0x80 0x8F c
      else cont_byte c)"

fun utf8_lossy :: "bytes \<Rightarrow> bytes" where
  "utf8_lossy [] = []"
| "utf8_lossy (b # bs) =
     (if in_range 0 0x7F b then b # utf8_lossy bs
      else case bs of
        [] \<Rightarrow> replacement
      | c1 # bs1 \<Rightarrow>
          if in_range 0xC2 0xDF b \<and> cont_byte c1 then b # c1 # utf8_lossy bs1
          else if in_range 0xE0 0xF4 b \<and> second_ok b c1 then
            (case bs1 of
               [] \<Rightarrow> replacement
             | c2 # bs2 \<Rightarrow>
                 if \<not> cont_byte c2 then replacement @ utf8_lossy bs1
                 else if in_range 0xE0 0xEF b then b # c1 # c2 # utf8_lossy bs2
                 else (case bs2 of
                     [] \<Rightarrow> replacement
                   | c3 # bs3 \<Rightarrow>
                       if \<not> cont_byte c3 then replacement @ utf8_lossy bs2
                       else b # c1 # c2 # c3 # utf8_lossy bs3))
          else replacement @ utf8_lossy bs)"

section \<open>Display instances\<close>

definition DomainName_fmt :: "DomainName \<Rightarrow> string" where
  "DomainName_fmt d = str_of_bytes (utf8_lossy (inner d))"

fun IpAddress_fmt :: "IpAddress \<Rightarrow> string" where
  "IpAddress_fmt (IpAddr (V4 a)) = IpAddr_fmt (V4 a)"
| "IpAddress_fmt (IpAddr (V6 a)) = IpAddr_fmt (V6 a)"
| "IpAddress_fmt (Domain domain) = DomainName_fmt domain"

section \<open>Parsing of socket addresses\<close>

text \<open>
  The parser behind \<^verbatim>\<open>str::parse::<SocketAddr>\<close>. A parser returns the value and the rest of
  the text, or \<open>None\<close> without having consumed anything. The scope id of an IPv6 socket address
  is read and dropped; the model's socket addresses have none.
\<close>

type_synonym 'a parser = "string \<Rightarrow> ('a \<times> string) option"

definition to_digit :: "nat \<Rightarrow> char \<Rightarrow> nat option" where
  "to_digit r c =
     (let n = of_char c;
          d = (if 48 \<le> n \<and> n \<le> 57 then n - 48
               else if 97 \<le> n \<and> n \<le> 122 then n - 87
               else if 65 \<le> n \<and> n \<le> 90 then n - 55
               else 255) in
      if d < r then Some d else None)"

fun read_digits :: "nat \<Rightarrow> nat \<Rightarrow> nat option \<Rightarrow> nat \<Rightarrow> nat \<Rightarrow> string \<Rightarrow> (nat \<times> nat \<times> string) option" where
  "read_digits r mx md acc n [] = Some (acc, n, [])"
| "read_digits r mx md acc n (c # cs) =
     (case to_digit r c of
        None \<Rightarrow> Some (acc, n, c # cs)
      | Some d \<Rightarrow>
          if mx < acc * r + d \<or> (case md of None \<Rightarrow> False | Some m \<Rightarrow> m < Suc n) then None
          else read_digits r mx md (acc * r + d) (Suc n) cs)"

definition read_number :: "nat \<Rightarrow> nat \<Rightarrow> nat option \<Rightarrow> bool \<Rightarrow> nat parser" where
  "read_number r mx md allow_zero_prefix s =
     (case read_digits r mx md 0 0 s of
        None \<Rightarrow> None
      | Some (v, n, rest) \<Rightarrow>
          if n = 0 then None
          else if \<not> allow_zero_prefix \<and> hd s = CHR ''0'' \<and> 1 < n then None
          else Some (v, rest))"

fun read_given_char :: "char \<Rightarrow> unit parser" where
  "read_given_char c [] = None"
| "read_given_char c (d # ds) = (if d = c then Some ((), ds) else None)"

definition read_separator :: "char \<Rightarrow> nat \<Rightarrow> 'a parser \<Rightarrow> 'a parser" where
  "read_separator sep i p s =
     (if 0 < i then (case read_given_char sep s of None \<Rightarrow> None | Some (_, s') \<Rightarrow> p s') else p s)"

fun read_octets :: "nat \<Rightarrow> nat \<Rightarrow> nat list parser" where
  "read_octets 0 i s = Some ([], s)"
| "read_octets (Suc k) i s =
     (case read_separator (CHR ''.'') i (read_number 10 255 (Some 3) False) s of
        None \<Rightarrow> None
      | Some (v, s') \<Rightarrow>
          (case read_octets k (Suc i) s' of None \<Rightarrow> None | Some (vs, s'') \<Rightarrow> Some (v # vs, s'')))"

definition read_ipv4_addr :: "u32 parser" where
  "read_ipv4_addr s = map_option (\<lambda>(vs, s'). (of_be (map of_nat vs), s')) (read_octets 4 0 s)"

function read_groups :: "nat \<Rightarrow> nat \<Rightarrow> string \<Rightarrow> u16 list \<times> bool \<times> string" where
  "read_groups limit i s =
     (if limit \<le> i then ([], False, s)
      else case (if i < limit - 1 then read_separator (CHR '':'') i read_ipv4_addr s else None) of
        Some (w, s') \<Rightarrow> ([of_be (take 2 (be_bytes 4 w)), of_be (drop 2 (be_bytes 4 w))], True, s')
      | None \<Rightarrow>
          (case read_separator (CHR '':'') i (read_number 16 65535 (Some 4) True) s of
             None \<Rightarrow> ([], False, s)
           | Some (g, s') \<Rightarrow>
               (case read_groups limit (Suc i) s' of (gs, v4, s'') \<Rightarrow> (of_nat g # gs, v4, s''))))"
  by pat_completeness auto

termination read_groups
  by (relation "measure (\<lambda>(limit, i, s). limit - i)") auto

declare read_groups.simps [simp del]

definition of_segments :: "u16 list \<Rightarrow> u128" where
  "of_segments segs = of_be (concat (map (be_bytes 2) segs))"

definition read_ipv6_addr :: "u128 parser" where
  "read_ipv6_addr s =
     (case read_groups 8 0 s of
        (hd_groups, hd_ipv4, s1) \<Rightarrow>
          if length hd_groups = 8 then Some (of_segments hd_groups, s1)
          else if hd_ipv4 then None
          else (case read_given_char (CHR '':'') s1 of
              None \<Rightarrow> None
            | Some (_, s2) \<Rightarrow>
                (case read_given_char (CHR '':'') s2 of
                   None \<Rightarrow> None
                 | Some (_, s3) \<Rightarrow>
                     (case read_groups (8 - (length hd_groups + 1)) 0 s3 of
                        (tl_groups, _, s4) \<Rightarrow>
                          Some (of_segments (hd_groups @
                            replicate (8 - length hd_groups - length tl_groups) 0 @ tl_groups), s4)))))"

definition read_port :: "u16 parser" where
  "read_port s =
     (case read_given_char (CHR '':'') s of
        None \<Rightarrow> None
      | Some (_, s') \<Rightarrow> map_option (\<lambda>(v, r). (of_nat v, r)) (read_number 10 65535 None True s'))"

definition read_scope_id :: "nat parser" where
  "read_scope_id s =
     (case read_given_char (CHR ''%'') s of
        None \<Rightarrow> None
      | Some (_, s') \<Rightarrow> read_number 10 4294967295 None True s')"

definition read_socket_addr_v4 :: "SocketAddr parser" where
  "read_socket_addr_v4 s =
     (case read_ipv4_addr s of
        None \<Rightarrow> None
      | Some (w, s') \<Rightarrow> map_option (\<lambda>(p, r). (SocketAddr (V4 w) p, r)) (read_port s'))"

definition read_socket_addr_v6 :: "SocketAddr parser" where
  "read_socket_addr_v6 s =
     (case read_given_char (CHR ''['') s of
        None \<Rightarrow> None
      | Some (_, s1) \<Rightarrow>
          (case read_ipv6_addr s1 of
             None \<Rightarrow> None
           | Some (w, s2) \<Rightarrow>
               let s3 = (case read_scope_id s2 of None \<Rightarrow> s2 | Some (_, r) \<Rightarrow> r) in
               (case read_given_char (CHR '']'') s3 of
                  None \<Rightarrow> None
                | Some (_, s4) \<Rightarrow> map_option (\<lambda>(p, r). (SocketAddr (V6 w) p, r)) (read_port s4))))"

definition parse_SocketAddr :: "string \<Rightarrow> SocketAddr option" where
  "parse_SocketAddr s =
     (case (case read_socket_addr_v4 s of None \<Rightarrow> read_socket_addr_v6 s | r \<Rightarrow> r) of
        Some (a, []) \<Rightarrow> Some a
      | _ \<Rightarrow> None)"

section \<open>Printing and parsing numbers\<close>

lemma to_digit_char:
  assumes "d < r" and "r \<le> 16"
  shows "to_digit r (digit_char d) = Some d"
proof -
  have "of_char (char_of (if d < 10 then 48 + d else 87 + d) :: char) = (if d < 10 then 48 + d else 87 + d)"
    using assms by simp
  then show ?thesis
    using assms by (auto simp: to_digit_def digit_char_def Let_def)
qed

lemma digit_char_0: "digit_char 0 = CHR ''0''"
  by code_simp

text \<open>The text after a number does not continue it.\<close>

definition stops :: "nat \<Rightarrow> string \<Rightarrow> bool" where
  "stops r rest \<longleftrightarrow> rest = [] \<or> to_digit r (hd rest) = None"

lemma read_digits_stop: "stops r rest \<Longrightarrow> read_digits r mx md acc n rest = Some (acc, n, rest)"
  by (cases rest) (simp_all add: stops_def)

lemma radix_str_not_Nil [simp]: "radix_str r n \<noteq> []"
  by (subst radix_str.simps) simp

lemma read_digits_app:
  assumes "2 \<le> r" and "r \<le> 16" and "acc * r ^ length (radix_str r v) + v \<le> mx"
    and "case md of None \<Rightarrow> True | Some m \<Rightarrow> n + length (radix_str r v) \<le> m"
  shows "read_digits r mx md acc n (radix_str r v @ rest) =
    read_digits r mx md (acc * r ^ length (radix_str r v) + v) (n + length (radix_str r v)) rest"
  using assms
proof (induction r v arbitrary: rest rule: radix_str.induct)
  case (1 r v)
  show ?case
  proof (cases "v < r")
    case True
    then have "radix_str r v = [digit_char v]"
      by (simp add: radix_str.simps)
    then show ?thesis
      using 1 True by (simp add: to_digit_char split: option.splits)
  next
    case False
    let ?k = "length (radix_str r (v div r))"
    have str: "radix_str r v = radix_str r (v div r) @ [digit_char (v mod r)]"
      using False 1(2) by (subst radix_str.simps) simp
    have mono: "acc * r ^ ?k + v div r \<le> acc * r ^ Suc ?k + v"
      using 1(2) by (intro add_mono) auto
    have "read_digits r mx md acc n (radix_str r (v div r) @ digit_char (v mod r) # rest) =
        read_digits r mx md (acc * r ^ ?k + v div r) (n + ?k) (digit_char (v mod r) # rest)"
      using False 1(2-5) str mono by (intro 1(1)) (auto split: option.splits)
    moreover have "(acc * r ^ ?k + v div r) * r + v mod r = acc * r ^ Suc ?k + v"
      by (simp add: algebra_simps)
    moreover have "to_digit r (digit_char (v mod r)) = Some (v mod r)"
      using 1(2,3) by (intro to_digit_char) auto
    ultimately show ?thesis
      using 1(4,5) str by (auto split: option.splits)
  qed
qed

lemma hd_radix_str: "2 \<le> r \<Longrightarrow> r \<le> 16 \<Longrightarrow> hd (radix_str r v) = CHR ''0'' \<longleftrightarrow> v = 0"
proof (induction r v rule: radix_str.induct)
  case (1 r v)
  show ?case
  proof (cases "v < r")
    case True
    then have "radix_str r v = [digit_char v]"
      by (simp add: radix_str.simps)
    moreover have "digit_char v = CHR ''0'' \<longleftrightarrow> v = 0"
      using True 1(2,3) to_digit_char [of v r] to_digit_char [of 0 r] digit_char_0 by auto
    ultimately show ?thesis by simp
  next
    case False
    then have "radix_str r v = radix_str r (v div r) @ [digit_char (v mod r)]"
      using 1(2) by (subst radix_str.simps) simp
    then show ?thesis
      using 1 False by (simp add: div_eq_0_iff)
  qed
qed

lemma read_number_app:
  assumes "2 \<le> r" and "r \<le> 16" and "v \<le> mx"
    and "case md of None \<Rightarrow> True | Some m \<Rightarrow> length (radix_str r v) \<le> m" and "stops r rest"
  shows "read_number r mx md z (radix_str r v @ rest) = Some (v, rest)"
proof -
  have "read_digits r mx md 0 0 (radix_str r v @ rest) = Some (v, length (radix_str r v), rest)"
    using assms read_digits_app [where acc = 0 and n = 0 and r = r and v = v and mx = mx and md = md]
    by (cases md) (simp_all add: read_digits_stop)
  moreover have "hd (radix_str r v) = CHR ''0'' \<Longrightarrow> length (radix_str r v) = 1"
    using hd_radix_str [OF assms(1,2), of v] assms(1) by (simp add: radix_str.simps)
  ultimately show ?thesis
    by (auto simp: read_number_def)
qed

lemma length_radix_str: "0 < k \<Longrightarrow> v < r ^ k \<Longrightarrow> length (radix_str r v) \<le> k"
proof (induction k arbitrary: v)
  case (Suc k)
  show ?case
  proof (cases "v < r \<or> r < 2")
    case True
    then show ?thesis by (subst radix_str.simps) simp
  next
    case False
    then have str: "radix_str r v = radix_str r (v div r) @ [digit_char (v mod r)]"
      by (subst radix_str.simps) simp
    have "v div r < r ^ k"
      using Suc.prems(2) False by (simp add: less_mult_imp_div_less mult.commute)
    moreover have "0 < k"
      using Suc.prems(2) False by (cases k) auto
    ultimately show ?thesis
      using Suc.IH str by simp
  qed
qed simp

lemma stops_simps [simp]:
  "stops 10 []" "stops 10 (CHR ''.'' # s)" "stops 10 (CHR '':'' # s)" "stops 16 (CHR '':'' # s)"
  "stops 16 (CHR '']'' # s)" "stops 16 []" "stops 10 (CHR '']'' # s)"
  by (simp_all add: stops_def to_digit_def)

lemma read_octet:
  "stops 10 rest \<Longrightarrow> read_number 10 255 (Some 3) False (dec (unat (b :: u8)) @ rest) = Some (unat b, rest)"
proof (rule read_number_app)
  have "unat b \<le> 255"
    using unat_u8_less [of b] by linarith
  then show "unat b \<le> 255" "case Some 3 of None \<Rightarrow> True | Some m \<Rightarrow> length (dec (unat b)) \<le> m"
    using length_radix_str [of 3 "unat b" 10] by simp_all
qed simp_all

lemma read_octets_4: "read_octets 4 i s = read_octets (Suc (Suc (Suc (Suc 0)))) i s"
  by (rule arg_cong [where f = "\<lambda>k. read_octets k i s"]) simp

lemma read_ipv4_fmt:
  assumes "stops 10 rest"
  shows "read_ipv4_addr (ipv4_fmt w @ rest) = Some (w, rest)"
proof -
  obtain a b c d where w: "be_bytes 4 w = [a, b, c, d]"
    using length_be_bytes [of 4 w] by (auto simp: length_Suc_conv numeral_eq_Suc simp del: length_be_bytes)
  then have "of_be [a, b, c, d] = w"
    using of_be_be_bytes [of 4 w] by simp
  with w assms show ?thesis
    by (simp add: read_ipv4_addr_def ipv4_fmt_def read_octets_4 read_separator_def read_octet)
qed

lemma read_port_fmt: "stops 10 rest \<Longrightarrow> read_port (CHR '':'' # dec (unat (p :: u16)) @ rest) = Some (p, rest)"
proof -
  assume "stops 10 rest"
  moreover have "unat p \<le> 65535"
    using unsigned_less [of p, where 'a = nat] by simp
  ultimately show ?thesis
    by (simp add: read_port_def read_number_app)
qed

lemma parse_ipv4_socket: "parse_SocketAddr (ipv4_fmt w @ '':'' @ dec (unat p)) = Some (SocketAddr (V4 w) p)"
  using read_ipv4_fmt [of "CHR '':'' # dec (unat p)" w] read_port_fmt [of "[]" p]
  by (simp add: parse_SocketAddr_def read_socket_addr_v4_def)

text \<open>A text that starts with neither a digit nor a bracket, such as a host name, is no socket address.\<close>

lemma parse_SocketAddr_name:
  assumes "to_digit 10 c = None" and "c \<noteq> CHR ''[''"
  shows "parse_SocketAddr (c # cs) = None"
  using assms
  by (simp add: parse_SocketAddr_def read_socket_addr_v4_def read_socket_addr_v6_def read_ipv4_addr_def
      read_octets_4 read_separator_def read_number_def)

section \<open>Lossy decoding is valid\<close>

lemma utf8_valid_replacement [simp]:
  "utf8_valid replacement" "utf8_valid (replacement @ bs) \<longleftrightarrow> utf8_valid bs"
  by (simp_all add: replacement_def in_range_def cont_byte_def)

lemma utf8_valid_lossy: "utf8_valid (utf8_lossy bs)"
proof (induction bs rule: utf8_lossy.induct)
  case (2 b bs)
  then show ?case
    by (auto simp: in_range_def cont_byte_def second_ok_def split: list.splits)
qed simp

lemma utf8_lossy_valid: "utf8_valid bs \<Longrightarrow> utf8_lossy bs = bs"
proof (induction bs rule: utf8_valid.induct)
  case (2 b bs)
  show ?case
  proof (cases "in_range 0 0x7F b")
    case False
    then obtain c1 bs1 where bs: "bs = c1 # bs1"
      using 2(5) by (cases bs) simp_all
    show ?thesis
    proof (cases "in_range 0xC2 0xDF b")
      case False
      note nb = False \<open>\<not> in_range 0 0x7F b\<close>
      then obtain c2 bs2 where bs1: "bs1 = c2 # bs2"
        using 2(5) bs by (cases bs1) simp_all
      show ?thesis
      proof (cases "in_range 0xE0 0xEF b")
        case True
        then have "in_range 0xE0 0xF4 b" "second_ok b c1"
          using 2(5) bs bs1 nb by (auto simp: second_ok_def in_range_def)
        then show ?thesis
          using 2 True nb bs bs1 by simp
      next
        case False
        then obtain c3 bs3 where bs2: "bs2 = c3 # bs3"
          using 2(5) bs bs1 nb by (cases bs2) simp_all
        then have "in_range 0xE0 0xF4 b" "second_ok b c1"
          using 2(5) bs bs1 nb False by (auto simp: second_ok_def in_range_def)
        then show ?thesis
          using 2 False nb bs bs1 bs2 by simp
      qed
    qed (use 2 False bs in simp)
  qed (use 2 in simp)
qed simp

end
