(* ===== verification/Trojan.thy ===== *)
theory Trojan
  imports Async_Io Fmt
begin

text \<open>
  The Trojan protocol of \<^verbatim>\<open>src/protocol/trojan\<close> (\<^verbatim>\<open>base.rs\<close>, \<^verbatim>\<open>parser.rs\<close>,
  \<^verbatim>\<open>mod.rs\<close>): the request, its parser, the check of the shared secret and the header that the
  client side writes. The lemmas show that the parser accepts exactly the encodings of requests,
  that a connection is accepted only for the configured secret, and which requests survive the
  trip from \<^verbatim>\<open>handshake\<close> to \<^verbatim>\<open>parse\<close>.
\<close>

section \<open>Requests\<close>

definition HEX_SIZE :: nat where "HEX_SIZE = 56"

definition CRLF :: u16 where "CRLF = 0x0D0A"

record TrojanRequest =
  hex :: bytes
  tr_command :: Command
  tr_atype :: Atype
  tr_addr :: IpAddress
  tr_port :: u16
  tr_proxy_protocol :: SupportedProtocols

definition TrojanRequest_new ::
  "bytes \<Rightarrow> Command \<Rightarrow> Atype \<Rightarrow> IpAddress \<Rightarrow> u16 \<Rightarrow> SupportedProtocols \<Rightarrow> TrojanRequest" where
  "TrojanRequest_new h cmd at addr p pp =
     \<lparr>hex = h, tr_command = cmd, tr_atype = at, tr_addr = addr, tr_port = p, tr_proxy_protocol = pp\<rparr>"

definition trojan_into_request :: "TrojanRequest \<Rightarrow> InboundRequest" where
  "trojan_into_request self =
     (case tr_command self of
        Udp \<Rightarrow> InboundRequest_new (tr_atype self) (tr_addr self) (tr_command self) (tr_port self)
                 UDP (tr_proxy_protocol self)
      | _ \<Rightarrow> InboundRequest_new (tr_atype self) (tr_addr self) (tr_command self) (tr_port self)
                 TCP (tr_proxy_protocol self))"

definition validate :: "TrojanRequest \<Rightarrow> bytes \<Rightarrow> bool" where
  "validate self secret = (if length secret \<noteq> length (hex self) then False else secret = hex self)"

definition TrojanRequest_fmt :: "TrojanRequest \<Rightarrow> string" where
  "TrojanRequest_fmt self =
     Command_fmt (tr_command self) @ '' '' @ IpAddress_fmt (tr_addr self) @ '':'' @ dec (unat (tr_port self))"

section \<open>The parsers\<close>

definition trojan_parse :: "'s reader \<Rightarrow> ('s, TrojanRequest) async" where
  "trojan_parse stream =
     await (read_exact stream HEX_SIZE) (\<lambda>hex.
     await (read_u16 stream) (\<lambda>_.
     await (read_u8 stream) (\<lambda>b.
     await (try_result (Command_from b)) (\<lambda>command.
     await (read_u8 stream) (\<lambda>t.
     await (try_result (Atype_from t)) (\<lambda>atype.
     await (case atype of
              IPv4 \<Rightarrow> await (read_u32 stream) (\<lambda>a. return (IPV4_SIZE, from_u32 a))
            | IPv6 \<Rightarrow> await (read_u128 stream) (\<lambda>a. return (IPV6_SIZE, from_u128 a))
            | DomainName \<Rightarrow>
                await (read_u8 stream) (\<lambda>size.
                await (read_exact stream (unat size)) (\<lambda>buf.
                return (unat size, from_bytes buf)))) (\<lambda>(_, addr).
     await (read_u16 stream) (\<lambda>port.
     await (read_u16 stream) (\<lambda>_.
     return (TrojanRequest_new hex command atype addr port TROJAN))))))))))"

record TrojanUdpPacketHeader =
  udp_atype :: Atype
  dest :: SocketAddr
  payload_size :: nat

definition parse_udp :: "resolver \<Rightarrow> 's reader \<Rightarrow> ('s, TrojanUdpPacketHeader) async" where
  "parse_udp to_socket_addrs reader =
     await (read_u8 reader) (\<lambda>t.
     await (try_result (Atype_from t)) (\<lambda>atype.
     await (case atype of
              IPv4 \<Rightarrow> await (read_u32 reader) (\<lambda>a. return (from_u32 a))
            | IPv6 \<Rightarrow> await (read_u128 reader) (\<lambda>a. return (from_u128 a))
            | DomainName \<Rightarrow>
                await (read_u8 reader) (\<lambda>size.
                await (read_exact reader (unat size)) (\<lambda>buf.
                return (from_bytes buf)))) (\<lambda>addr.
     await (read_u16 reader) (\<lambda>port.
     await (read_u16 reader) (\<lambda>len.
     await (read_u16 reader) (\<lambda>_.
     await (eval_outcome (into_SocketAddr to_socket_addrs (IpAddrPort_new addr port))) (\<lambda>dst.
     return \<lparr>udp_atype = atype, dest = dst, payload_size = unat len\<rparr>)))))))"

section \<open>Accepting and connecting\<close>

definition trojan_accept :: "'s reader \<Rightarrow> bytes \<Rightarrow> ('s, InboundRequest) async" where
  "trojan_accept stream secret =
     await (trojan_parse stream) (\<lambda>request.
     if \<not> validate request secret
     then fail (Error InvalidInput ''Received invalid hex value'')
     else return (trojan_into_request request))"

definition handshake :: "'s writer \<Rightarrow> InboundRequest \<Rightarrow> bytes \<Rightarrow> ('s, unit) async" where
  "handshake stream request secret =
     await (write_all stream secret) (\<lambda>_.
     await (write_u16 stream CRLF) (\<lambda>_.
     await (write_u8 stream (command_u8 (command request))) (\<lambda>_.
     await (write_u8 stream (atype_u8 (atype request))) (\<lambda>_.
     await (case ip (addr_port request) of
              IpAddr (V4 ipv4) \<Rightarrow> write_all stream (octets (V4 ipv4))
            | IpAddr (V6 ipv6) \<Rightarrow> write_all stream (octets (V6 ipv6))
            | Domain domain \<Rightarrow> write_all stream (as_bytes domain)) (\<lambda>_.
     await (write_u16 stream (port (addr_port request))) (\<lambda>_.
     await (write_u16 stream CRLF) (\<lambda>_.
     await (flush stream) (\<lambda>_. return ()))))))))"

section \<open>The wire format\<close>

text \<open>
  The address field as the parsers read it, and the request header around it. The two separators
  are arguments: the parser does not look at their values.
\<close>

fun addr_field :: "IpAddress \<Rightarrow> bytes" where
  "addr_field (IpAddr a) = octets a"
| "addr_field (Domain d) = of_nat (length (inner d)) # inner d"

definition trojan_header :: "u16 \<Rightarrow> u16 \<Rightarrow> TrojanRequest \<Rightarrow> bytes" where
  "trojan_header sep1 sep2 r =
     hex r @ be_bytes 2 sep1 @ [command_u8 (tr_command r), atype_u8 (tr_atype r)] @
     addr_field (tr_addr r) @ be_bytes 2 (tr_port r) @ be_bytes 2 sep2"

definition wf_trojan :: "TrojanRequest \<Rightarrow> bool" where
  "wf_trojan r \<longleftrightarrow> length (hex r) = HEX_SIZE \<and> wf_addr (tr_atype r) (tr_addr r) \<and>
     tr_proxy_protocol r = TROJAN"

definition udp_header :: "u16 \<Rightarrow> Atype \<Rightarrow> IpAddress \<Rightarrow> u16 \<Rightarrow> u16 \<Rightarrow> bytes" where
  "udp_header sep at addr p len =
     atype_u8 at # addr_field addr @ be_bytes 2 p @ be_bytes 2 len @ be_bytes 2 sep"

section \<open>Simulation: the parsers on any byte stream\<close>

context exact_reader
begin

lemma sim_trojan_parse [sim_intros]:
  "simulates invar view obs (trojan_parse R) (trojan_parse R0)"
  unfolding trojan_parse_def
  by (intro sim_intros) (auto intro!: sim_intros split: Atype.split)

lemma sim_parse_udp [sim_intros]:
  "simulates invar view obs (parse_udp dns R) (parse_udp dns R0)"
  unfolding parse_udp_def
  by (intro sim_intros) (auto intro!: sim_intros split: Atype.split)

lemma sim_trojan_accept [sim_intros]:
  "simulates invar view obs (trojan_accept R secret) (trojan_accept R0 secret)"
  unfolding trojan_accept_def
  by (intro sim_intros)

end

context byte_writer
begin

lemma sim_handshake [sim_intros]:
  "simulates invar view obs (handshake W request secret) (handshake W0 request secret)"
  unfolding handshake_def
  by (intro sim_intros) (auto intro!: sim_intros split: IpAddress.split IpAddr.split)

end

section \<open>Lemmas on the abstract stream\<close>

subsection \<open>The address field\<close>

lemma conn_addr_sized_Ok:
  "(case at of
      IPv4 \<Rightarrow> await (read_u32 conn_reader) (\<lambda>a. return (IPV4_SIZE, from_u32 a))
    | IPv6 \<Rightarrow> await (read_u128 conn_reader) (\<lambda>a. return (IPV6_SIZE, from_u128 a))
    | DomainName \<Rightarrow>
        await (read_u8 conn_reader) (\<lambda>size.
        await (read_exact conn_reader (unat size)) (\<lambda>buf.
        return (unat size, from_bytes buf)))) c = (Ok (n, a), c') \<longleftrightarrow>
   (\<exists>rest. wf_addr at a \<and> n = IpAddress_len a \<and> inp c = addr_field a @ rest \<and> c' = c\<lparr>inp := rest\<rparr>)"
proof (cases at)
  case IPv4
  show ?thesis
    by (cases "(IPv4, a)" rule: wf_addr.cases)
      (auto simp: IPv4 await_Ok_iff conn_read_Ok from_u32_def)
next
  case IPv6
  show ?thesis
    by (cases "(IPv6, a)" rule: wf_addr.cases)
      (auto simp: IPv6 await_Ok_iff conn_read_Ok from_u128_def)
next
  case DomainName
  show ?thesis
  proof (cases a)
    case (Domain d)
    then show ?thesis
      by (cases d) (fastforce simp: DomainName await_Ok_iff conn_read_Ok from_bytes_def)
  qed (auto simp: DomainName await_Ok_iff conn_read_Ok from_bytes_def)
qed

lemma conn_addr_sized_app:
  "wf_addr at a \<Longrightarrow>
   (case at of
      IPv4 \<Rightarrow> await (read_u32 conn_reader) (\<lambda>a. return (IPV4_SIZE, from_u32 a))
    | IPv6 \<Rightarrow> await (read_u128 conn_reader) (\<lambda>a. return (IPV6_SIZE, from_u128 a))
    | DomainName \<Rightarrow>
        await (read_u8 conn_reader) (\<lambda>size.
        await (read_exact conn_reader (unat size)) (\<lambda>buf.
        return (unat size, from_bytes buf)))) (c\<lparr>inp := addr_field a @ rest\<rparr>) =
   (Ok (IpAddress_len a, a), c\<lparr>inp := rest\<rparr>)"
  by (simp add: conn_addr_sized_Ok)

lemma conn_addr_app:
  assumes "wf_addr at a"
  shows "(case at of
      IPv4 \<Rightarrow> await (read_u32 conn_reader) (\<lambda>a. return (from_u32 a))
    | IPv6 \<Rightarrow> await (read_u128 conn_reader) (\<lambda>a. return (from_u128 a))
    | DomainName \<Rightarrow>
        await (read_u8 conn_reader) (\<lambda>size.
        await (read_exact conn_reader (unat size)) (\<lambda>buf.
        return (from_bytes buf)))) (c\<lparr>inp := addr_field a @ rest\<rparr>) =
   (Ok a, c\<lparr>inp := rest\<rparr>)"
  using assms
proof (cases rule: wf_addr_cases)
  case (3 d)
  then show ?thesis
    by (cases d) (simp add: await_def from_bytes_def)
qed (auto simp: await_Ok_iff conn_read_Ok from_u32_def from_u128_def)

subsection \<open>The request header\<close>

lemma trojan_parse_header:
  assumes "wf_trojan r"
  shows "trojan_parse conn_reader (c\<lparr>inp := trojan_header sep1 sep2 r @ rest\<rparr>) = (Ok r, c\<lparr>inp := rest\<rparr>)"
  using assms
  by (cases r) (simp add: trojan_parse_def trojan_header_def wf_trojan_def await_def
      conn_addr_sized_app TrojanRequest_new_def)

lemma trojan_parse_Ok:
  "trojan_parse conn_reader c = (Ok r, c') \<longleftrightarrow>
     (\<exists>sep1 sep2 rest. wf_trojan r \<and> inp c = trojan_header sep1 sep2 r @ rest \<and> c' = c\<lparr>inp := rest\<rparr>)"
proof
  assume "trojan_parse conn_reader c = (Ok r, c')"
  then show "\<exists>sep1 sep2 rest. wf_trojan r \<and> inp c = trojan_header sep1 sep2 r @ rest \<and>
      c' = c\<lparr>inp := rest\<rparr>"
    by (cases r) (auto simp: trojan_parse_def Ok_iffs conn_read_Ok conn_addr_sized_Ok
        Command_from_Inr Atype_from_Inr trojan_header_def wf_trojan_def TrojanRequest_new_def)
next
  assume "\<exists>sep1 sep2 rest. wf_trojan r \<and> inp c = trojan_header sep1 sep2 r @ rest \<and>
      c' = c\<lparr>inp := rest\<rparr>"
  then show "trojan_parse conn_reader c = (Ok r, c')"
    by (metis trojan_parse_header conn_inp_update)
qed

lemma framed_trojan_parse [framed_intros]: "framed (trojan_parse conn_reader)"
  unfolding trojan_parse_def
  by (intro framed_intros) (auto intro!: framed_intros split: Atype.split prod.split)

lemma consumes_trojan_header: "wf_trojan r \<Longrightarrow> consumes (trojan_parse conn_reader) (trojan_header sep1 sep2 r) r"
  by (intro framed_consumes framed_intros trojan_parse_header)

lemma length_trojan_header:
  "wf_trojan r \<Longrightarrow> length (trojan_header sep1 sep2 r) \<le> HEX_SIZE + 264"
  by (auto simp: trojan_header_def wf_trojan_def elim!: wf_addr_cases)

lemma trojan_header_hex: "wf_trojan r \<Longrightarrow> take HEX_SIZE (trojan_header sep1 sep2 r @ rest) = hex r"
  by (simp add: trojan_header_def wf_trojan_def)

subsection \<open>The UDP packet header\<close>

lemma parse_udp_header:
  assumes "wf_addr at a"
  shows "parse_udp dns conn_reader (c\<lparr>inp := udp_header sep at a p len @ rest\<rparr>) =
    (bind_outcome (into_SocketAddr dns (IpAddrPort_new a p))
       (\<lambda>d. Ok \<lparr>udp_atype = at, dest = d, payload_size = unat len\<rparr>), c\<lparr>inp := rest\<rparr>)"
  using assms
  by (cases "into_SocketAddr dns (IpAddrPort_new a p)")
    (simp_all add: parse_udp_def udp_header_def await_def conn_addr_app)

lemma framed_parse_udp [framed_intros]: "framed (parse_udp dns conn_reader)"
  unfolding parse_udp_def
  by (intro framed_intros) (auto intro!: framed_intros split: Atype.split)

subsection \<open>Accepting\<close>

lemma validate_iff: "validate r secret \<longleftrightarrow> hex r = secret"
  by (auto simp: validate_def)

lemma trojan_into_request_eq:
  "trojan_into_request r = InboundRequest_new (tr_atype r) (tr_addr r) (tr_command r) (tr_port r)
     (transport_of (tr_command r)) (tr_proxy_protocol r)"
  by (cases "tr_command r") (simp_all add: trojan_into_request_def transport_of_def)

lemma wf_trojan_into_request: "wf_trojan r \<Longrightarrow> wf_request (trojan_into_request r)"
  by (simp add: trojan_into_request_eq wf_request_def wf_trojan_def InboundRequest_new_def
      IpAddrPort_new_def)

lemma trojan_accept_Ok:
  "trojan_accept conn_reader secret c = (Ok q, c') \<longleftrightarrow>
     (\<exists>r sep1 sep2 rest. wf_trojan r \<and> hex r = secret \<and> q = trojan_into_request r \<and>
        inp c = trojan_header sep1 sep2 r @ rest \<and> c' = c\<lparr>inp := rest\<rparr>)"
proof -
  have "(if \<not> validate r secret then fail e else return b) d = (Ok q, c') \<longleftrightarrow>
      hex r = secret \<and> b = q \<and> d = c'" for r b e and d :: conn
    by (auto simp: validate_iff)
  then show ?thesis
    unfolding trojan_accept_def await_Ok_iff trojan_parse_Ok by auto
qed

lemma keeps_trojan_accept: "keeps_output (trojan_accept conn_reader secret)"
  unfolding trojan_accept_def trojan_parse_def conn_reader_sel
  by (intro keeps_intros) (auto intro!: keeps_intros split: Atype.split)

subsection \<open>The handshake\<close>

fun raw_addr :: "IpAddress \<Rightarrow> bytes" where
  "raw_addr (IpAddr a) = octets a"
| "raw_addr (Domain d) = inner d"

definition handshake_bytes :: "InboundRequest \<Rightarrow> bytes \<Rightarrow> bytes" where
  "handshake_bytes q secret =
     secret @ be_bytes 2 CRLF @ [command_u8 (command q)] @ [atype_u8 (atype q)] @
     raw_addr (ip (addr_port q)) @ be_bytes 2 (port (addr_port q)) @ be_bytes 2 CRLF"

lemma writes_handshake [writes_intros]:
  "writes (handshake conn_writer q secret) (handshake_bytes q secret)"
proof -
  have addr: "writes (case ip (addr_port q) of
      IpAddr (V4 ipv4) \<Rightarrow> write_all conn_writer (octets (V4 ipv4))
    | IpAddr (V6 ipv6) \<Rightarrow> write_all conn_writer (octets (V6 ipv6))
    | Domain domain \<Rightarrow> write_all conn_writer (as_bytes domain)) (raw_addr (ip (addr_port q)))"
    by (auto intro: writes_intros simp: as_bytes_def split: IpAddress.split IpAddr.split)
  have tail: "writes (await (conn_write_all (be_bytes 2 CRLF)) (\<lambda>_. await conn_flush (\<lambda>_. return ())))
      (be_bytes 2 CRLF)"
    using writes_await [OF writes_all writes_await_return [OF writes_flush]] by simp
  show ?thesis
    unfolding handshake_def handshake_bytes_def conn_writer_sel
    by (intro writes_await writes_all addr [unfolded conn_writer_sel] tail)
qed

definition calm :: "(conn, 'a) async \<Rightarrow> bool" where
  "calm m \<longleftrightarrow> (\<forall>c p. fst (m c) \<noteq> Panic p)"

lemma calm_writes: "calm (conn_write_all bs)" "calm conn_flush" "calm (return a)"
  by (simp_all add: calm_def conn_write_all_def conn_flush_def split: wending.split nat.split)

lemma calm_await: "calm m \<Longrightarrow> (\<And>a. calm (k a)) \<Longrightarrow> calm (await m k)"
  unfolding calm_def by (simp add: await_def split: prod.split outcome.split) (metis fst_conv)

lemma handshake_no_panic: "handshake conn_writer q secret c = (r, c') \<Longrightarrow> r \<noteq> Panic p"
proof -
  have "calm (handshake conn_writer q secret)"
    unfolding handshake_def conn_writer_sel
    by (intro calm_await calm_writes) (simp add: calm_writes split: IpAddress.split IpAddr.split)
  then show "handshake conn_writer q secret c = (r, c') \<Longrightarrow> r \<noteq> Panic p"
    unfolding calm_def by (metis fst_conv)
qed

lemma trojan_parse_ends_well: "ends_well {Unsupported} (trojan_parse conn_reader)"
  unfolding trojan_parse_def
  by (intro ends_well_intros)
    (auto dest!: Command_from_Inl Atype_from_Inl intro!: ends_well_intros split: Atype.split prod.split)

lemma handshake_bytes_ip:
  assumes "ip (addr_port q) = IpAddr a" and "wf_request q" and "length secret = HEX_SIZE"
  shows "\<exists>r. wf_trojan r \<and> hex r = secret \<and> trojan_into_request r = q\<lparr>proxy_protocol := TROJAN\<rparr> \<and>
    handshake_bytes q secret = trojan_header CRLF CRLF r"
proof -
  let ?r = "TrojanRequest_new secret (command q) (atype q) (IpAddr a) (port (addr_port q)) TROJAN"
  have "wf_trojan ?r" "hex ?r = secret" "handshake_bytes q secret = trojan_header CRLF CRLF ?r"
    using assms by (simp_all add: wf_trojan_def TrojanRequest_new_def wf_request_def
        handshake_bytes_def trojan_header_def)
  moreover have "trojan_into_request ?r = q\<lparr>proxy_protocol := TROJAN\<rparr>"
    using assms by (cases q; cases "addr_port q")
      (simp add: trojan_into_request_eq TrojanRequest_new_def InboundRequest_new_def
        IpAddrPort_new_def wf_request_def)
  ultimately show ?thesis by blast
qed

text \<open>A list that equals its own shift by one element repeats that element.\<close>

lemma shifted_list_constant:
  assumes "xs @ y # ys = x # xs @ zs"
  shows "(\<forall>b\<in>set xs. b = x) \<and> y = x"
  using assms by (induction xs) auto

section \<open>A sample request\<close>

definition sample_secret :: bytes where "sample_secret = replicate HEX_SIZE 0x61"

definition sample_request :: TrojanRequest where
  "sample_request = TrojanRequest_new sample_secret Connect IPv4 (from_u32 0x7F000001) 80 TROJAN"

lemma sample_request_sel [simp]:
  "wf_trojan sample_request" "hex sample_request = sample_secret" "length sample_secret = HEX_SIZE"
  by (simp_all add: sample_request_def sample_secret_def TrojanRequest_new_def wf_trojan_def)

lemma accept_sample:
  "trojan_accept conn_reader sample_secret (peer (trojan_header CRLF CRLF sample_request @ rest)) =
     (Ok (trojan_into_request sample_request), peer rest)"
  unfolding trojan_accept_Ok
  by (intro exI [of _ sample_request] exI [of _ CRLF] exI [of _ rest]) simp

lemma wf_sample_request [simp]: "wf_request (trojan_into_request sample_request)"
  by (rule wf_trojan_into_request) simp

lemma ip_sample_request [simp]:
  "ip (addr_port (trojan_into_request sample_request)) = IpAddr (V4 0x7F000001)"
  by (simp add: trojan_into_request_eq InboundRequest_new_def IpAddrPort_new_def sample_request_def
      TrojanRequest_new_def from_u32_def)

section \<open>Properties\<close>

text \<open>
  C13: The Trojan parser accepts exactly the encodings of well-formed requests, on every stream that
  behaves as a byte stream: it returns the request \<open>r\<close> and leaves the bytes \<open>rest\<close>
  unread if and only if the input is the header of \<open>r\<close> followed by \<open>rest\<close>.
\<close>

theorem trojan_parse_exact:
  assumes "exact_reader R conn_reader invar view obs" and "invar s"
  shows "(\<exists>s'. trojan_parse R s = (Ok r, s') \<and> invar s' \<and> view s' = (view s)\<lparr>inp := rest\<rparr>) \<longleftrightarrow>
    wf_trojan r \<and> (\<exists>sep1 sep2. inp (view s) = trojan_header sep1 sep2 r @ rest)"
  using simulates_Ok [OF exact_reader.sim_trojan_parse [OF assms(1)] assms(2)]
  by (auto simp: trojan_parse_Ok)

theorem trojan_parse_exact_witness:
  "\<exists>s'. trojan_parse conn_reader (peer (trojan_header CRLF 0 sample_request @ [1, 2])) = (Ok sample_request, s') \<and>
     s' = peer [1, 2]"
  using iffD2 [OF trojan_parse_exact [OF conn_stream.exact_reader_axioms TrueI,
        where s = "peer (trojan_header CRLF 0 sample_request @ [1, 2])" and r = sample_request and rest = "[1, 2]"]]
  by auto

text \<open>
  C22: A header that stops early is never mistaken for a request: on any strict prefix of a header
  the parser reports an unexpected end of file, passes on the transport error, or keeps waiting,
  according to how the stream ends.
\<close>

theorem trojan_parse_truncated:
  assumes "exact_reader R conn_reader invar view obs" and "invar s"
    and "wf_trojan r" and "strict_prefix (inp (view s)) (trojan_header sep1 sep2 r)"
  shows "fst (trojan_parse R s) = short_read (iend (view s))"
proof -
  have "fst (trojan_parse conn_reader ((view s)\<lparr>inp := inp (view s)\<rparr>)) = short_read (iend (view s))"
    using consumes_trojan_header [OF assms(3)] assms(4) unfolding consumes_def by blast
  then show ?thesis
    using simulates_fst [OF exact_reader.sim_trojan_parse [OF assms(1)] assms(2)] by simp
qed

theorem trojan_parse_truncated_witness:
  "fst (trojan_parse conn_reader (peer sample_secret)) = Err (Error UnexpectedEof ''early eof'')"
  using trojan_parse_truncated [OF conn_stream.exact_reader_axioms TrueI,
      where s = "peer sample_secret" and r = sample_request and ?sep1.0 = CRLF and ?sep2.0 = CRLF]
  by (simp add: trojan_header_def strict_prefix_def)

text \<open>
  C23: Whatever bytes a peer sends, the Trojan parser does not panic: it returns a request, an
  \<^verbatim>\<open>Unsupported\<close> error, or what reading past the end of the stream gives.
\<close>

theorem trojan_parse_never_panics:
  assumes "exact_reader R conn_reader invar view obs" and "invar s"
  shows "is_Ok (fst (trojan_parse R s)) \<or> fst (trojan_parse R s) = short_read (iend (view s)) \<or>
    (\<exists>e. fst (trojan_parse R s) = Err e \<and> kind e = Unsupported)"
proof -
  have "is_Ok (fst (trojan_parse conn_reader c)) \<or> fst (trojan_parse conn_reader c) = short_read (iend c) \<or>
      (\<exists>e. fst (trojan_parse conn_reader c) = Err e \<and> kind e = Unsupported)" for c
    using trojan_parse_ends_well unfolding ends_well_def
    by (cases "trojan_parse conn_reader c") auto
  then show ?thesis
    using simulates_fst [OF exact_reader.sim_trojan_parse [OF assms(1)] assms(2)] by simp
qed

theorem trojan_parse_never_panics_witness:
  "\<exists>r. fst (trojan_parse conn_reader (peer (sample_secret @ [13, 10, 9]))) = r \<and>
     (is_Ok r \<or> r = Err (Error UnexpectedEof ''early eof'') \<or> (\<exists>e. r = Err e \<and> kind e = Unsupported))"
  using trojan_parse_never_panics [OF conn_stream.exact_reader_axioms TrueI,
      where s = "peer (sample_secret @ [13, 10, 9])"]
  by simp

text \<open>
  C6: Authentication. \<^verbatim>\<open>accept\<close> hands out a request only when the first 56 bytes of the
  connection are the configured secret and the rest of the header encodes that request, and then
  the request is well-formed and marked as Trojan; the payload after the header is left unread.
\<close>

theorem trojan_accept_authenticated:
  assumes "exact_reader R conn_reader invar view obs" and "invar s"
    and "trojan_accept R secret s = (Ok q, s')"
  shows "take HEX_SIZE (inp (view s)) = secret \<and> length secret = HEX_SIZE \<and>
    wf_request q \<and> proxy_protocol q = TROJAN \<and>
    (\<exists>r sep1 sep2. q = trojan_into_request r \<and> inp (view s) = trojan_header sep1 sep2 r @ inp (view s'))"
proof -
  have "trojan_accept conn_reader secret (view s) = (Ok q, view s')"
    using simulates_OkD [OF exact_reader.sim_trojan_accept [OF assms(1)] assms(2,3)] by simp
  then obtain r sep1 sep2 rest where r: "wf_trojan r" "hex r = secret" "q = trojan_into_request r"
      "inp (view s) = trojan_header sep1 sep2 r @ rest" "view s' = (view s)\<lparr>inp := rest\<rparr>"
    unfolding trojan_accept_Ok by blast
  have "take HEX_SIZE (inp (view s)) = secret" "length secret = HEX_SIZE"
    using trojan_header_hex [OF r(1)] r(1,2,4) by (simp_all add: wf_trojan_def)
  moreover have "wf_request q" "proxy_protocol q = TROJAN"
    using wf_trojan_into_request [OF r(1)] r(1,3)
    by (simp_all add: wf_trojan_def trojan_into_request_eq InboundRequest_new_def)
  moreover have "inp (view s) = trojan_header sep1 sep2 r @ inp (view s')"
    using r(4,5) by simp
  ultimately show ?thesis
    using r(3) by blast
qed

theorem trojan_accept_authenticated_witness:
  "take HEX_SIZE (trojan_header CRLF CRLF sample_request @ [1]) = sample_secret \<and>
   wf_request (trojan_into_request sample_request)"
  using trojan_accept_authenticated [OF conn_stream.exact_reader_axioms TrueI accept_sample, where rest1 = "[1]"]
  by simp

text \<open>
  A well-formed header with another secret is refused with \<^verbatim>\<open>InvalidInput\<close>, and only
  the header has been read from the connection by then.
\<close>

lemma trojan_accept_wrong_secret:
  assumes "exact_reader R conn_reader invar view obs" and "invar s"
    and "wf_trojan r" and "hex r \<noteq> secret" and "inp (view s) = trojan_header sep1 sep2 r @ rest"
  shows "\<exists>s'. trojan_accept R secret s = (Err (Error InvalidInput ''Received invalid hex value''), s') \<and>
    view s' = (view s)\<lparr>inp := rest\<rparr>"
proof -
  have "trojan_parse conn_reader (view s) = (Ok r, (view s)\<lparr>inp := rest\<rparr>)"
    using assms(3,5) by (auto simp: trojan_parse_Ok)
  then obtain s' where "trojan_parse R s = (Ok r, s')" "view s' = (view s)\<lparr>inp := rest\<rparr>"
    using simulates_Ok [OF exact_reader.sim_trojan_parse [OF assms(1)] assms(2)] by blast
  then show ?thesis
    using assms(4) by (simp add: trojan_accept_def await_def validate_iff)
qed

lemma trojan_accept_wrong_secret_witness:
  "\<exists>s'. trojan_accept conn_reader [] (peer (trojan_header CRLF CRLF sample_request @ [1])) =
     (Err (Error InvalidInput ''Received invalid hex value''), s') \<and> s' = peer [1]"
  using trojan_accept_wrong_secret [OF conn_stream.exact_reader_axioms TrueI,
      where s = "peer (trojan_header CRLF CRLF sample_request @ [1])" and r = sample_request and secret = "[]"
        and ?sep1.0 = CRLF and ?sep2.0 = CRLF and rest = "[1]"]
  by (simp add: sample_secret_def HEX_SIZE_def)

text \<open>
  C24: Whatever happens to the outbound stream during \<^verbatim>\<open>handshake\<close>, the bytes it has written
  are the beginning of the header, and all of it when the call succeeds.
\<close>

theorem handshake_writes_header:
  assumes "byte_writer W conn_writer invar view outp" and "invar s"
    and "handshake W q secret s = (r, s')"
  shows "outp (view s') = outp (view s) @ room (oend (view s)) (handshake_bytes q secret) \<and>
    (is_Ok r \<longrightarrow> outp (view s') = outp (view s) @ handshake_bytes q secret)"
proof -
  note sim = byte_writer.sim_handshake [OF assms(1)]
  obtain t where t: "handshake conn_writer q secret (view s) = (r, t)"
    using simulates_fst [OF sim assms(2), of q secret] assms(3)
    by (cases "handshake conn_writer q secret (view s)") auto
  moreover have "outp (view s') = outp t"
    using simulates_obs [OF sim assms(2), of q secret] assms(3) t by simp
  ultimately show ?thesis
    using writesD(1) [OF writes_handshake t] writesD(6) [OF writes_handshake t, of "[]"] by simp
qed

theorem handshake_writes_header_witness:
  "\<exists>r s'. handshake conn_writer (trojan_into_request sample_request) sample_secret
      ((peer [])\<lparr>oend := WStalls 5\<rparr>) = (r, s') \<and> outp s' = take 5 sample_secret"
proof -
  let ?s = "(peer [])\<lparr>oend := WStalls 5\<rparr>"
  let ?q = "trojan_into_request sample_request"
  obtain r s' where run: "handshake conn_writer ?q sample_secret ?s = (r, s')"
    by (cases "handshake conn_writer ?q sample_secret ?s")
  with handshake_writes_header [OF conn_stream.byte_writer_axioms TrueI run] show ?thesis
    by (simp add: handshake_bytes_def HEX_SIZE_def)
qed

text \<open>
  C15: Client and server of this program agree on requests for IP addresses: what
  \<^verbatim>\<open>handshake\<close> wrote is accepted by \<^verbatim>\<open>accept\<close> under the same secret as the same request,
  and the bytes the client sends afterwards are the payload the server finds.
\<close>

theorem handshake_accept_roundtrip:
  assumes "byte_writer W conn_writer winv wview outp" and "winv w" and "outp (wview w) = []"
    and "handshake W q secret w = (Ok (), w')"
    and "wf_request q" and "ip (addr_port q) = IpAddr a" and "length secret = HEX_SIZE"
    and "exact_reader R conn_reader invar view obs" and "invar s"
    and "inp (view s) = outp (wview w') @ payload"
  shows "\<exists>s'. trojan_accept R secret s = (Ok (q\<lparr>proxy_protocol := TROJAN\<rparr>), s') \<and> invar s' \<and>
    view s' = (view s)\<lparr>inp := payload\<rparr>"
proof -
  have "handshake conn_writer q secret (wview w) = (Ok (), wview w')"
    using simulates_OkD [OF byte_writer.sim_handshake [OF assms(1)] assms(2,4)] by simp
  from writesD(1) [OF writes_handshake this] writesD(6) [OF writes_handshake this, of "[]"]
  have "inp (view s) = handshake_bytes q secret @ payload"
    using assms(3,10) by simp
  then have "trojan_accept conn_reader secret (view s) =
      (Ok (q\<lparr>proxy_protocol := TROJAN\<rparr>), (view s)\<lparr>inp := payload\<rparr>)"
    unfolding trojan_accept_Ok using handshake_bytes_ip [OF assms(6,5,7)] by metis
  then show ?thesis
    using simulates_Ok [OF exact_reader.sim_trojan_accept [OF assms(8)] assms(9)] by blast
qed

theorem handshake_accept_roundtrip_witness:
  "\<exists>s'. trojan_accept conn_reader sample_secret
      (peer (handshake_bytes (trojan_into_request sample_request) sample_secret @ [7])) =
      (Ok ((trojan_into_request sample_request)\<lparr>proxy_protocol := TROJAN\<rparr>), s') \<and> s' = peer [7]"
proof -
  let ?q = "trojan_into_request sample_request"
  let ?w = "(peer [])\<lparr>outp := handshake_bytes ?q sample_secret\<rparr>"
  have "handshake conn_writer ?q sample_secret (peer []) = (Ok (), ?w)"
    using writes_Ok [OF writes_handshake, of "peer []"] by simp
  from handshake_accept_roundtrip [OF conn_stream.byte_writer_axioms TrueI _ this wf_sample_request
      ip_sample_request _ conn_stream.exact_reader_axioms TrueI,
      where s = "peer (handshake_bytes ?q sample_secret @ [7])" and payload = "[7]"]
  show ?thesis by simp
qed

text \<open>
  C25: For a domain name the two sides disagree: \<^verbatim>\<open>handshake\<close> writes the name without the
  length byte that \<^verbatim>\<open>parse\<close> reads first. When \<^verbatim>\<open>handshake\<close> has written the header of a
  request for a name and \<^verbatim>\<open>accept\<close> accepts what it wrote under the same secret, the accepted
  request has that name only in the odd case that every byte of the name, and the high byte of the
  port, is the length of the name; every other name is read as a different one, or refused.
\<close>

theorem handshake_domain_not_recovered:
  assumes "byte_writer W conn_writer winv wview outp" and "winv w" and "outp (wview w) = []"
    and "handshake W q secret w = (Ok (), w')"
    and "ip (addr_port q) = Domain d" and "length secret = HEX_SIZE"
    and "exact_reader R conn_reader invar view obs" and "invar s"
    and "inp (view s) = outp (wview w') @ payload"
    and "trojan_accept R secret s = (Ok q', s')"
  shows "ip (addr_port q') = Domain d \<longrightarrow>
    (\<forall>b\<in>set (inner d). b = of_nat (length (inner d))) \<and>
    hd (be_bytes 2 (port (addr_port q))) = of_nat (length (inner d))"
proof
  assume same: "ip (addr_port q') = Domain d"
  have "handshake conn_writer q secret (wview w) = (Ok (), wview w')"
    using simulates_OkD [OF byte_writer.sim_handshake [OF assms(1)] assms(2,4)] by simp
  from writesD(1) [OF writes_handshake this] writesD(6) [OF writes_handshake this, of "[]"]
  have inp: "inp (view s) = handshake_bytes q secret @ payload"
    using assms(3,9) by simp
  obtain r sep1 sep2 where r: "wf_trojan r" "q' = trojan_into_request r" "hex r = secret"
      "inp (view s) = trojan_header sep1 sep2 r @ inp (view s')"
    using simulates_OkD [OF exact_reader.sim_trojan_accept [OF assms(7)] assms(8,10)]
    unfolding trojan_accept_Ok by fastforce
  have "tr_addr r = Domain d"
    using same r(2) by (simp add: trojan_into_request_eq InboundRequest_new_def IpAddrPort_new_def)
  then have "inner d @ be_bytes 2 (port (addr_port q)) @ be_bytes 2 CRLF @ payload =
      of_nat (length (inner d)) # inner d @ be_bytes 2 (tr_port r) @ be_bytes 2 sep2 @ inp (view s')"
    using r(4) inp assms(5,6) r(1,3)
    by (auto simp: handshake_bytes_def trojan_header_def wf_trojan_def)
  moreover obtain y ys where "be_bytes 2 (port (addr_port q)) = y # ys"
    by (cases "be_bytes 2 (port (addr_port q))") (auto dest: arg_cong [of _ _ length])
  ultimately show "(\<forall>b\<in>set (inner d). b = of_nat (length (inner d))) \<and>
      hd (be_bytes 2 (port (addr_port q))) = of_nat (length (inner d))"
    using shifted_list_constant [where xs = "inner d"] by simp
qed

theorem handshake_domain_not_recovered_witness:
  "\<exists>w' q' s'. handshake conn_writer (InboundRequest_new DomainName (Domain \<lparr>inner = [1, 2]\<rparr>) Connect 80 TCP SOCKS)
       sample_secret (peer []) = (Ok (), w') \<and>
     trojan_accept conn_reader sample_secret (peer (outp w' @ [5])) = (Ok q', s') \<and>
     ip (addr_port q') \<noteq> Domain \<lparr>inner = [1, 2]\<rparr>"
proof -
  let ?q = "InboundRequest_new DomainName (Domain \<lparr>inner = [1, 2]\<rparr>) Connect 80 TCP SOCKS"
  let ?r = "TrojanRequest_new sample_secret Connect DomainName (from_bytes [2]) 80 TROJAN"
  let ?w = "(peer [])\<lparr>outp := handshake_bytes ?q sample_secret\<rparr>"
  have run: "handshake conn_writer ?q sample_secret (peer []) = (Ok (), ?w)"
    using writes_Ok [OF writes_handshake, of "peer []"] by simp
  have "handshake_bytes ?q sample_secret @ [5] = trojan_header CRLF CRLF ?r @ [5]"
    by (simp add: handshake_bytes_def trojan_header_def InboundRequest_new_def IpAddrPort_new_def
        TrojanRequest_new_def from_bytes_def)
  then have acc: "trojan_accept conn_reader sample_secret (peer (outp ?w @ [5])) = (Ok (trojan_into_request ?r), peer [5])"
    unfolding trojan_accept_Ok
    by (intro exI [of _ ?r] exI [of _ CRLF] exI [of _ "[5]"])
      (simp add: wf_trojan_def TrojanRequest_new_def)
  from handshake_domain_not_recovered [OF conn_stream.byte_writer_axioms TrueI _ run _ _ conn_stream.exact_reader_axioms
      TrueI _ acc, where d = "\<lparr>inner = [1, 2]\<rparr>" and payload = "[5]"]
  have "ip (addr_port (trojan_into_request ?r)) \<noteq> Domain \<lparr>inner = [1, 2]\<rparr>"
    by (auto simp: InboundRequest_new_def IpAddrPort_new_def)
  with run acc show ?thesis by blast
qed

end
