(* ===== verification/Config.thy ===== *)
theory Config
  imports Trojan
begin

text \<open>
  The configuration of \<^verbatim>\<open>src/config\<close> and what is derived from it when a server starts: reading
  the file, the TLS configurations, and the secret that both ends of the Trojan protocol compare.
  The file system, the JSON reader, the certificate reader, the TLS library and the hash function
  are arguments; the properties name what is assumed of them.
\<close>

section \<open>The configuration\<close>

datatype InboundMode = InboundTCP | InboundGRPC | InboundQUIC

datatype OutboundMode = OutboundDIRECT | OutboundTCP | OutboundGRPC | OutboundQUIC

record InboundTlsConfig =
  cert_path :: string
  key_path :: string

record OutboundTlsConfig =
  host_name :: string
  allow_insecure :: bool

record InboundConfig =
  in_mode :: InboundMode
  in_protocol :: SupportedProtocols
  in_address :: string
  in_port :: u16
  in_secret :: "string option"
  in_tls :: "InboundTlsConfig option"

record OutboundConfig =
  out_mode :: OutboundMode
  out_protocol :: SupportedProtocols
  out_address :: "string option"
  out_port :: "u16 option"
  out_secret :: "string option"
  out_tls :: "OutboundTlsConfig option"

record Config =
  inbound :: InboundConfig
  outbound :: OutboundConfig

text \<open>
  \<open>open_file\<close> is \<^verbatim>\<open>File::open\<close> with the contents of the file, \<open>json_from_reader\<close> is
  \<^verbatim>\<open>serde_json::from_reader\<close>, which reports an error message.
\<close>

type_synonym file_system = "string \<Rightarrow> io_error + bytes"

definition read_config :: "file_system \<Rightarrow> (bytes \<Rightarrow> string + Config) \<Rightarrow> string \<Rightarrow> io_error + Config" where
  "read_config open_file json_from_reader path =
     (case open_file path of
        Inl e \<Rightarrow> Inl (Error InvalidData (message e))
      | Inr file \<Rightarrow>
          (case json_from_reader file of
             Inr config \<Rightarrow> Inr config
           | Inl msg \<Rightarrow> Inl (Error InvalidData msg)))"

section \<open>TLS\<close>

text \<open>
  A client configuration of \<^verbatim>\<open>rustls\<close> is what the builder was given: the root certificates and
  the verifier that replaces the default one.
\<close>

datatype CertVerifier = WebPkiVerifier | NoCertificateVerification

record ClientConfig =
  root_store :: "bytes list"
  verifier :: CertVerifier

text \<open>
  The stub verifier accepts every certificate. The default verifier is code of
  \<^verbatim>\<open>rustls\<close> and is given by \<open>webpki\<close>.
\<close>

definition verify_server_cert ::
  "(bytes list \<Rightarrow> bytes \<Rightarrow> string \<Rightarrow> bool) \<Rightarrow> ClientConfig \<Rightarrow> bytes \<Rightarrow> string \<Rightarrow> bool" where
  "verify_server_cert webpki cfg end_entity server_name =
     (case verifier cfg of
        NoCertificateVerification \<Rightarrow> True
      | WebPkiVerifier \<Rightarrow> webpki (root_store cfg) end_entity server_name)"

definition make_client_config :: "bytes list \<Rightarrow> OutboundTlsConfig \<Rightarrow> ClientConfig" where
  "make_client_config tls_server_roots config =
     (if allow_insecure config
      then \<lparr>root_store = [], verifier = NoCertificateVerification\<rparr>
      else \<lparr>root_store = tls_server_roots, verifier = WebPkiVerifier\<rparr>)"

text \<open>
  The items of a PEM file as \<^verbatim>\<open>rustls_pemfile\<close> returns them, and the two reading functions of
  that crate.
\<close>

datatype Item = X509Certificate bytes | RSAKey bytes | PKCS8Key bytes | ECKey bytes

record pemfile =
  pem_certs :: "bytes \<Rightarrow> io_error + bytes list"
  pem_read_one :: "bytes \<Rightarrow> io_error + Item option"

definition load_certs :: "file_system \<Rightarrow> pemfile \<Rightarrow> string \<Rightarrow> io_error + bytes list" where
  "load_certs open_file pem path =
     (case open_file path of
        Inl e \<Rightarrow> Inl e
      | Inr reader \<Rightarrow>
          (case pem_certs pem reader of
             Inr certs \<Rightarrow> Inr certs
           | Inl _ \<Rightarrow> Inl (Error InvalidData ''failed to load tls certificate'')))"

definition load_private_key :: "file_system \<Rightarrow> pemfile \<Rightarrow> string \<Rightarrow> io_error + bytes" where
  "load_private_key open_file pem path =
     (case open_file path of
        Inl e \<Rightarrow> Inl e
      | Inr reader \<Rightarrow>
          (case pem_read_one pem reader of
             Inr opt \<Rightarrow>
               (case opt of
                  Some item \<Rightarrow>
                    (case item of
                       RSAKey key \<Rightarrow> Inr key
                     | PKCS8Key key \<Rightarrow> Inr key
                     | ECKey key \<Rightarrow> Inr key
                     | _ \<Rightarrow> Inl (Error InvalidInput ''Found cert in ssl key file''))
                | None \<Rightarrow> Inl (Error InvalidInput ''Failed to find any private key in file''))
           | Inl e \<Rightarrow> Inl e))"

record ServerConfig =
  server_certs :: "bytes list"
  server_key :: bytes

text \<open>
  \<open>single_cert\<close> is \<^verbatim>\<open>with_single_cert\<close>: it refuses a certificate chain and key that do not
  fit, and \<^verbatim>\<open>expect\<close> turns that into a panic.
\<close>

definition make_server_config ::
  "file_system \<Rightarrow> pemfile \<Rightarrow> (bytes list \<Rightarrow> bytes \<Rightarrow> string + ServerConfig) \<Rightarrow> InboundTlsConfig \<Rightarrow>
   ServerConfig option outcome" where
  "make_server_config open_file pem single_cert config =
     (case load_certs open_file pem (cert_path config) of
        Inl _ \<Rightarrow> Ok None
      | Inr certificates \<Rightarrow>
          (case load_private_key open_file pem (key_path config) of
             Inl _ \<Rightarrow> Ok None
           | Inr key \<Rightarrow>
               (case single_cert certificates key of
                  Inr cfg \<Rightarrow> Ok (Some cfg)
                | Inl e \<Rightarrow> Panic (''bad certificate/key: '' @ e))))"

section \<open>The shared secret\<close>

text \<open>
  Both acceptors and the handler derive the secret in the same way: the SHA-224 digest of the
  configured text, printed in hexadecimal, as bytes.
\<close>

definition hex_secret :: "(bytes \<Rightarrow> bytes) \<Rightarrow> string \<Rightarrow> bytes" where
  "hex_secret sha224 secret = bytes_of_str (concat (map hex2 (sha224 (bytes_of_str secret))))"

definition secret_of :: "(bytes \<Rightarrow> bytes) \<Rightarrow> SupportedProtocols \<Rightarrow> string option \<Rightarrow> bytes" where
  "secret_of sha224 protocol secret =
     (case (protocol, secret) of
        (TROJAN, Some s) \<Rightarrow> hex_secret sha224 s
      | _ \<Rightarrow> [])"

lemma length_hex_secret: "length (hex_secret sha224 s) = 2 * length (sha224 (bytes_of_str s))"
proof -
  have "length (concat (map hex2 bs)) = 2 * length bs" for bs
    by (induction bs) (simp_all add: hex2_def)
  then show ?thesis
    by (simp add: hex_secret_def bytes_of_str_def)
qed

lemma str_of_bytes_of_str [simp]: "str_of_bytes (bytes_of_str cs) = cs"
proof (induction cs)
  case (Cons c cs)
  have "unat (of_nat (of_char c) :: u8) = of_char c"
    by (rule unat_of_nat_u8) simp
  with Cons show ?case
    by (simp add: bytes_of_str_def str_of_bytes_def)
qed (simp_all add: bytes_of_str_def str_of_bytes_def)

lemma bytes_of_str_inject [simp]: "bytes_of_str a = bytes_of_str b \<longleftrightarrow> a = b"
  by (metis str_of_bytes_of_str)

lemma digit_char_inject: "d < 16 \<Longrightarrow> e < 16 \<Longrightarrow> digit_char d = digit_char e \<longleftrightarrow> d = e"
  by (metis to_digit_char option.inject order_refl)

lemma hex2_inject: "hex2 a = hex2 b \<longleftrightarrow> a = b"
proof
  assume "hex2 a = hex2 b"
  moreover have "unat a div 16 < 16" "unat b div 16 < 16"
    using unat_u8_less [of a] unat_u8_less [of b] by linarith+
  ultimately have "unat a div 16 = unat b div 16" "unat a mod 16 = unat b mod 16"
    by (simp_all add: hex2_def digit_char_inject)
  then have "unat a = unat b"
    by (metis div_mult_mod_eq)
  then show "a = b"
    using word_unat_eq_iff [of a b] by simp
qed simp

lemma concat_hex2_inject: "concat (map hex2 as) = concat (map hex2 bs) \<longleftrightarrow> as = bs"
proof (induction as arbitrary: bs)
  case Nil
  show ?case by (cases bs) (simp_all add: hex2_def)
next
  case (Cons a as)
  show ?case
  proof (cases bs)
    case Nil
    then show ?thesis by (simp add: hex2_def)
  next
    case (Cons b bs')
    have "length (hex2 a) = length (hex2 b)" by (simp add: hex2_def)
    with Cons Cons.IH show ?thesis by (simp add: hex2_inject)
  qed
qed

lemma hex_secret_inject:
  "hex_secret sha224 s = hex_secret sha224 t \<longleftrightarrow> sha224 (bytes_of_str s) = sha224 (bytes_of_str t)"
  by (simp add: hex_secret_def concat_hex2_inject)

lemma load_certs_Inr:
  "load_certs open_file pem path = Inr certs \<longleftrightarrow> (\<exists>f. open_file path = Inr f \<and> pem_certs pem f = Inr certs)"
  by (simp add: load_certs_def split: sum.split)

fun private_key :: "Item \<Rightarrow> bytes option" where
  "private_key (RSAKey key) = Some key"
| "private_key (PKCS8Key key) = Some key"
| "private_key (ECKey key) = Some key"
| "private_key (X509Certificate _) = None"

lemma load_private_key_Inr:
  "load_private_key open_file pem path = Inr key \<longleftrightarrow> (\<exists>g item. open_file path = Inr g \<and>
     pem_read_one pem g = Inr (Some item) \<and> private_key item = Some key)"
  by (simp add: load_private_key_def split: sum.split option.split Item.split)

section \<open>Properties\<close>

text \<open>
  C35: The secret derived from a configured text has exactly the 56 bytes that the Trojan header
  reserves for it, given that a SHA-224 digest has 28 bytes, and two texts give the same secret
  only when their digests agree; without a configured text the secret is empty.
\<close>

theorem secret_fits_header:
  assumes "\<forall>x. length (sha224 x) = 28"
  shows "length (secret_of sha224 TROJAN (Some s)) = HEX_SIZE \<and>
    (secret_of sha224 TROJAN (Some s) = secret_of sha224 TROJAN (Some t) \<longleftrightarrow>
       sha224 (bytes_of_str s) = sha224 (bytes_of_str t)) \<and>
    secret_of sha224 TROJAN None = []"
  using assms by (simp add: secret_of_def length_hex_secret hex_secret_inject HEX_SIZE_def)

theorem secret_fits_header_witness:
  "length (secret_of (\<lambda>x. replicate 28 (of_nat (length x))) TROJAN (Some ''abc'')) = HEX_SIZE \<and>
   secret_of (\<lambda>x. replicate 28 (of_nat (length x))) TROJAN (Some ''abc'') \<noteq>
   secret_of (\<lambda>x. replicate 28 (of_nat (length x))) TROJAN (Some ''abcd'')"
  using secret_fits_header [of "\<lambda>x. replicate 28 (of_nat (length x))" "''abc''" "''abcd''"]
  by (simp add: bytes_of_str_def)

text \<open>
  A TLS client verifies the server exactly when it is configured to: under the configuration
  made from the file, a certificate is accepted for a name if and only if insecure connections were
  allowed or the default verifier accepts it with the built-in root certificates.
\<close>

lemma client_tls_verification:
  "verify_server_cert webpki (make_client_config roots cfg) cert name \<longleftrightarrow>
     allow_insecure cfg \<or> webpki roots cert name"
  by (simp add: verify_server_cert_def make_client_config_def)

text \<open>
  The TLS configuration of a server is made exactly from a readable certificate file and a key
  file whose first item is a private key; when either cannot be loaded the function returns no
  configuration rather than an error, and a certificate that does not fit the key is a panic.
\<close>

lemma server_tls_config:
  "(make_server_config open_file pem single_cert cfg = Ok (Some sc) \<longleftrightarrow>
     (\<exists>f g certs item key. open_file (cert_path cfg) = Inr f \<and> pem_certs pem f = Inr certs \<and>
        open_file (key_path cfg) = Inr g \<and> pem_read_one pem g = Inr (Some item) \<and>
        private_key item = Some key \<and> single_cert certs key = Inr sc)) \<and>
   (make_server_config open_file pem single_cert cfg = Ok None \<longleftrightarrow>
     (\<nexists>certs key. load_certs open_file pem (cert_path cfg) = Inr certs \<and>
        load_private_key open_file pem (key_path cfg) = Inr key)) \<and>
   (make_server_config open_file pem single_cert cfg = Panic p \<longleftrightarrow>
     (\<exists>certs key e. load_certs open_file pem (cert_path cfg) = Inr certs \<and>
        load_private_key open_file pem (key_path cfg) = Inr key \<and> single_cert certs key = Inl e \<and>
        p = ''bad certificate/key: '' @ e)) \<and>
   make_server_config open_file pem single_cert cfg \<noteq> Err err"
proof -
  let ?made = "make_server_config open_file pem single_cert cfg"
  have some: "?made = Ok (Some sc) \<longleftrightarrow>
      (\<exists>certs key. load_certs open_file pem (cert_path cfg) = Inr certs \<and>
         load_private_key open_file pem (key_path cfg) = Inr key \<and> single_cert certs key = Inr sc)"
    by (simp add: make_server_config_def split: sum.split)
  have "?made = Ok None \<longleftrightarrow>
      (\<nexists>certs key. load_certs open_file pem (cert_path cfg) = Inr certs \<and>
         load_private_key open_file pem (key_path cfg) = Inr key)"
    by (simp add: make_server_config_def split: sum.split)
  moreover have "?made = Panic p \<longleftrightarrow>
      (\<exists>certs key e. load_certs open_file pem (cert_path cfg) = Inr certs \<and>
         load_private_key open_file pem (key_path cfg) = Inr key \<and> single_cert certs key = Inl e \<and>
         p = ''bad certificate/key: '' @ e)"
    by (auto simp: make_server_config_def split: sum.split)
  moreover have "?made \<noteq> Err err"
    by (simp add: make_server_config_def split: sum.split)
  ultimately show ?thesis
    using some [unfolded load_certs_Inr load_private_key_Inr] by (intro conjI) (blast, simp, simp, simp)
qed

end
