(* ===== verification/Socks5.thy ===== *)
theory Socks5
  imports Async_Io Fmt
begin

text \<open>
  The SOCKS5 front end of \<^verbatim>\<open>src/protocol/socks5\<close> (\<^verbatim>\<open>base.rs\<close>, \<^verbatim>\<open>parser.rs\<close>,
  \<^verbatim>\<open>mod.rs\<close>): the greeting, the request parser and the acknowledgement. The lemmas give the
  exact set of inputs the parser accepts and the bytes \<^verbatim>\<open>accept\<close> answers with. The parser reads
  a domain name into an empty vector; the properties state what that does to such requests.
\<close>

section \<open>Messages\<close>

definition VERSION :: u8 where "VERSION = 5"

record SocksRequest =
  so_version :: u8
  so_command :: Command
  so_rsv :: u8
  so_atype :: Atype
  so_addr :: IpAddress
  so_port :: u16

record ClientHello =
  ch_version :: u8
  ch_method_size :: u8
  ch_methods :: u8

record ServerHello =
  sh_version :: u8
  sh_method :: u8

record RequestAck =
  ra_version :: u8
  ra_rep :: u8
  ra_rsv :: u8
  ra_atype :: u8
  ra_addr :: IpAddress
  ra_port :: u16

definition ServerHello_new :: "u8 \<Rightarrow> ServerHello" where
  "ServerHello_new method = \<lparr>sh_version = VERSION, sh_method = method\<rparr>"

definition ServerHello_bytes :: "ServerHello \<Rightarrow> bytes" where
  "ServerHello_bytes self = [sh_version self, sh_method self]"

definition RequestAck_new :: "u8 \<Rightarrow> u8 \<Rightarrow> u8 \<Rightarrow> IpAddress \<Rightarrow> u16 \<Rightarrow> RequestAck" where
  "RequestAck_new rep rsv at addr p =
     \<lparr>ra_version = VERSION, ra_rep = rep, ra_rsv = rsv, ra_atype = at, ra_addr = addr, ra_port = p\<rparr>"

definition SocksRequest_new ::
  "u8 \<Rightarrow> Command \<Rightarrow> u8 \<Rightarrow> Atype \<Rightarrow> u16 \<Rightarrow> IpAddress \<Rightarrow> SocksRequest" where
  "SocksRequest_new version cmd rsv at p addr =
     \<lparr>so_version = version, so_command = cmd, so_rsv = rsv, so_atype = at,
      so_addr = addr, so_port = p\<rparr>"

definition dump_request :: "SocksRequest \<Rightarrow> string" where
  "dump_request self =
     ''['' @ Command_fmt (so_command self) @ '' => '' @ IpAddress_fmt (so_addr self) @ '':'' @
     dec (unat (so_port self)) @ '']''"

definition socks_into_request :: "SocksRequest \<Rightarrow> InboundRequest" where
  "socks_into_request self =
     (case so_command self of
        Udp \<Rightarrow> InboundRequest_new (so_atype self) (so_addr self) (so_command self) (so_port self) UDP SOCKS
      | _ \<Rightarrow> InboundRequest_new (so_atype self) (so_addr self) (so_command self) (so_port self) TCP SOCKS)"

section \<open>The parser and the handshake\<close>

text \<open>\<^verbatim>\<open>Vec::with_capacity\<close> reserves space and creates an empty vector.\<close>

definition vec_with_capacity :: "nat \<Rightarrow> bytes" where
  "vec_with_capacity n = []"

definition socks_parse :: "'s reader \<Rightarrow> ('s, SocksRequest) async" where
  "socks_parse stream =
     await (read_u8 stream) (\<lambda>v.
     await (if v = VERSION then return VERSION
            else fail (Error Unsupported ''Unsupported version number'')) (\<lambda>version.
     await (read_u8 stream) (\<lambda>b.
     await (try_result (Command_from b)) (\<lambda>command.
     await (read_u8 stream) (\<lambda>rsv.
     await (read_u8 stream) (\<lambda>t.
     await (try_result (Atype_from t)) (\<lambda>atype.
     await (case atype of
              IPv4 \<Rightarrow> await (read_u32 stream) (\<lambda>a. return (from_u32 a))
            | IPv6 \<Rightarrow> await (read_u128 stream) (\<lambda>a. return (from_u128 a))
            | DomainName \<Rightarrow>
                await (read_u8 stream) (\<lambda>size.
                await (read_exact stream (length (vec_with_capacity (unat size)))) (\<lambda>buf.
                return (from_bytes buf)))) (\<lambda>addr.
     await (read_u16 stream) (\<lambda>port.
     return (SocksRequest_new version command rsv atype port addr))))))))))"

definition init_ack :: "'s reader \<Rightarrow> 's writer \<Rightarrow> ('s, unit) async" where
  "init_ack R W =
     await (read R 32) (\<lambda>_.
     await (write_all W (ServerHello_bytes (ServerHello_new 0))) (\<lambda>_.
     await (flush W) (\<lambda>_. return ())))"

definition write_request_ack :: "'s writer \<Rightarrow> u16 \<Rightarrow> ('s, unit) async" where
  "write_request_ack W p =
     await (write_all W [VERSION, 0, 0, 1, 127, 0, 0, 1]) (\<lambda>_.
     await (write_u16 W p) (\<lambda>_.
     await (flush W) (\<lambda>_. return ())))"

definition socks_accept :: "'s reader \<Rightarrow> 's writer \<Rightarrow> u16 \<Rightarrow> ('s, InboundRequest) async" where
  "socks_accept R W p =
     await (init_ack R W) (\<lambda>_.
     await (amap socks_into_request (socks_parse R)) (\<lambda>request.
     await (write_request_ack W p) (\<lambda>_. return request)))"

section \<open>The wire format\<close>

text \<open>
  A request in the format of the SOCKS5 specification (RFC 1928): an address is its octets, a name
  its length in a byte and its bytes.
\<close>

fun socks_addr :: "IpAddress \<Rightarrow> bytes" where
  "socks_addr (IpAddr a) = octets a"
| "socks_addr (Domain d) = of_nat (length (inner d)) # inner d"

definition socks_header :: "SocksRequest \<Rightarrow> bytes" where
  "socks_header r =
     [so_version r, command_u8 (so_command r), so_rsv r, atype_u8 (so_atype r)] @
     socks_addr (so_addr r) @ be_bytes 2 (so_port r)"

definition wf_socks :: "SocksRequest \<Rightarrow> bool" where
  "wf_socks r \<longleftrightarrow> so_version r = VERSION \<and> wf_addr (so_atype r) (so_addr r)"

section \<open>Simulation\<close>

context exact_reader
begin

lemma sim_socks_parse: "simulates invar view obs (socks_parse R) (socks_parse R0)"
  unfolding socks_parse_def
  by (intro sim_intros) (auto intro!: sim_intros split: Atype.split)

end

lemma sim_socks_accept:
  assumes "byte_stream R R0 W W0 invar view obs"
  shows "simulates invar view obs (socks_accept R W p) (socks_accept R0 W0 p)"
proof -
  have R: "chunk_reader R R0 invar view obs" and W: "byte_writer W W0 invar view obs"
    using assms by (simp_all add: byte_stream_def)
  then have E: "exact_reader R R0 invar view obs"
    by (simp add: chunk_reader_def)
  show ?thesis
    unfolding socks_accept_def init_ack_def write_request_ack_def
    by (intro sim_intros chunk_reader.sim_read [OF R] byte_writer.sim_write_all [OF W]
        byte_writer.sim_write_u16 [OF W] byte_writer.sim_flush [OF W] exact_reader.sim_socks_parse [OF E])
qed

section \<open>Lemmas on the abstract stream\<close>

lemma conn_socks_ip:
  assumes "wf_addr at (IpAddr a)"
  shows "(case at of
      IPv4 \<Rightarrow> await (read_u32 conn_reader) (\<lambda>a. return (from_u32 a))
    | IPv6 \<Rightarrow> await (read_u128 conn_reader) (\<lambda>a. return (from_u128 a))
    | DomainName \<Rightarrow>
        await (read_u8 conn_reader) (\<lambda>size.
        await (read_exact conn_reader (length (vec_with_capacity (unat size)))) (\<lambda>buf.
        return (from_bytes buf)))) (c\<lparr>inp := socks_addr (IpAddr a) @ rest\<rparr>) =
   (Ok (IpAddr a), c\<lparr>inp := rest\<rparr>)"
  using assms
  by (cases rule: wf_addr_cases) (auto simp: await_Ok_iff conn_read_Ok from_u32_def from_u128_def)

text \<open>For an IP address the parser reads what the specification says.\<close>

lemma socks_parse_ip:
  assumes "wf_socks r" and "so_addr r = IpAddr a" and "inp c = socks_header r @ rest"
  shows "socks_parse conn_reader c = (Ok r, c\<lparr>inp := rest\<rparr>)"
proof -
  have "socks_parse conn_reader (c\<lparr>inp := socks_header r @ rest\<rparr>) = (Ok r, c\<lparr>inp := rest\<rparr>)"
    using assms(1,2)
    by (cases r) (simp add: socks_parse_def socks_header_def wf_socks_def await_def
        conn_socks_ip [unfolded socks_addr.simps] SocksRequest_new_def)
  then show ?thesis
    by (simp add: conn_inp_update [OF assms(3)])
qed

text \<open>For a name it reads the length byte, no name, and then the port.\<close>

lemma socks_parse_name:
  assumes "inp c = [VERSION, command_u8 cmd, rsv, atype_u8 DomainName, sz] @ be_bytes 2 (p :: u16) @ rest"
  shows "socks_parse conn_reader c =
    (Ok (SocksRequest_new VERSION cmd rsv DomainName p (from_bytes [])), c\<lparr>inp := rest\<rparr>)"
proof -
  have no_read: "conn_read_exact 0 d = (Ok [], d)" for d
    by (simp add: conn_read_exact_def)
  have "socks_parse conn_reader (c\<lparr>inp := [VERSION, command_u8 cmd, rsv, atype_u8 DomainName, sz] @ be_bytes 2 p @ rest\<rparr>) =
      (Ok (SocksRequest_new VERSION cmd rsv DomainName p (from_bytes [])), c\<lparr>inp := rest\<rparr>)"
    by (simp add: socks_parse_def await_def vec_with_capacity_def no_read del: atype_u8.simps)
  then show ?thesis
    by (simp only: conn_inp_update [OF assms])
qed

lemma socks_into_request_eq:
  "socks_into_request r = InboundRequest_new (so_atype r) (so_addr r) (so_command r) (so_port r)
     (transport_of (so_command r)) SOCKS"
  by (cases "so_command r") (simp_all add: socks_into_request_def transport_of_def)

lemma wf_socks_into_request: "wf_socks r \<Longrightarrow> wf_request (socks_into_request r)"
  by (simp add: socks_into_request_eq wf_request_def wf_socks_def InboundRequest_new_def IpAddrPort_new_def)

lemma keeps_socks_parse: "keeps_output (socks_parse conn_reader)"
  unfolding socks_parse_def
  by (intro keeps_intros) (auto intro!: keeps_intros split: Atype.split)

lemma ends_well_socks_parse: "ends_well {Unsupported} (socks_parse conn_reader)"
  unfolding socks_parse_def
  by (intro ends_well_intros)
    (auto intro!: ends_well_intros dest: Atype_from_Inl Command_from_Inl split: Atype.split)

definition greeting :: bytes where "greeting = [VERSION, 0]"

definition success_reply :: "u16 \<Rightarrow> bytes" where
  "success_reply p = [VERSION, 0, 0, 1, 127, 0, 0, 1] @ be_bytes 2 p"

lemma writes_greeting:
  "writes (await (conn_write_all (ServerHello_bytes (ServerHello_new 0))) (\<lambda>_. await conn_flush (\<lambda>_. return ()))) greeting"
  using writes_await [OF writes_all writes_await_return [OF writes_flush]]
  by (simp add: greeting_def ServerHello_bytes_def ServerHello_new_def)

lemma writes_request_ack: "writes (write_request_ack conn_writer p) (success_reply p)"
  using writes_await [OF writes_all [of "[VERSION, 0, 0, 1, 127, 0, 0, 1]"]
      writes_await [OF writes_all [of "be_bytes 2 p"] writes_await_return [OF writes_flush]]]
  by (simp add: write_request_ack_def success_reply_def)

text \<open>The greeting step: the first chunk of input is dropped and the greeting written.\<close>

lemma init_ack_accepting:
  assumes "oend c = Accepting"
  shows "init_ack conn_reader conn_writer c =
    (case conn_read 32 c of (r, d) \<Rightarrow>
       (bind_outcome r (\<lambda>_. Ok ()), if is_Ok r then d\<lparr>outp := outp c @ greeting\<rparr> else d))"
proof -
  obtain r d where run: "conn_read 32 c = (r, d)" by (cases "conn_read 32 c")
  then have "outp d = outp c" "oend d = Accepting"
    using keeps_outputD [OF keeps_read(2) run] assms by simp_all
  with run show ?thesis
    by (cases r) (simp_all add: init_ack_def await_def greeting_def ServerHello_bytes_def ServerHello_new_def)
qed

lemma socks_accept_run:
  assumes "oend c = Accepting" and "isizes c = length hello # sizes" and "hello \<noteq> []"
    and "length hello \<le> 32" and "inp c = hello @ rest"
  shows "socks_accept conn_reader conn_writer p c =
    (case socks_parse conn_reader (c\<lparr>inp := rest, isizes := sizes, outp := outp c @ greeting\<rparr>) of (r, d) \<Rightarrow>
       (bind_outcome r (\<lambda>q. Ok (socks_into_request q)),
        if is_Ok r then d\<lparr>outp := outp c @ greeting @ success_reply p\<rparr> else d))"
proof -
  let ?c = "c\<lparr>inp := rest, isizes := sizes, outp := outp c @ greeting\<rparr>"
  have "conn_read 32 c = (Ok hello, c\<lparr>inp := rest, isizes := sizes\<rparr>)"
    using assms(2-5) by (cases hello) (auto simp: conn_read_def Let_def min_def max_def)
  then have init: "init_ack conn_reader conn_writer c = (Ok (), ?c)"
    using init_ack_accepting [OF assms(1)] by simp
  obtain r d where run: "socks_parse conn_reader ?c = (r, d)" by (cases "socks_parse conn_reader ?c")
  then have "outp d = outp c @ greeting" "oend d = Accepting"
    using keeps_outputD [OF keeps_socks_parse run] assms by simp_all
  with init run show ?thesis
    by (cases r) (simp_all add: socks_accept_def await_def amap_def writes_Ok [OF writes_request_ack])
qed

lemma socks_accept_fails:
  assumes "oend c = Accepting" and "socks_accept conn_reader conn_writer p c = (r, c')" and "\<not> is_Ok r"
  shows "(outp c' = outp c \<or> outp c' = outp c @ greeting) \<and> (\<forall>msg. r \<noteq> Panic msg)"
proof -
  obtain q d where read: "conn_read 32 c = (q, d)" by (cases "conn_read 32 c")
  have d: "outp d = outp c" "oend d = Accepting"
    using keeps_outputD [OF keeps_read(2) read] assms(1) by simp_all
  show ?thesis
  proof (cases "is_Ok q")
    case False
    then have "outp c' = outp c" "\<forall>msg. r \<noteq> Panic msg"
      using assms(2) read init_ack_accepting [OF assms(1)] d
      by (auto simp: socks_accept_def await_def conn_read_def Let_def split: if_splits ending.splits)
    then show ?thesis by simp
  next
    case True
    let ?d = "d\<lparr>outp := outp c @ greeting\<rparr>"
    obtain q2 e where parse: "socks_parse conn_reader ?d = (q2, e)" by (cases "socks_parse conn_reader ?d")
    have e: "outp e = outp c @ greeting" "oend e = Accepting"
      using keeps_outputD [OF keeps_socks_parse parse] d by simp_all
    have "is_Ok q2 \<or> q2 = short_read (iend ?d) \<or> (\<exists>e. q2 = Err e \<and> kind e \<in> {Unsupported})"
      using ends_well_socks_parse parse unfolding ends_well_def by blast
    then show ?thesis
      using assms(2,3) init_ack_accepting [OF assms(1)] read parse True e
      by (cases "iend ?d")
        (auto simp: is_Ok_iff socks_accept_def await_def amap_def writes_Ok [OF writes_request_ack])
  qed
qed

section \<open>Properties\<close>

text \<open>
  C32: The SOCKS5 front end answers a request for an IP address: after a greeting that arrives as one
  piece of at most 32 bytes, on the bytes of a request in the format of the SOCKS5 specification
  whose address is an IP address, over a client that keeps accepting data, \<^verbatim>\<open>accept\<close> returns
  the request that the header encodes, writes the method selection and the success reply with the
  given port and nothing else, and leaves the payload unread.
\<close>

theorem socks_accept_request:
  assumes "byte_stream R conn_reader W conn_writer invar view outp" and "invar s"
    and "oend (view s) = Accepting" and "isizes (view s) = length hello # sizes"
    and "hello \<noteq> []" and "length hello \<le> 32"
    and "wf_socks r" and "so_addr r = IpAddr a" and "inp (view s) = hello @ socks_header r @ payload"
  shows "\<exists>s'. socks_accept R W p s = (Ok (socks_into_request r), s') \<and> invar s' \<and>
    view s' = (view s)\<lparr>inp := payload, isizes := sizes,
                       outp := outp (view s) @ [5, 0] @ [5, 0, 0, 1, 127, 0, 0, 1] @ be_bytes 2 p\<rparr> \<and>
    wf_request (socks_into_request r)"
proof -
  have "socks_parse conn_reader ((view s)\<lparr>inp := socks_header r @ payload, isizes := sizes,
        outp := outp (view s) @ greeting\<rparr>) =
      (Ok r, (view s)\<lparr>inp := payload, isizes := sizes, outp := outp (view s) @ greeting\<rparr>)"
    using socks_parse_ip [OF assms(7,8)] by simp
  then have "socks_accept conn_reader conn_writer p (view s) =
      (Ok (socks_into_request r), (view s)\<lparr>inp := payload, isizes := sizes,
         outp := outp (view s) @ greeting @ success_reply p\<rparr>)"
    using socks_accept_run [OF assms(3-6,9), of p] by simp
  then have "socks_accept conn_reader conn_writer p (view s) =
      (Ok (socks_into_request r), (view s)\<lparr>inp := payload, isizes := sizes,
         outp := outp (view s) @ [5, 0] @ [5, 0, 0, 1, 127, 0, 0, 1] @ be_bytes 2 p\<rparr>)"
    by (simp add: greeting_def success_reply_def VERSION_def)
  from simulates_Ok [OF sim_socks_accept [OF assms(1)] assms(2), THEN iffD2, OF this]
  show ?thesis
    using wf_socks_into_request [OF assms(7)] by (elim exE conjE) simp
qed

theorem socks_accept_request_witness:
  "\<exists>s'. socks_accept conn_reader conn_writer 1080
      ((peer ([5, 1, 0] @ [5, 1, 0, 1, 127, 0, 0, 1, 0, 80] @ [9]))\<lparr>isizes := [3]\<rparr>) =
      (Ok (InboundRequest_new IPv4 (from_u32 0x7F000001) Connect 80 TCP SOCKS), s') \<and>
    inp s' = [9] \<and> outp s' = [5, 0, 5, 0, 0, 1, 127, 0, 0, 1, 4, 56]"
proof -
  let ?r = "SocksRequest_new VERSION Connect 0 IPv4 80 (from_u32 0x7F000001)"
  have "socks_header ?r = [5, 1, 0, 1, 127, 0, 0, 1, 0, 80]"
    by (simp add: socks_header_def SocksRequest_new_def VERSION_def from_u32_def) (code_simp)
  moreover have "wf_socks ?r" "so_addr ?r = IpAddr (V4 0x7F000001)"
    by (simp_all add: wf_socks_def SocksRequest_new_def from_u32_def)
  moreover have "be_bytes 2 (1080 :: u16) = [4, 56]"
    by code_simp
  ultimately show ?thesis
    using socks_accept_request [OF conn_stream.byte_stream_axioms TrueI,
        where s = "(peer ([5, 1, 0] @ [5, 1, 0, 1, 127, 0, 0, 1, 0, 80] @ [9]))\<lparr>isizes := [3]\<rparr>"
          and hello = "[5, 1, 0]" and sizes = "[]" and r = ?r and payload = "[9]" and p = 1080 and a = "V4 0x7F000001"]
    by (simp add: socks_into_request_eq SocksRequest_new_def transport_of_def)
qed

text \<open>
  C33: A request for a domain name is misread. On the bytes of a request in the format of the SOCKS5
  specification (length byte, name, port) the parser returns the empty name and the first two bytes
  of the name as the port, and leaves the rest of the name and the real port in the payload.
\<close>

theorem socks_domain_misread:
  assumes "exact_reader R conn_reader invar view obs" and "invar s"
    and "name = a # b # tail"
    and "inp (view s) = [VERSION, command_u8 cmd, rsv, atype_u8 DomainName, of_nat (length name)] @ name @
      be_bytes 2 (p :: u16) @ payload"
  shows "\<exists>s' r. socks_parse R s = (Ok r, s') \<and> so_addr r = from_bytes [] \<and>
    be_bytes 2 (so_port r) = [a, b] \<and> inp (view s') = tail @ be_bytes 2 p @ payload"
proof -
  let ?q = "of_be [a, b] :: u16"
  let ?r = "SocksRequest_new VERSION cmd rsv DomainName ?q (from_bytes [])"
  have q: "be_bytes 2 ?q = [a, b]"
    using be_bytes_of_be [of "[a, b]", where 'a = 16] by (simp add: numeral_2_eq_2)
  have run: "socks_parse conn_reader (view s) = (Ok ?r, (view s)\<lparr>inp := tail @ be_bytes 2 p @ payload\<rparr>)"
    by (rule socks_parse_name [where sz = "of_nat (length name)"]) (use assms(3,4) q in simp)
  have sim: "simulates invar view obs (socks_parse R) (socks_parse conn_reader)"
    by (rule exact_reader.sim_socks_parse [OF assms(1)])
  from simulates_Ok [OF sim assms(2), THEN iffD2, OF run] q show ?thesis
    by (elim exE conjE) (simp add: SocksRequest_new_def)
qed

theorem socks_domain_misread_witness:
  "\<exists>s' r. socks_parse conn_reader (peer ([VERSION, 1, 0, 3, 4] @ [97, 46, 105, 111] @ be_bytes 2 (443 :: u16) @ [])) =
      (Ok r, s') \<and> so_addr r = from_bytes [] \<and> be_bytes 2 (so_port r) = [97, 46]"
  using socks_domain_misread [OF conn_stream.exact_reader_axioms TrueI,
      where s = "peer ([VERSION, 1, 0, 3, 4] @ [97, 46, 105, 111] @ be_bytes 2 (443 :: u16) @ [])"
        and name = "[97, 46, 105, 111]" and cmd = Connect and rsv = 0 and p = 443 and payload = "[]"]
  by auto

text \<open>
  A connection that is not accepted gets no success reply: when \<^verbatim>\<open>accept\<close> fails over an
  accepting peer, it has written nothing or only the method selection, and it never panics.
\<close>

lemma socks_failure_no_reply:
  assumes "byte_stream R conn_reader W conn_writer invar view outp" and "invar s"
    and "oend (view s) = Accepting" and "socks_accept R W p s = (r, s')" and "\<not> is_Ok r"
  shows "outp (view s') \<in> {outp (view s), outp (view s) @ [5, 0]} \<and> (\<forall>msg. r \<noteq> Panic msg)"
proof -
  note sim = sim_socks_accept [OF assms(1)]
  obtain t where t: "socks_accept conn_reader conn_writer p (view s) = (r, t)" "outp (view s') = outp t"
    using simulates_fst [OF sim assms(2), of p] simulates_obs [OF sim assms(2), of p] assms(4)
    by (cases "socks_accept conn_reader conn_writer p (view s)") simp
  with socks_accept_fails [OF assms(3) t(1) assms(5)] show ?thesis
    by (simp add: greeting_def VERSION_def)
qed

lemma socks_failure_no_reply_witness:
  "outp (snd (socks_accept conn_reader conn_writer 1080 ((peer [5, 1, 0, 4])\<lparr>isizes := [3]\<rparr>))) \<in> {[], [5, 0]}"
proof -
  let ?s = "(peer [5, 1, 0, 4])\<lparr>isizes := [3]\<rparr>"
  have "socks_accept conn_reader conn_writer 1080 ?s =
      (Err (Error Unsupported ''Unsupported version number''),
       snd (socks_accept conn_reader conn_writer 1080 ?s))"
    using socks_accept_run [of ?s "[5, 1, 0]" "[]" "[4]" 1080]
    by (simp add: socks_parse_def await_def amap_def conn_read_exact_def VERSION_def of_be_def)
  from socks_failure_no_reply [OF conn_stream.byte_stream_axioms TrueI _ this] show ?thesis
    by simp
qed

end
