(* ===== verification/Async_Poll.thy ===== *)
theory Async_Poll
  imports Async_Io
begin

text \<open>
  The polling level below \<^verbatim>\<open>AsyncReadExt\<close>: \<^verbatim>\<open>AsyncRead::poll_read\<close> as a function, its
  contract as a locale, and the step from a polled source to the reader operations. That step is
  code of \<^verbatim>\<open>tokio\<close>: definitions that need it take it as an argument \<open>ext\<close>, and the locale
  \<open>read_ext\<close> states what its documentation promises. \<open>poll_ext\<close> is a function that keeps
  this promise, by polling until the buffer is full.
\<close>

section \<open>Polled sources\<close>

datatype 'a poll = Ready 'a | Pending

text \<open>
  One call of \<^verbatim>\<open>poll_read\<close> with room for \<open>n\<close> bytes: the result, the bytes that were
  put into the buffer (even if the result is an error), and the new state.
\<close>

type_synonym 's poll_reader = "nat \<Rightarrow> 's \<Rightarrow> unit outcome poll \<times> bytes \<times> 's"

locale poll_source =
  fixes poll :: "'s poll_reader" and invar :: "'s \<Rightarrow> bool" and rest :: "'s \<Rightarrow> bytes"
    and final :: "'s \<Rightarrow> ending" and delay :: "'s \<Rightarrow> nat"
  assumes poll_Ok: "\<lbrakk>invar s; 0 < n; poll n s = (Ready (Ok u), bs, s')\<rbrakk> \<Longrightarrow>
      invar s' \<and> final s' = final s \<and> rest s = bs @ rest s' \<and> length bs \<le> n \<and>
      (bs = [] \<longrightarrow> rest s = [] \<and> final s = Eof)"
    and poll_Err: "\<lbrakk>invar s; 0 < n; poll n s = (Ready (Err e), bs, s')\<rbrakk> \<Longrightarrow>
      rest s = [] \<and> final s = Broken e"
    and poll_Pending: "\<lbrakk>invar s; 0 < n; poll n s = (Pending, bs, s')\<rbrakk> \<Longrightarrow>
      invar s' \<and> final s' = final s \<and> rest s' = rest s \<and> bs = [] \<and>
      (delay s' < delay s \<or> rest s = [] \<and> final s = Open)"
    and poll_no_Panic: "\<lbrakk>invar s; 0 < n\<rbrakk> \<Longrightarrow> poll n s \<noteq> (Ready (Panic p), bs, s')"
    and poll_no_Hang: "\<lbrakk>invar s; 0 < n\<rbrakk> \<Longrightarrow> poll n s \<noteq> (Ready Hang, bs, s')"

text \<open>What a user of the reader operations sees of a polled source.\<close>

definition source_conn :: "('s \<Rightarrow> bytes) \<Rightarrow> ('s \<Rightarrow> ending) \<Rightarrow> 's \<Rightarrow> conn" where
  "source_conn rest final s =
     \<lparr>inp = rest s, iend = final s, isizes = [], outp = [], oend = Accepting\<rparr>"

locale read_ext =
  fixes ext :: "'s poll_reader \<Rightarrow> 's reader"
  assumes ext_reader: "poll_source poll invar rest final delay \<Longrightarrow>
    exact_reader (ext poll) conn_reader invar (source_conn rest final) (\<lambda>_. ())"

section \<open>Sources that may end early\<close>

text \<open>
  A weaker contract, for a source that can report the end of its input at a moment that does not
  depend on the bytes alone. \<open>rest\<close> are the bytes it still holds; the first \<open>firm\<close> of them are
  delivered before anything else can happen. After that it may give no bytes, which its user takes
  for the end, or an error, even though there are bytes left; it may also go on. What it delivers is
  always the next part of \<open>rest\<close>.
\<close>

locale poll_feed =
  fixes poll :: "'s poll_reader" and invar :: "'s \<Rightarrow> bool" and rest :: "'s \<Rightarrow> bytes"
    and firm :: "'s \<Rightarrow> nat" and delay :: "'s \<Rightarrow> nat"
  assumes feed_Ok: "\<lbrakk>invar s; 0 < n; poll n s = (Ready (Ok u), bs, s')\<rbrakk> \<Longrightarrow>
      invar s' \<and> rest s = bs @ rest s' \<and> length bs \<le> n \<and> firm s \<le> length bs + firm s' \<and>
      (bs = [] \<longrightarrow> firm s = 0)"
    and feed_Err: "\<lbrakk>invar s; 0 < n; poll n s = (Ready (Err e), bs, s')\<rbrakk> \<Longrightarrow> invar s' \<and> firm s = 0"
    and feed_Pending: "\<lbrakk>invar s; 0 < n; poll n s = (Pending, bs, s')\<rbrakk> \<Longrightarrow>
      invar s' \<and> rest s' = rest s \<and> firm s \<le> firm s' \<and> (delay s' < delay s \<or> firm s = 0)"
    and feed_no_Panic: "\<lbrakk>invar s; 0 < n\<rbrakk> \<Longrightarrow> poll n s \<noteq> (Ready (Panic p), bs, s')"
    and feed_no_Hang: "\<lbrakk>invar s; 0 < n\<rbrakk> \<Longrightarrow> poll n s \<noteq> (Ready Hang, bs, s')"

text \<open>
  A function that reads from such a source, against the same function on the abstract stream: when
  it succeeds, so does the abstract one, with the same result and the same bytes consumed; when the
  abstract one succeeds within the \<open>firm\<close> bytes, it succeeds; and it panics only when the abstract
  one does.
\<close>

named_theorems follows_intros \<open>rules for functions that read from a source that may end early\<close>

abbreviation feed_conn :: "('s \<Rightarrow> bytes) \<Rightarrow> 's \<Rightarrow> conn" where
  "feed_conn rest \<equiv> source_conn rest (\<lambda>_. Open)"

definition shrinks :: "(conn, 'a) async \<Rightarrow> bool" where
  "shrinks m \<longleftrightarrow> (\<forall>c a c'. m c = (Ok a, c') \<longrightarrow> length (inp c') \<le> length (inp c))"

definition follows ::
  "('s \<Rightarrow> bool) \<Rightarrow> ('s \<Rightarrow> bytes) \<Rightarrow> ('s \<Rightarrow> nat) \<Rightarrow> ('s, 'a) async \<Rightarrow> (conn, 'a) async \<Rightarrow> bool" where
  "follows invar rest firm m m0 \<longleftrightarrow> shrinks m0 \<and>
     (\<forall>s r s' r0 c. invar s \<longrightarrow> m s = (r, s') \<longrightarrow> m0 (feed_conn rest s) = (r0, c) \<longrightarrow> invar s' \<and>
        (is_Ok r \<longrightarrow> r0 = r \<and> c = feed_conn rest s' \<and> firm s + length (rest s') \<le> firm s' + length (rest s)) \<and>
        (is_Ok r0 \<longrightarrow> length (rest s) \<le> firm s + length (inp c) \<longrightarrow> is_Ok r) \<and>
        (\<forall>p. r = Panic p \<longrightarrow> r0 = Panic p))"

locale feed_reader =
  fixes R :: "'s reader" and invar :: "'s \<Rightarrow> bool" and rest :: "'s \<Rightarrow> bytes" and firm :: "'s \<Rightarrow> nat"
  assumes follows_read_exact [follows_intros]: "\<And>n. follows invar rest firm (read_exact R n) (read_exact conn_reader n)"
    and follows_read_u8 [follows_intros]: "follows invar rest firm (read_u8 R) (read_u8 conn_reader)"
    and follows_read_u16 [follows_intros]: "follows invar rest firm (read_u16 R) (read_u16 conn_reader)"
    and follows_read_u32 [follows_intros]: "follows invar rest firm (read_u32 R) (read_u32 conn_reader)"
    and follows_read_u128 [follows_intros]: "follows invar rest firm (read_u128 R) (read_u128 conn_reader)"

text \<open>
  What \<^verbatim>\<open>AsyncReadExt\<close> makes of such a source: the exact reads collect what the polls deliver until
  the buffer is full; no bytes or an error before that is a failure. A single \<^verbatim>\<open>read\<close> returns what
  some poll delivered.
\<close>

locale feed_ext =
  fixes ext :: "'s poll_reader \<Rightarrow> 's reader"
  assumes ext_feed: "poll_feed poll invar rest firm delay \<Longrightarrow> feed_reader (ext poll) invar rest firm"
    and ext_read: "\<lbrakk>poll_feed poll invar rest firm delay; invar s; 0 < n; read (ext poll) n s = (r, s')\<rbrakk> \<Longrightarrow>
      invar s' \<and> (\<forall>p. r \<noteq> Panic p) \<and>
      (\<forall>bs. r = Ok bs \<longrightarrow> rest s = bs @ rest s' \<and> length bs \<le> n \<and> (bs = [] \<longrightarrow> firm s = 0))"

subsection \<open>Rules\<close>

lemma shrinksD: "shrinks m \<Longrightarrow> m c = (Ok a, c') \<Longrightarrow> length (inp c') \<le> length (inp c)"
  unfolding shrinks_def by blast

lemma followsI:
  assumes "shrinks m0"
    and "\<And>s r s' r0 c. \<lbrakk>invar s; m s = (r, s'); m0 (feed_conn rest s) = (r0, c)\<rbrakk> \<Longrightarrow> invar s' \<and>
      (is_Ok r \<longrightarrow> r0 = r \<and> c = feed_conn rest s' \<and> firm s + length (rest s') \<le> firm s' + length (rest s)) \<and>
      (is_Ok r0 \<longrightarrow> length (rest s) \<le> firm s + length (inp c) \<longrightarrow> is_Ok r) \<and> (\<forall>p. r = Panic p \<longrightarrow> r0 = Panic p)"
  shows "follows invar rest firm m m0"
  using assms unfolding follows_def by blast

lemma followsD:
  assumes "follows invar rest firm m m0" and "invar s" and "m s = (r, s')"
  shows "invar s'"
    and "is_Ok r \<Longrightarrow> m0 (feed_conn rest s) = (r, feed_conn rest s') \<and> firm s + length (rest s') \<le> firm s' + length (rest s)"
    and "m0 (feed_conn rest s) = (Ok a, c) \<Longrightarrow> length (rest s) \<le> firm s + length (inp c) \<Longrightarrow> r = Ok a \<and> feed_conn rest s' = c"
    and "r = Panic p \<Longrightarrow> fst (m0 (feed_conn rest s)) = Panic p"
    and "shrinks m0"
proof -
  obtain r0 d where r0: "m0 (feed_conn rest s) = (r0, d)" by (cases "m0 (feed_conn rest s)")
  have all: "shrinks m0" "invar s'"
      "is_Ok r \<longrightarrow> r0 = r \<and> d = feed_conn rest s' \<and> firm s + length (rest s') \<le> firm s' + length (rest s)"
      "is_Ok r0 \<longrightarrow> length (rest s) \<le> firm s + length (inp d) \<longrightarrow> is_Ok r" "\<forall>p. r = Panic p \<longrightarrow> r0 = Panic p"
    using assms r0 unfolding follows_def by blast+
  show "invar s'" "shrinks m0" by fact+
  show "m0 (feed_conn rest s) = (r, feed_conn rest s') \<and> firm s + length (rest s') \<le> firm s' + length (rest s)" if "is_Ok r"
    using all(3) that r0 by simp
  show "r = Ok a \<and> feed_conn rest s' = c" if "m0 (feed_conn rest s) = (Ok a, c)" "length (rest s) \<le> firm s + length (inp c)"
    using all(3,4) that r0 by auto
  show "fst (m0 (feed_conn rest s)) = Panic p" if "r = Panic p"
    using all(5) that r0 by simp
qed

lemma follows_eval [follows_intros]: "follows invar rest firm (eval_outcome r) (eval_outcome r)"
  by (rule followsI) (auto simp: shrinks_def)

lemma follows_return [follows_intros]: "follows invar rest firm (return a) (return a)"
  by (rule followsI) (auto simp: shrinks_def)

lemma follows_fail [follows_intros]: "follows invar rest firm (fail e) (fail e)"
  by (rule followsI) (auto simp: shrinks_def)

lemma follows_try [follows_intros]: "follows invar rest firm (try_result r) (try_result r)"
  by (cases r) (simp_all add: try_result_def follows_fail follows_return)

lemma shrinks_await:
  assumes "shrinks m" and "\<And>a. shrinks (k a)"
  shows "shrinks (await m k)"
  unfolding shrinks_def
proof (intro allI impI)
  fix c b c'
  assume "await m k c = (Ok b, c')"
  then obtain a d where "m c = (Ok a, d)" "k a d = (Ok b, c')" by (rule await_OkE)
  then show "length (inp c') \<le> length (inp c)"
    using shrinksD [OF assms(1)] shrinksD [OF assms(2)] by (meson le_trans)
qed

lemma inp_feed_conn [simp]: "inp (feed_conn rest s) = rest s"
  by (simp add: source_conn_def)

lemma follows_await [follows_intros]:
  assumes m: "follows invar rest firm m m0" and k: "\<And>a. follows invar rest firm (k a) (k0 a)"
  shows "follows invar rest firm (await m k) (await m0 k0)"
proof (rule followsI)
  have "shrinks m0" "shrinks (k0 a)" for a
    using m k unfolding follows_def by blast+
  then show "shrinks (await m0 k0)" by (rule shrinks_await)
  note sh = \<open>\<And>a. shrinks (k0 a)\<close>
  fix s r s' r0 c
  assume s: "invar s" and run: "await m k s = (r, s')" and run0: "await m0 k0 (feed_conn rest s) = (r0, c)"
  obtain q t where q: "m s = (q, t)" by (cases "m s")
  obtain q0 d where q0: "m0 (feed_conn rest s) = (q0, d)" by (cases "m0 (feed_conn rest s)")
  note mD = followsD [OF m s q]
  have stop: "\<not> (is_Ok r0 \<and> length (rest s) \<le> firm s + length (inp c))" if "\<not> is_Ok q"
  proof
    assume ok: "is_Ok r0 \<and> length (rest s) \<le> firm s + length (inp c)"
    then obtain b where "await m0 k0 (feed_conn rest s) = (Ok b, c)" using run0 by (auto simp: is_Ok_iff)
    then obtain a where a: "q0 = Ok a" "k0 a d = (Ok b, c)" using q0 by (auto simp: await_Ok_iff)
    from mD(3) [of a d] shrinksD [OF sh a(2)] ok q0 a(1) that show False by simp
  qed
  show "invar s' \<and>
      (is_Ok r \<longrightarrow> r0 = r \<and> c = feed_conn rest s' \<and> firm s + length (rest s') \<le> firm s' + length (rest s)) \<and>
      (is_Ok r0 \<longrightarrow> length (rest s) \<le> firm s + length (inp c) \<longrightarrow> is_Ok r) \<and> (\<forall>p. r = Panic p \<longrightarrow> r0 = Panic p)"
  proof (cases q)
    case (Ok a)
    with mD(2) q0 have d: "q0 = Ok a" "d = feed_conn rest t" "firm s + length (rest t) \<le> firm t + length (rest s)" by simp_all
    have k1: "k a t = (r, s')" and k2: "k0 a (feed_conn rest t) = (r0, c)"
      using run run0 q q0 Ok d(1,2) by (simp_all add: await_def)
    note kD = followsD [OF k mD(1) k1]
    have "is_Ok r" if "is_Ok r0" "length (rest s) \<le> firm s + length (inp c)"
    proof -
      from that(1) obtain b where "r0 = Ok b" by (auto simp: is_Ok_iff)
      with kD(3) k2 that(2) d(3) show ?thesis by auto
    qed
    moreover have "r0 = r \<and> c = feed_conn rest s' \<and> firm s + length (rest s') \<le> firm s' + length (rest s)" if "is_Ok r"
      using kD(2) [OF that] k2 d(3) by simp
    moreover have "r0 = Panic p" if "r = Panic p" for p
      using kD(4) [OF that] k2 by simp
    ultimately show ?thesis using kD(1) by (intro conjI impI allI) simp_all
  next
    case (Panic p)
    with mD(1,4) q q0 run run0 show ?thesis by (auto simp: await_def)
  next
    case (Err e)
    with stop mD(1) q run show ?thesis by (auto simp: await_def)
  next
    case Hang
    with stop mD(1) q run show ?thesis by (auto simp: await_def)
  qed
qed

lemma follows_amap [follows_intros]:
  "follows invar rest firm m m0 \<Longrightarrow> follows invar rest firm (amap f m) (amap f m0)"
  unfolding amap_def by (intro follows_intros)

section \<open>Polling until the buffer is full\<close>

partial_function (option) poll_exact ::
  "'s poll_reader \<Rightarrow> nat \<Rightarrow> bytes \<Rightarrow> 's \<Rightarrow> (bytes outcome \<times> 's) option" where
  "poll_exact poll n acc s =
     (if n = 0 then Some (Ok acc, s)
      else case poll n s of (r, bs, s') \<Rightarrow>
        (case r of
           Pending \<Rightarrow> poll_exact poll n acc s'
         | Ready q \<Rightarrow>
             (case q of
                Ok _ \<Rightarrow> if bs = [] then Some (Err (Error UnexpectedEof ''early eof''), s')
                        else poll_exact poll (n - length bs) (acc @ bs) s'
              | Err e \<Rightarrow> Some (Err e, s')
              | Panic p \<Rightarrow> Some (Panic p, s')
              | Hang \<Rightarrow> Some (Hang, s'))))"

definition ext_exact :: "'s poll_reader \<Rightarrow> nat \<Rightarrow> ('s, bytes) async" where
  "ext_exact poll n s = (case poll_exact poll n [] s of Some rs \<Rightarrow> rs | None \<Rightarrow> (Hang, s))"

partial_function (option) poll_some ::
  "'s poll_reader \<Rightarrow> nat \<Rightarrow> 's \<Rightarrow> (bytes outcome \<times> 's) option" where
  "poll_some poll n s =
     (case poll n s of (r, bs, s') \<Rightarrow>
        (case r of
           Pending \<Rightarrow> poll_some poll n s'
         | Ready q \<Rightarrow> Some (bind_outcome q (\<lambda>_. Ok bs), s')))"

definition ext_some :: "'s poll_reader \<Rightarrow> nat \<Rightarrow> ('s, bytes) async" where
  "ext_some poll n s = (case poll_some poll n s of Some rs \<Rightarrow> rs | None \<Rightarrow> (Hang, s))"

definition poll_ext :: "'s poll_reader \<Rightarrow> 's reader" where
  "poll_ext poll =
     \<lparr>read_exact = ext_exact poll,
      read_u8 = amap of_be (ext_exact poll 1),
      read_u16 = amap of_be (ext_exact poll 2),
      read_u32 = amap of_be (ext_exact poll 4),
      read_u128 = amap of_be (ext_exact poll 16),
      read = ext_some poll,
      read_buf = ext_some poll\<rparr>"

context poll_source
begin

lemma poll_cases:
  assumes "invar s" and "0 < n"
  obtains (Ok) bs s' where "poll n s = (Ready (Ok ()), bs, s')" "invar s'" "final s' = final s"
      "rest s = bs @ rest s'" "length bs \<le> n" "bs = [] \<Longrightarrow> rest s = [] \<and> final s = Eof"
  | (Err) e bs s' where "poll n s = (Ready (Err e), bs, s')" "rest s = []" "final s = Broken e"
  | (Pending) s' where "poll n s = (Pending, [], s')" "invar s'" "final s' = final s"
      "rest s' = rest s" "delay s' < delay s \<or> rest s = [] \<and> final s = Open"
proof -
  obtain r bs s' where run: "poll n s = (r, bs, s')"
    by (cases "poll n s")
  show thesis
  proof (cases r)
    case (Ready q)
    with run poll_no_Panic [OF assms] poll_no_Hang [OF assms] show thesis
      using poll_Ok [OF assms, of "()" bs s'] poll_Err [OF assms, of _ bs s'] that(1,2)
      by (cases q) auto
  next
    case Pending
    with run poll_Pending [OF assms, of bs s'] that(3) show thesis
      by auto
  qed
qed

lemma poll_exact_enough:
  assumes "invar s" and "n \<le> length (rest s)"
  shows "\<exists>s'. poll_exact poll n acc s = Some (Ok (acc @ take n (rest s)), s') \<and> invar s' \<and>
    rest s' = drop n (rest s) \<and> final s' = final s"
  using assms
proof (induction "(n, delay s)" arbitrary: n acc s rule: wf_induct_rule [OF wf_lex_prod [OF wf_less wf_less]])
  case (1 n s)
  show ?case
  proof (cases "n = 0")
    case True
    then show ?thesis
      using "1.prems" by (subst poll_exact.simps) simp
  next
    case False
    then have "0 < n" by simp
    with "1.prems"(1) show ?thesis
    proof (cases rule: poll_cases)
      case (Ok bs s')
      have "bs \<noteq> []"
        using Ok(6) False "1.prems"(2) by auto
      with "1.hyps" [of "n - length bs" s' "acc @ bs"] Ok False "1.prems"(2) show ?thesis
        by (subst poll_exact.simps) simp
    next
      case (Pending s')
      with "1.hyps" [of n s' acc] False "1.prems"(2) show ?thesis
        by (subst poll_exact.simps) auto
    qed (use "1.prems" False in simp)
  qed
qed

lemma poll_exact_short:
  assumes "invar s" and "length (rest s) < n" and "final s \<noteq> Open"
  shows "\<exists>s'. poll_exact poll n acc s = Some (short_read (final s), s')"
  using assms
proof (induction "(n, delay s)" arbitrary: n acc s rule: wf_induct_rule [OF wf_lex_prod [OF wf_less wf_less]])
  case (1 n s)
  then have "0 < n" by simp
  with "1.prems"(1) show ?case
  proof (cases rule: poll_cases)
    case (Ok bs s')
    show ?thesis
    proof (cases "bs = []")
      case True
      with Ok \<open>0 < n\<close> show ?thesis
        by (subst poll_exact.simps) auto
    next
      case False
      with "1.hyps" [of "n - length bs" s' "acc @ bs"] Ok "1.prems" \<open>0 < n\<close> show ?thesis
        by (subst poll_exact.simps) simp
    qed
  next
    case (Err e bs s')
    with \<open>0 < n\<close> show ?thesis
      by (subst poll_exact.simps) simp
  next
    case (Pending s')
    with "1.hyps" [of n s' acc] \<open>0 < n\<close> "1.prems" show ?thesis
      by (subst poll_exact.simps) auto
  qed
qed

lemma poll_exact_open:
  assumes "invar s" and "length (rest s) < n" and "final s = Open"
  shows "poll_exact poll n acc s = None"
proof (rule ccontr)
  assume "poll_exact poll n acc s \<noteq> None"
  then obtain rs where returned: "poll_exact poll n acc s = Some rs" by blast
  have "poll = poll \<longrightarrow> \<not> (invar s \<and> length (rest s) < n \<and> final s = Open)"
  proof (rule poll_exact.raw_induct [where P = "\<lambda>p n acc s rs. p = poll \<longrightarrow>
      \<not> (invar s \<and> length (rest s) < n \<and> final s = Open)", OF _ returned], rule impI, rule notI)
    fix pe :: "'s poll_reader \<Rightarrow> nat \<Rightarrow> bytes \<Rightarrow> 's \<Rightarrow> (bytes outcome \<times> 's) option"
      and p n acc s rs
    assume IH: "\<And>p n acc s rs. pe p n acc s = Some rs \<Longrightarrow>
        p = poll \<longrightarrow> \<not> (invar s \<and> length (rest s) < n \<and> final s = Open)"
      and eq: "(if n = 0 then Some (Ok acc, s)
      else case p n s of (r, bs, s') \<Rightarrow>
        (case r of
           Pending \<Rightarrow> pe p n acc s'
         | Ready q \<Rightarrow>
             (case q of
                Ok _ \<Rightarrow> if bs = [] then Some (Err (Error UnexpectedEof ''early eof''), s')
                        else pe p (n - length bs) (acc @ bs) s'
              | Err e \<Rightarrow> Some (Err e, s')
              | Panic p \<Rightarrow> Some (Panic p, s')
              | Hang \<Rightarrow> Some (Hang, s')))) = Some rs"
      and p: "p = poll" and st: "invar s \<and> length (rest s) < n \<and> final s = Open"
    have "invar s" and "0 < n" using st by auto
    then show False
    proof (cases rule: poll_cases)
      case (Ok bs s')
      then have "bs \<noteq> []" using st by auto
      with eq p Ok \<open>0 < n\<close> have "pe poll (n - length bs) (acc @ bs) s' = Some rs" by simp
      from IH [OF this] Ok st show False by auto
    next
      case (Pending s')
      with eq p \<open>0 < n\<close> have "pe poll n acc s' = Some rs" by simp
      from IH [OF this] Pending st show False by auto
    qed (use st in simp)
  qed
  with assms show False by simp
qed

lemma simulates_ext_exact:
  "simulates invar (source_conn rest final) (\<lambda>_. ()) (ext_exact poll n) (conn_read_exact n)"
proof (rule simulatesI, goal_cases)
  case (1 s r s' r0 t')
  show ?case
  proof (cases "n \<le> length (rest s)")
    case True
    with poll_exact_enough [OF 1(1) True, of "[]"] 1 show ?thesis
      by (auto simp: ext_exact_def conn_read_exact_def source_conn_def)
  next
    case False
    then have short: "length (rest s) < n" by simp
    show ?thesis
    proof (cases "final s = Open")
      case True
      with poll_exact_open [OF 1(1) short True, of "[]"] 1 short show ?thesis
        by (auto simp: ext_exact_def conn_read_exact_def source_conn_def)
    next
      case False
      with poll_exact_short [OF 1(1) short False, of "[]"] 1 short show ?thesis
        by (cases "final s") (auto simp: ext_exact_def conn_read_exact_def source_conn_def)
    qed
  qed
qed

lemma poll_ext_exact_reader:
  "exact_reader (poll_ext poll) conn_reader invar (source_conn rest final) (\<lambda>_. ())"
  by unfold_locales (simp_all add: poll_ext_def simulates_ext_exact simulates_amap)

end

context poll_feed
begin

lemma feed_cases:
  assumes "invar s" and "0 < n"
  obtains (Ok) bs s' where "poll n s = (Ready (Ok ()), bs, s')" "invar s'" "rest s = bs @ rest s'"
      "length bs \<le> n" "firm s \<le> length bs + firm s'" "bs = [] \<Longrightarrow> firm s = 0"
  | (Err) e bs s' where "poll n s = (Ready (Err e), bs, s')" "invar s'" "firm s = 0"
  | (Pending) bs s' where "poll n s = (Pending, bs, s')" "invar s'" "rest s' = rest s" "firm s \<le> firm s'"
      "delay s' < delay s \<or> firm s = 0"
proof -
  obtain r bs s' where run: "poll n s = (r, bs, s')"
    by (cases "poll n s")
  show thesis
  proof (cases r)
    case (Ready q)
    with run feed_no_Panic [OF assms] feed_no_Hang [OF assms] show thesis
      using feed_Ok [OF assms, of "()" bs s'] feed_Err [OF assms, of _ bs s'] that(1,2)
      by (cases q) auto
  next
    case Pending
    with run feed_Pending [OF assms, of bs s'] that(3) show thesis
      by auto
  qed
qed

lemma poll_exact_firm:
  assumes "invar s" and "n \<le> firm s"
  shows "\<exists>bs s'. poll_exact poll n acc s = Some (Ok bs, s')"
  using assms
proof (induction "(n, delay s)" arbitrary: n acc s rule: wf_induct_rule [OF wf_lex_prod [OF wf_less wf_less]])
  case (1 n s)
  show ?case
  proof (cases "n = 0")
    case True
    then show ?thesis by (subst poll_exact.simps) simp
  next
    case False
    then have "0 < n" by simp
    with "1.prems"(1) show ?thesis
    proof (cases rule: feed_cases)
      case (Ok bs s')
      have "bs \<noteq> []"
        using Ok(6) False "1.prems"(2) by auto
      with "1.hyps" [of "n - length bs" s' "acc @ bs"] Ok False "1.prems"(2) show ?thesis
        by (subst poll_exact.simps) simp
    next
      case (Pending bs s')
      with "1.hyps" [of n s' acc] False "1.prems"(2) show ?thesis
        by (subst poll_exact.simps) auto
    qed (use "1.prems" False in simp)
  qed
qed

lemma poll_exact_feed:
  assumes "poll_exact poll n acc s = Some (r, s')" and "invar s"
  shows "invar s' \<and> (\<forall>p. r \<noteq> Panic p) \<and>
    (\<forall>a. r = Ok a \<longrightarrow> (\<exists>bs. a = acc @ bs \<and> length bs = n \<and> rest s = bs @ rest s' \<and> firm s \<le> n + firm s'))"
proof -
  let ?Q = "\<lambda>n acc s rs. invar (snd rs) \<and> (\<forall>p. fst rs \<noteq> Panic p) \<and>
    (\<forall>a. fst rs = Ok a \<longrightarrow> (\<exists>bs. a = acc @ bs \<and> length bs = n \<and> rest s = bs @ rest (snd rs) \<and> firm s \<le> n + firm (snd rs)))"
  have "poll = poll \<longrightarrow> invar s \<longrightarrow> ?Q n acc s (r, s')"
  proof (rule poll_exact.raw_induct [where P = "\<lambda>p n acc s rs. p = poll \<longrightarrow> invar s \<longrightarrow> ?Q n acc s rs", OF _ assms(1)],
      intro impI)
    fix pe :: "'s poll_reader \<Rightarrow> nat \<Rightarrow> bytes \<Rightarrow> 's \<Rightarrow> (bytes outcome \<times> 's) option"
      and p n acc s rs
    assume IH: "\<And>p n acc s rs. pe p n acc s = Some rs \<Longrightarrow> p = poll \<longrightarrow> invar s \<longrightarrow> ?Q n acc s rs"
      and eq: "(if n = 0 then Some (Ok acc, s)
      else case p n s of (r, bs, s') \<Rightarrow>
        (case r of
           Pending \<Rightarrow> pe p n acc s'
         | Ready q \<Rightarrow>
             (case q of
                Ok _ \<Rightarrow> if bs = [] then Some (Err (Error UnexpectedEof ''early eof''), s')
                        else pe p (n - length bs) (acc @ bs) s'
              | Err e \<Rightarrow> Some (Err e, s')
              | Panic p \<Rightarrow> Some (Panic p, s')
              | Hang \<Rightarrow> Some (Hang, s')))) = Some rs"
      and p: "p = poll" and s: "invar s"
    show "?Q n acc s rs"
    proof (cases "n = 0")
      case True
      with eq s show ?thesis by auto
    next
      case False
      then have "0 < n" by simp
      with s show ?thesis
      proof (cases rule: feed_cases)
        case (Ok bs t)
        show ?thesis
        proof (cases "bs = []")
          case True
          with eq p Ok \<open>0 < n\<close> show ?thesis by auto
        next
          case False
          with eq p Ok \<open>0 < n\<close> have "pe poll (n - length bs) (acc @ bs) t = Some rs" by simp
          from IH [OF this] Ok have rs: "?Q (n - length bs) (acc @ bs) t rs" by simp
          have "\<exists>cs. a = acc @ cs \<and> length cs = n \<and> rest s = cs @ rest (snd rs) \<and> firm s \<le> n + firm (snd rs)"
            if "fst rs = Ok a" for a
          proof -
            from rs that obtain cs where "a = (acc @ bs) @ cs" "length cs = n - length bs" "rest t = cs @ rest (snd rs)"
                "firm t \<le> n - length bs + firm (snd rs)" by auto
            with Ok show ?thesis by (intro exI [of _ "bs @ cs"]) simp
          qed
          with rs show ?thesis by simp
        qed
      next
        case (Err e bs t)
        with eq p \<open>0 < n\<close> show ?thesis by auto
      next
        case (Pending bs t)
        with eq p \<open>0 < n\<close> have "pe poll n acc t = Some rs" by simp
        from IH [OF this] Pending show ?thesis by fastforce
      qed
    qed
  qed
  with assms(2) show ?thesis by simp
qed

lemma follows_ext_exact: "follows invar rest firm (ext_exact poll n) (conn_read_exact n)"
proof (rule followsI)
  show "shrinks (conn_read_exact n)"
    by (auto simp: shrinks_def conn_read_exact_Ok)
  fix s r s' r0 c
  assume s: "invar s" and run: "ext_exact poll n s = (r, s')" and run0: "conn_read_exact n (feed_conn rest s) = (r0, c)"
  have firm: "is_Ok r" if "n \<le> firm s"
    using poll_exact_firm [OF s that, of "[]"] run by (auto simp: ext_exact_def)
  have used: "length (rest s) \<le> firm s + length (inp c) \<Longrightarrow> is_Ok r0 \<Longrightarrow> n \<le> firm s"
    using run0 by (auto simp: is_Ok_iff conn_read_exact_Ok)
  show "invar s' \<and>
      (is_Ok r \<longrightarrow> r0 = r \<and> c = feed_conn rest s' \<and> firm s + length (rest s') \<le> firm s' + length (rest s)) \<and>
      (is_Ok r0 \<longrightarrow> length (rest s) \<le> firm s + length (inp c) \<longrightarrow> is_Ok r) \<and> (\<forall>p. r = Panic p \<longrightarrow> r0 = Panic p)"
  proof (cases "poll_exact poll n [] s")
    case None
    with run s firm used show ?thesis by (auto simp: ext_exact_def)
  next
    case (Some rs)
    then have "poll_exact poll n [] s = Some (r, s')"
      using run by (simp add: ext_exact_def)
    note res = poll_exact_feed [OF this s]
    have "r0 = r \<and> c = feed_conn rest s' \<and> firm s + length (rest s') \<le> firm s' + length (rest s)" if "is_Ok r"
    proof -
      from that res obtain bs where "r = Ok bs" "length bs = n" "rest s = bs @ rest s'" "firm s \<le> n + firm s'"
        by (auto simp: is_Ok_iff)
      with run0 show ?thesis by (auto simp: conn_read_exact_def source_conn_def)
    qed
    with res firm used show ?thesis by blast
  qed
qed

lemma poll_ext_feed_reader: "feed_reader (poll_ext poll) invar rest firm"
  by unfold_locales (simp_all add: poll_ext_def follows_ext_exact follows_amap)

lemma poll_some_feed:
  assumes "poll_some poll n s = Some (r, s')" and "invar s" and "0 < n"
  shows "invar s' \<and> (\<forall>p. r \<noteq> Panic p) \<and>
    (\<forall>bs. r = Ok bs \<longrightarrow> rest s = bs @ rest s' \<and> length bs \<le> n \<and> (bs = [] \<longrightarrow> firm s = 0))"
proof -
  let ?Q = "\<lambda>n s rs. invar (snd rs) \<and> (\<forall>p. fst rs \<noteq> Panic p) \<and>
    (\<forall>bs. fst rs = Ok bs \<longrightarrow> rest s = bs @ rest (snd rs) \<and> length bs \<le> n \<and> (bs = [] \<longrightarrow> firm s = 0))"
  have "poll = poll \<longrightarrow> invar s \<longrightarrow> 0 < n \<longrightarrow> ?Q n s (r, s')"
  proof (rule poll_some.raw_induct [where P = "\<lambda>p n s rs. p = poll \<longrightarrow> invar s \<longrightarrow> 0 < n \<longrightarrow> ?Q n s rs", OF _ assms(1)],
      intro impI)
    fix ps :: "'s poll_reader \<Rightarrow> nat \<Rightarrow> 's \<Rightarrow> (bytes outcome \<times> 's) option" and p n s rs
    assume IH: "\<And>p n s rs. ps p n s = Some rs \<Longrightarrow> p = poll \<longrightarrow> invar s \<longrightarrow> 0 < n \<longrightarrow> ?Q n s rs"
      and eq: "(case p n s of (r, bs, s') \<Rightarrow>
        (case r of
           Pending \<Rightarrow> ps p n s'
         | Ready q \<Rightarrow> Some (bind_outcome q (\<lambda>_. Ok bs), s'))) = Some rs"
      and p: "p = poll" and s: "invar s" and n: "0 < n"
    from s n show "?Q n s rs"
    proof (cases rule: feed_cases)
      case (Pending bs t)
      with eq p have "ps poll n t = Some rs" by simp
      from IH [OF this] Pending n show ?thesis by auto
    qed (use eq p in auto)
  qed
  with assms(2,3) show ?thesis by simp
qed

lemma poll_ext_feed_read:
  assumes "invar s" and "0 < n" and "read (poll_ext poll) n s = (r, s')"
  shows "invar s' \<and> (\<forall>p. r \<noteq> Panic p) \<and>
    (\<forall>bs. r = Ok bs \<longrightarrow> rest s = bs @ rest s' \<and> length bs \<le> n \<and> (bs = [] \<longrightarrow> firm s = 0))"
proof (cases "poll_some poll n s")
  case None
  with assms show ?thesis by (auto simp: poll_ext_def ext_some_def)
next
  case (Some rs)
  then have "poll_some poll n s = Some (r, s')"
    using assms(3) by (simp add: poll_ext_def ext_some_def)
  from poll_some_feed [OF this assms(1,2)] show ?thesis .
qed

end

interpretation poll_ext: read_ext poll_ext
  by (rule read_ext.intro) (rule poll_source.poll_ext_exact_reader)

interpretation poll_ext_feed: feed_ext poll_ext
  by (rule feed_ext.intro) (rule poll_feed.poll_ext_feed_reader, assumption, rule poll_feed.poll_ext_feed_read)

end
