(* ===== verification/Grpc_Stream.thy ===== *)
theory Grpc_Stream
  imports Async_Poll
begin

text \<open>
  The stream adapters of \<^verbatim>\<open>src/transport/grpc_stream.rs\<close>: \<^verbatim>\<open>GrpcDataReaderStream\<close> turns a
  stream of gRPC packets into bytes, \<^verbatim>\<open>GrpcHunkRequestStream\<close> and
  \<^verbatim>\<open>GrpcHunkResponseStream\<close> turn bytes into packets. The packet stream under the first
  (\<^verbatim>\<open>tonic::Streaming\<close>) and the reader under the others are arguments. The lemmas show
  that the data reader delivers the bytes of the packets in order, whatever the packets and the end of
  their stream are, and reports the end of the stream at an empty packet; that it is a byte source
  when no packet is empty and the stream stays open; that the packers are packet sources; and that
  the two compose to the identity on bytes.
\<close>

section \<open>Packets and buffers\<close>

record Hunk =
  data :: bytes

datatype Status = Aborted string | OtherStatus string

text \<open>\<^verbatim>\<open>tokio::io::ReadBuf\<close> as its capacity and filled part; \<^verbatim>\<open>put_slice\<close> asserts the room.\<close>

record ReadBuf =
  capacity :: nat
  filled :: bytes

definition remaining :: "ReadBuf \<Rightarrow> nat" where
  "remaining b = capacity b - length (filled b)"

definition put_slice :: "bytes \<Rightarrow> ReadBuf \<Rightarrow> ReadBuf outcome" where
  "put_slice bs b =
     (if length bs \<le> remaining b then Ok (b\<lparr>filled := filled b @ bs\<rparr>)
      else Panic ''buf.len() must fit in remaining()'')"

text \<open>The slices \<^verbatim>\<open>v[..n]\<close> and \<^verbatim>\<open>v[n..]\<close> panic when \<open>n\<close> is out of range.\<close>

definition slice_to :: "nat \<Rightarrow> bytes \<Rightarrow> bytes outcome" where
  "slice_to n v = (if n \<le> length v then Ok (take n v) else Panic ''slice index out of range'')"

definition slice_from :: "nat \<Rightarrow> bytes \<Rightarrow> bytes outcome" where
  "slice_from n v = (if n \<le> length v then Ok (drop n v) else Panic ''slice index out of range'')"

section \<open>Reading bytes from packets\<close>

type_synonym 'r hunk_stream = "'r \<Rightarrow> (Status + Hunk) option outcome poll \<times> 'r"

record 'r GrpcDataReaderStream =
  reader :: 'r
  buf :: bytes

definition from_reader :: "'r \<Rightarrow> 'r GrpcDataReaderStream" where
  "from_reader r = \<lparr>reader = r, buf = []\<rparr>"

text \<open>
  The first half of \<^verbatim>\<open>poll_read\<close>: empty the internal buffer into the read buffer. \<open>Inr\<close>
  is the early return when the read buffer is full.
\<close>

definition drain_buf ::
  "'r GrpcDataReaderStream \<Rightarrow> ReadBuf \<Rightarrow>
   ('r GrpcDataReaderStream \<times> ReadBuf + 'r GrpcDataReaderStream \<times> ReadBuf) outcome" where
  "drain_buf self b =
     (if buf self \<noteq> [] then
        if length (buf self) \<le> remaining b then
          bind_outcome (put_slice (buf self) b) (\<lambda>b'.
          Ok (Inl (self\<lparr>buf := []\<rparr>, b')))
        else
          let read_len = remaining b in
          bind_outcome (slice_to read_len (buf self)) (\<lambda>part.
          bind_outcome (put_slice part b) (\<lambda>b'.
          bind_outcome (slice_from read_len (buf self)) (\<lambda>adv.
          Ok (Inr (self\<lparr>buf := adv\<rparr>, b')))))
      else Ok (Inl (self, b)))"

definition poll_read ::
  "'r hunk_stream \<Rightarrow> 'r GrpcDataReaderStream \<Rightarrow> ReadBuf \<Rightarrow>
   (unit outcome poll \<times> 'r GrpcDataReaderStream \<times> ReadBuf) outcome" where
  "poll_read poll_next self b =
     (let has_new_data = (buf self \<noteq> []) in
      bind_outcome (drain_buf self b) (\<lambda>d.
      case d of
        Inr (self', b') \<Rightarrow> Ok (Ready (Ok ()), self', b')
      | Inl (self', b') \<Rightarrow>
          (case poll_next (reader self') of
             (Pending, r) \<Rightarrow>
               if has_new_data then Ok (Ready (Ok ()), self'\<lparr>reader := r\<rparr>, b')
               else Ok (Pending, self'\<lparr>reader := r\<rparr>, b')
           | (Ready q, r) \<Rightarrow>
               bind_outcome q (\<lambda>item.
               case item of
                 None \<Rightarrow>
                   Ok (Ready (Err (Error BrokenPipe ''Failed to read'')), self'\<lparr>reader := r\<rparr>, b')
               | Some (Inl _) \<Rightarrow>
                   Ok (Ready (Err (Error BrokenPipe ''Failed to read'')), self'\<lparr>reader := r\<rparr>, b')
               | Some (Inr packet) \<Rightarrow>
                   if length (data packet) \<le> remaining b' then
                     bind_outcome (put_slice (data packet) b') (\<lambda>b''.
                     Ok (Ready (Ok ()), self'\<lparr>reader := r\<rparr>, b''))
                   else
                     let rem = remaining b' in
                     bind_outcome (slice_to rem (data packet)) (\<lambda>part.
                     bind_outcome (put_slice part b') (\<lambda>b''.
                     bind_outcome (slice_from rem (data packet)) (\<lambda>left.
                     Ok (Ready (Ok ()), self'\<lparr>reader := r, buf := buf self' @ left\<rparr>, b'')))))))) "

text \<open>The same call as a polled source: an empty read buffer of size \<open>n\<close>.\<close>

definition grpc_poll :: "'r hunk_stream \<Rightarrow> 'r GrpcDataReaderStream poll_reader" where
  "grpc_poll poll_next n self =
     (case poll_read poll_next self \<lparr>capacity = n, filled = []\<rparr> of
        Ok (r, self', b) \<Rightarrow> (r, filled b, self')
      | Err e \<Rightarrow> (Ready (Err e), [], self)
      | Panic p \<Rightarrow> (Ready (Panic p), [], self)
      | Hang \<Rightarrow> (Ready Hang, [], self))"

section \<open>Packing bytes into packets\<close>

record 'i GrpcHunkRequestStream =
  req_inner :: 'i

record 'i GrpcHunkResponseStream =
  resp_inner :: 'i

definition GrpcHunkRequestStream_new :: "'i \<Rightarrow> 'i GrpcHunkRequestStream" where
  "GrpcHunkRequestStream_new i = \<lparr>req_inner = i\<rparr>"

definition GrpcHunkResponseStream_new :: "'i \<Rightarrow> 'i GrpcHunkResponseStream" where
  "GrpcHunkResponseStream_new i = \<lparr>resp_inner = i\<rparr>"

definition request_poll_next ::
  "'i poll_reader \<Rightarrow> 'i GrpcHunkRequestStream \<Rightarrow> Hunk option outcome poll \<times> 'i GrpcHunkRequestStream" where
  "request_poll_next poll self =
     (case poll 4096 (req_inner self) of
        (Pending, _, i) \<Rightarrow> (Pending, self\<lparr>req_inner := i\<rparr>)
      | (Ready (Ok _), bs, i) \<Rightarrow> (Ready (Ok (Some \<lparr>data = bs\<rparr>)), self\<lparr>req_inner := i\<rparr>)
      | (Ready (Err _), _, i) \<Rightarrow> (Ready (Ok None), self\<lparr>req_inner := i\<rparr>)
      | (Ready (Panic p), _, i) \<Rightarrow> (Ready (Panic p), self\<lparr>req_inner := i\<rparr>)
      | (Ready Hang, _, i) \<Rightarrow> (Ready Hang, self\<lparr>req_inner := i\<rparr>))"

definition response_poll_next ::
  "'i poll_reader \<Rightarrow> 'i GrpcHunkResponseStream hunk_stream" where
  "response_poll_next poll self =
     (case poll 4096 (resp_inner self) of
        (Pending, _, i) \<Rightarrow> (Pending, self\<lparr>resp_inner := i\<rparr>)
      | (Ready (Ok _), bs, i) \<Rightarrow> (Ready (Ok (Some (Inr \<lparr>data = bs\<rparr>))), self\<lparr>resp_inner := i\<rparr>)
      | (Ready (Err _), _, i) \<Rightarrow>
          (Ready (Ok (Some (Inl (Aborted ''Failed to poll the data'')))), self\<lparr>resp_inner := i\<rparr>)
      | (Ready (Panic p), _, i) \<Rightarrow> (Ready (Panic p), self\<lparr>resp_inner := i\<rparr>)
      | (Ready Hang, _, i) \<Rightarrow> (Ready Hang, self\<lparr>resp_inner := i\<rparr>))"

section \<open>Message streams\<close>

text \<open>
  The contract of \<^verbatim>\<open>tonic::Streaming\<close>: the messages of the peer arrive whole and in order, each
  with any number of bytes, none included. \<open>queue\<close> are the messages still to come and \<open>final\<close>
  what follows them: the end of the stream, an error status, or silence. A poll that finds nothing
  yet is followed by one that does, unless the peer is silent.
\<close>

locale message_source =
  fixes poll_next :: "'r hunk_stream" and invar :: "'r \<Rightarrow> bool" and queue :: "'r \<Rightarrow> bytes list"
    and final :: "'r \<Rightarrow> ending" and delay :: "'r \<Rightarrow> nat"
  assumes next_Hunk: "\<lbrakk>invar r; poll_next r = (Ready (Ok (Some (Inr h))), r')\<rbrakk> \<Longrightarrow>
      invar r' \<and> final r' = final r \<and> queue r = data h # queue r'"
    and next_Status: "\<lbrakk>invar r; poll_next r = (Ready (Ok (Some (Inl st))), r')\<rbrakk> \<Longrightarrow>
      invar r' \<and> queue r = [] \<and> final r \<noteq> Open"
    and next_None: "\<lbrakk>invar r; poll_next r = (Ready (Ok None), r')\<rbrakk> \<Longrightarrow>
      invar r' \<and> queue r = [] \<and> final r \<noteq> Open"
    and next_Pending: "\<lbrakk>invar r; poll_next r = (Pending, r')\<rbrakk> \<Longrightarrow>
      invar r' \<and> final r' = final r \<and> queue r' = queue r \<and>
      (delay r' < delay r \<or> queue r = [] \<and> final r = Open)"
    and next_Ok: "\<lbrakk>invar r; poll_next r = (Ready q, r')\<rbrakk> \<Longrightarrow> is_Ok q"

text \<open>
  The number of bytes of these messages that a reader gets before an empty message or the end of
  the stream can come between: an empty message stops it, and so does the end of the stream after
  the last message.
\<close>

fun certain :: "ending \<Rightarrow> bytes list \<Rightarrow> nat" where
  "certain e [] = 0"
| "certain e (m # ms) = (if m = [] \<or> ms = [] \<and> e \<noteq> Open then 0 else length m + certain e ms)"

lemma certain_append:
  assumes "[] \<notin> set hs" and "ms \<noteq> [] \<or> e = Open"
  shows "length (concat hs) \<le> certain e (hs @ ms)"
  using assms by (induction hs) auto

locale live_source = poll_source +
  assumes live: "invar s \<Longrightarrow> final s = Open"

section \<open>The data reader is a byte source\<close>

lemmas outcome_step_defs = put_slice_def slice_to_def slice_from_def remaining_def Let_def

lemma drain_buf_fits:
  "length (filled b) \<le> capacity b \<Longrightarrow> drain_buf self b =
     (if length (buf self) \<le> remaining b
      then Ok (Inl (self\<lparr>buf := []\<rparr>, b\<lparr>filled := filled b @ buf self\<rparr>))
      else Ok (Inr (self\<lparr>buf := drop (remaining b) (buf self)\<rparr>,
                    b\<lparr>filled := filled b @ take (remaining b) (buf self)\<rparr>)))"
  by (cases self; cases b) (simp add: drain_buf_def outcome_step_defs)

lemma poll_read_eq:
  assumes "length (filled b) \<le> capacity b"
  shows "poll_read poll_next self b =
     (if length (buf self) \<le> remaining b then
        let b' = b\<lparr>filled := filled b @ buf self\<rparr>; m = remaining b' in
        (case poll_next (reader self) of
           (Pending, r) \<Rightarrow>
             Ok (if buf self \<noteq> [] then Ready (Ok ()) else Pending, self\<lparr>reader := r, buf := []\<rparr>, b')
         | (Ready q, r) \<Rightarrow>
             bind_outcome q (\<lambda>item. case item of
               Some (Inr h) \<Rightarrow>
                 Ok (Ready (Ok ()), self\<lparr>reader := r, buf := drop m (data h)\<rparr>,
                     b'\<lparr>filled := filled b' @ take m (data h)\<rparr>)
             | _ \<Rightarrow> Ok (Ready (Err (Error BrokenPipe ''Failed to read'')), self\<lparr>reader := r, buf := []\<rparr>, b')))
      else Ok (Ready (Ok ()), self\<lparr>buf := drop (remaining b) (buf self)\<rparr>,
               b\<lparr>filled := filled b @ take (remaining b) (buf self)\<rparr>))"
proof (cases "length (buf self) \<le> remaining b")
  case True
  obtain p r where nxt: "poll_next (reader self) = (p, r)"
    by (cases "poll_next (reader self)")
  show ?thesis
  proof (cases p)
    case (Ready q)
    with True nxt assms show ?thesis
      by (cases q; cases self)
        (auto simp: poll_read_def drain_buf_fits outcome_step_defs split: option.split sum.split)
  next
    case Pending
    with True nxt assms show ?thesis
      by (cases self) (auto simp: poll_read_def drain_buf_fits outcome_step_defs)
  qed
qed (use assms in \<open>simp add: poll_read_def drain_buf_fits\<close>)

lemma grpc_poll_steps:
  "n < length (buf s) \<Longrightarrow> grpc_poll poll_next n s = (Ready (Ok ()), take n (buf s), s\<lparr>buf := drop n (buf s)\<rparr>)"
  "length (buf s) \<le> n \<Longrightarrow> poll_next (reader s) = (Pending, r) \<Longrightarrow>
     grpc_poll poll_next n s = (if buf s \<noteq> [] then Ready (Ok ()) else Pending, buf s, s\<lparr>reader := r, buf := []\<rparr>)"
  "length (buf s) \<le> n \<Longrightarrow> poll_next (reader s) = (Ready (Ok (Some (Inr h))), r) \<Longrightarrow>
     grpc_poll poll_next n s = (Ready (Ok ()), buf s @ take (n - length (buf s)) (data h),
       s\<lparr>reader := r, buf := drop (n - length (buf s)) (data h)\<rparr>)"
  "length (buf s) \<le> n \<Longrightarrow> poll_next (reader s) = (Ready (Ok None), r) \<or>
       poll_next (reader s) = (Ready (Ok (Some (Inl st))), r) \<Longrightarrow>
     grpc_poll poll_next n s = (Ready (Err (Error BrokenPipe ''Failed to read'')), buf s, s\<lparr>reader := r, buf := []\<rparr>)"
  by (auto simp: grpc_poll_def poll_read_eq remaining_def Let_def)

context message_source
begin

abbreviation unread :: "'r GrpcDataReaderStream \<Rightarrow> bytes" where
  "unread s \<equiv> buf s @ concat (queue (reader s))"

text \<open>The bytes that come before the first empty message or the end of the stream.\<close>

abbreviation firm :: "'r GrpcDataReaderStream \<Rightarrow> nat" where
  "firm s \<equiv> (if queue (reader s) = [] \<and> final (reader s) \<noteq> Open then 0
     else length (buf s) + certain (final (reader s)) (queue (reader s)))"

lemma grpc_poll_cases:
  assumes "invar (reader s)" and "0 < n"
  obtains (Ok) bs s' where "grpc_poll poll_next n s = (Ready (Ok ()), bs, s')" "invar (reader s')"
      "final (reader s') = final (reader s)" "unread s = bs @ unread s'" "length bs \<le> n"
      "bs = [] \<longleftrightarrow> buf s = [] \<and> (\<exists>ms. queue (reader s) = [] # ms)" "set (queue (reader s')) \<subseteq> set (queue (reader s))"
      "firm s \<le> length bs + firm s'"
  | (Err) s' where "grpc_poll poll_next n s = (Ready (Err (Error BrokenPipe ''Failed to read'')), buf s, s')"
      "invar (reader s')" "queue (reader s) = []" "final (reader s) \<noteq> Open"
  | (Pending) s' where "grpc_poll poll_next n s = (Pending, [], s')" "invar (reader s')"
      "final (reader s') = final (reader s)" "buf s = []" "buf s' = []" "queue (reader s') = queue (reader s)"
      "delay (reader s') < delay (reader s) \<or> queue (reader s) = [] \<and> final (reader s) = Open"
proof (cases "length (buf s) \<le> n")
  case False
  then have "buf s \<noteq> []" "n < length (buf s)" by auto
  with assms show thesis
    using that(1) [OF grpc_poll_steps(1)] by (auto simp: grpc_poll_steps)
next
  case True
  obtain p r where nxt: "poll_next (reader s) = (p, r)"
    by (cases "poll_next (reader s)")
  show thesis
  proof (cases p)
    case Pending
    with nxt next_Pending [OF assms(1)] have r: "invar r" "final r = final (reader s)" "queue r = queue (reader s)"
        "delay r < delay (reader s) \<or> queue (reader s) = [] \<and> final (reader s) = Open" by auto
    note step = grpc_poll_steps(2) [where poll_next = poll_next, OF True nxt [unfolded Pending]]
    show thesis
    proof (cases "buf s = []")
      case True
      with that(3) [of "s\<lparr>reader := r, buf := []\<rparr>"] step r show thesis by simp
    next
      case False
      with that(1) [of "buf s" "s\<lparr>reader := r, buf := []\<rparr>"] step r \<open>length (buf s) \<le> n\<close> show thesis by simp
    qed
  next
    case (Ready q)
    then obtain item where q: "q = Ok item"
      using next_Ok [OF assms(1)] nxt by (auto simp: is_Ok_iff)
    show thesis
    proof (cases "\<exists>h. item = Some (Inr h)")
      case True
      then obtain h where h: "item = Some (Inr h)" by blast
      with nxt Ready q next_Hunk [OF assms(1)] have r: "invar r" "final r = final (reader s)"
          "queue (reader s) = data h # queue r" by auto
      note step = grpc_poll_steps(3) [where poll_next = poll_next, OF \<open>length (buf s) \<le> n\<close> nxt [unfolded Ready q h]]
      show thesis
        by (rule that(1) [OF step]) (use r \<open>length (buf s) \<le> n\<close> assms(2) in auto)
    next
      case False
      then have "item = None \<or> (\<exists>st. item = Some (Inl st))"
        by (cases item; cases "the item") auto
      with nxt Ready q next_None [OF assms(1)] next_Status [OF assms(1)] that(2) grpc_poll_steps(4) [where poll_next = poll_next, OF \<open>length (buf s) \<le> n\<close>]
      show thesis by fastforce
    qed
  qed
qed

lemma data_feed:
  "poll_feed (grpc_poll poll_next) (\<lambda>s. invar (reader s)) unread firm (\<lambda>s. delay (reader s))"
proof (unfold_locales, goal_cases)
  case (1 s n u bs s')
  from 1(1,2) show ?case by (cases rule: grpc_poll_cases) (use 1 in auto)
next
  case (2 s n e bs s')
  from 2(1,2) show ?case by (cases rule: grpc_poll_cases) (use 2 in auto)
next
  case (3 s n bs s')
  from 3(1,2) show ?case by (cases rule: grpc_poll_cases) (use 3 in auto)
next
  case (4 s n p bs s')
  from 4(1,2) show ?case by (cases rule: grpc_poll_cases) (use 4 in auto)
next
  case (5 s n bs s')
  from 5(1,2) show ?case by (cases rule: grpc_poll_cases) (use 5 in auto)
qed

lemma data_source:
  "poll_source (grpc_poll poll_next)
    (\<lambda>s. invar (reader s) \<and> final (reader s) = Open \<and> [] \<notin> set (queue (reader s))) unread
    (\<lambda>_. Open) (\<lambda>s. delay (reader s))"
proof (unfold_locales, goal_cases)
  case (1 s n u bs s')
  then have "invar (reader s)" by simp
  from this 1(2) show ?case by (cases rule: grpc_poll_cases) (use 1 in auto)
next
  case (2 s n e bs s')
  then have "invar (reader s)" by simp
  from this 2(2) show ?case by (cases rule: grpc_poll_cases) (use 2 in auto)
next
  case (3 s n bs s')
  then have "invar (reader s)" by simp
  from this 3(2) show ?case by (cases rule: grpc_poll_cases) (use 3 in auto)
next
  case (4 s n p bs s')
  then have "invar (reader s)" by simp
  from this 4(2) show ?case by (cases rule: grpc_poll_cases) (use 4 in auto)
next
  case (5 s n bs s')
  then have "invar (reader s)" by simp
  from this 5(2) show ?case by (cases rule: grpc_poll_cases) (use 5 in auto)
qed

end

text \<open>
  Reading what \<^verbatim>\<open>GrpcHunkResponseStream\<close> makes of a source that stays open: every poll of it gives
  a message with at least one byte, or none yet.
\<close>

context live_source
begin

lemma response_cases:
  assumes "invar (resp_inner r)"
  obtains (Hunk) h r' where "response_poll_next poll r = (Ready (Ok (Some (Inr h))), r')" "invar (resp_inner r')"
      "rest (resp_inner r) = data h @ rest (resp_inner r')" "data h \<noteq> []"
  | (Pending) r' where "response_poll_next poll r = (Pending, r')" "invar (resp_inner r')"
      "rest (resp_inner r') = rest (resp_inner r)"
      "delay (resp_inner r') < delay (resp_inner r) \<or> rest (resp_inner r) = []"
proof -
  have "0 < (4096 :: nat)" by simp
  from assms this show thesis
  proof (cases rule: poll_cases)
    case (Ok bs i)
    then show thesis
      using that(1) [of "\<lparr>data = bs\<rparr>" "r\<lparr>resp_inner := i\<rparr>"] live [OF assms] by (auto simp: response_poll_next_def)
  next
    case (Err e bs i)
    then show thesis using live [OF assms] by simp
  next
    case (Pending i)
    then show thesis
      using that(2) [of "r\<lparr>resp_inner := i\<rparr>"] by (auto simp: response_poll_next_def)
  qed
qed

lemma packed_cases:
  assumes "invar (resp_inner (reader s))" and "0 < n"
  obtains (Ok) bs s' where "grpc_poll (response_poll_next poll) n s = (Ready (Ok ()), bs, s')"
      "invar (resp_inner (reader s'))" "bs \<noteq> []" "length bs \<le> n"
      "buf s @ rest (resp_inner (reader s)) = bs @ buf s' @ rest (resp_inner (reader s'))"
  | (Pending) s' where "grpc_poll (response_poll_next poll) n s = (Pending, [], s')"
      "invar (resp_inner (reader s'))" "buf s = []" "buf s' = []"
      "rest (resp_inner (reader s')) = rest (resp_inner (reader s))"
      "delay (resp_inner (reader s')) < delay (resp_inner (reader s)) \<or> rest (resp_inner (reader s)) = []"
proof (cases "length (buf s) \<le> n")
  case False
  then have "buf s \<noteq> []" "n < length (buf s)" by auto
  with assms show thesis
    using that(1) [OF grpc_poll_steps(1)] by (auto simp: grpc_poll_steps)
next
  case True
  from assms(1) show thesis
  proof (cases rule: response_cases)
    case (Hunk h r)
    show thesis
      by (rule that(1) [OF grpc_poll_steps(3) [where poll_next = "response_poll_next poll", OF True Hunk(1)]]) (use Hunk True assms(2) in auto)
  next
    case (Pending r)
    note step = grpc_poll_steps(2) [where poll_next = "response_poll_next poll", OF True Pending(1)]
    show thesis
      using that(1) [of "buf s" "s\<lparr>reader := r, buf := []\<rparr>"] that(2) [of "s\<lparr>reader := r, buf := []\<rparr>"] step Pending True
      by (cases "buf s = []") simp_all
  qed
qed

lemma packed_source:
  "poll_source (grpc_poll (response_poll_next poll)) (\<lambda>s. invar (resp_inner (reader s)))
    (\<lambda>s. buf s @ rest (resp_inner (reader s))) (\<lambda>_. Open) (\<lambda>s. delay (resp_inner (reader s)))"
proof (unfold_locales, goal_cases)
  case (1 s n u bs s')
  from 1(1,2) show ?case by (cases rule: packed_cases) (use 1 in auto)
next
  case (2 s n e bs s')
  from 2(1,2) show ?case by (cases rule: packed_cases) (use 2 in auto)
next
  case (3 s n bs s')
  from 3(1,2) show ?case by (cases rule: packed_cases) (use 3 in auto)
next
  case (4 s n p bs s')
  from 4(1,2) show ?case by (cases rule: packed_cases) (use 4 in auto)
next
  case (5 s n bs s')
  from 5(1,2) show ?case by (cases rule: packed_cases) (use 5 in auto)
qed

end

sublocale live_source \<subseteq> packed: poll_source "grpc_poll (response_poll_next poll)"
  "\<lambda>s. invar (resp_inner (reader s))" "\<lambda>s. buf s @ rest (resp_inner (reader s))" "\<lambda>_. Open"
  "\<lambda>s. delay (resp_inner (reader s))"
  by (rule packed_source)

sublocale message_source \<subseteq> feed: poll_feed "grpc_poll poll_next" "\<lambda>s. invar (reader s)" unread firm "\<lambda>s. delay (reader s)"
  by (rule data_feed)

text \<open>
  A polled source given by a script: \<open>None\<close> is a poll that finds nothing yet, \<open>Some c\<close> a
  piece \<open>c\<close> that has arrived; after the script the source stays silent.
\<close>

fun script_poll :: "bytes option list poll_reader" where
  "script_poll n [] = (Pending, [], [])"
| "script_poll n (None # es) = (Pending, [], es)"
| "script_poll n (Some c # es) =
     (if length c \<le> n then (Ready (Ok ()), c, es)
      else (Ready (Ok ()), take n c, Some (drop n c) # es))"

definition script_ok :: "bytes option list \<Rightarrow> bool" where
  "script_ok es \<longleftrightarrow> Some [] \<notin> set es"

definition script_rest :: "bytes option list \<Rightarrow> bytes" where
  "script_rest es = concat (map (\<lambda>e. case e of None \<Rightarrow> [] | Some c \<Rightarrow> c) es)"

lemma script_simps [simp]:
  "script_ok []" "script_ok (e # es) \<longleftrightarrow> e \<noteq> Some [] \<and> script_ok es"
  "script_rest [] = []" "script_rest (None # es) = script_rest es"
  "script_rest (Some c # es) = c @ script_rest es"
  by (auto simp: script_ok_def script_rest_def)

interpretation script: live_source script_poll script_ok script_rest "\<lambda>_. Open" length
proof (unfold_locales, goal_cases)
  case (1 s n u bs s')
  then show ?case
    by (cases "(n, s)" rule: script_poll.cases) (auto split: if_splits)
next
  case (2 s n e bs s')
  then show ?case
    by (cases "(n, s)" rule: script_poll.cases) (auto split: if_splits)
next
  case (3 s n bs s')
  then show ?case
    by (cases "(n, s)" rule: script_poll.cases) (auto split: if_splits)
next
  case (4 s n p bs s')
  then show ?case
    by (cases "(n, s)" rule: script_poll.cases) (auto split: if_splits)
next
  case (5 s n bs s')
  then show ?case
    by (cases "(n, s)" rule: script_poll.cases) (auto split: if_splits)
qed simp

text \<open>
  A message stream given by a script: \<open>None\<close> is a poll that finds nothing yet, \<open>Some m\<close> the
  message \<open>m\<close>, and after the script the stream ends as \<open>e\<close> says.
\<close>

fun script_next :: "ending \<Rightarrow> bytes option list hunk_stream" where
  "script_next e (None # es) = (Pending, es)"
| "script_next e (Some m # es) = (Ready (Ok (Some (Inr \<lparr>data = m\<rparr>))), es)"
| "script_next Eof [] = (Ready (Ok None), [])"
| "script_next (Broken x) [] = (Ready (Ok (Some (Inl (OtherStatus (message x))))), [])"
| "script_next Open [] = (Pending, [])"

fun script_queue :: "bytes option list \<Rightarrow> bytes list" where
  "script_queue [] = []"
| "script_queue (None # es) = script_queue es"
| "script_queue (Some m # es) = m # script_queue es"

interpretation messages: message_source "script_next e" "\<lambda>_. True" script_queue "\<lambda>_. e" length
proof (unfold_locales, goal_cases)
  case (1 r h r')
  then show ?case by (cases "(e, r)" rule: script_next.cases) auto
next
  case (2 r st r')
  then show ?case by (cases "(e, r)" rule: script_next.cases) auto
next
  case (3 r r')
  then show ?case by (cases "(e, r)" rule: script_next.cases) auto
next
  case (4 r r')
  then show ?case by (cases "(e, r)" rule: script_next.cases) auto
next
  case (5 r q r')
  then show ?case by (cases "(e, r)" rule: script_next.cases) auto
qed

section \<open>Properties\<close>

text \<open>
  C14: The data reader turns messages into bytes faithfully, as long as none of them is empty: over a
  message stream that stays open and whose messages all hold at least one byte it is a byte source
  whose remaining bytes are its internal buffer followed by the bytes of the messages still to come,
  so nothing is lost, duplicated or reordered, however the reads and the messages are cut.
\<close>

theorem grpc_reader_is_byte_source:
  assumes "message_source poll_next invar queue final delay"
  shows "poll_source (grpc_poll poll_next)
    (\<lambda>s. invar (reader s) \<and> final (reader s) = Open \<and> [] \<notin> set (queue (reader s)))
    (\<lambda>s. buf s @ concat (queue (reader s))) (\<lambda>_. Open) (\<lambda>s. delay (reader s))"
  using assms by (rule message_source.data_source)

theorem grpc_reader_is_byte_source_witness:
  "poll_source (grpc_poll (script_next Open)) (\<lambda>s. [] \<notin> set (script_queue (reader s)))
     (\<lambda>s. buf s @ concat (script_queue (reader s))) (\<lambda>_. Open) (\<lambda>s. length (reader s))"
  using grpc_reader_is_byte_source [OF messages.message_source_axioms, of Open] by simp

text \<open>
  C34: One read of the data reader, over any message stream: with empty messages, and however it
  ends. The bytes it returns are always the next ones, and it never loses any while it reports
  success. But it returns no bytes exactly when its buffer is empty and the next message is empty,
  and its user takes that for the end of the stream, whatever messages are still to come. It fails
  only at the end of the stream, and then the bytes left in its buffer are lost.
\<close>

theorem grpc_reader_reads_messages:
  assumes "message_source poll_next invar queue final delay" and "invar (reader s)" and "0 < n"
    and "grpc_poll poll_next n s = (p, bs, s')"
  shows "invar (reader s') \<and>
    (case p of
        Ready q \<Rightarrow>
          q = Ok () \<and> buf s @ concat (queue (reader s)) = bs @ buf s' @ concat (queue (reader s')) \<and> length bs \<le> n \<and>
            (bs = [] \<longleftrightarrow> buf s = [] \<and> (\<exists>ms. queue (reader s) = [] # ms)) \<or>
          q = Err (Error BrokenPipe ''Failed to read'') \<and> bs = buf s \<and> queue (reader s) = [] \<and> final (reader s) \<noteq> Open
      | Pending \<Rightarrow> bs = [] \<and> buf s = [] \<and> buf s' = [] \<and> queue (reader s') = queue (reader s))"
  by (rule message_source.grpc_poll_cases [OF assms(1-3)]; use assms(4) in simp)

theorem grpc_reader_reads_messages_witness:
  "\<exists>s'. grpc_poll (script_next Open) 8 (from_reader [Some [], Some [1, 2]]) = (Ready (Ok ()), [], s') \<and>
     buf s' @ concat (script_queue (reader s')) = [1, 2]"
proof -
  have run: "grpc_poll (script_next Open) 8 (from_reader [Some [], Some [1, 2]]) = (Ready (Ok ()), [], from_reader [Some [1, 2]])"
    by (simp add: grpc_poll_steps(3) [where h = "\<lparr>data = []\<rparr>" and r = "[Some [1, 2]]"] from_reader_def)
  from grpc_reader_reads_messages [OF messages.message_source_axioms _ _ run]
  have "buf (from_reader [Some [1, 2]]) @ concat (script_queue (reader (from_reader [Some [1, 2 :: u8]]))) = [1, 2]"
    by (simp add: from_reader_def)
  with run show ?thesis by blast
qed

text \<open>What the user of the reader makes of an empty message: the end of the input.\<close>

lemma empty_message_ends_reads:
  assumes "buf s = []" and "poll_next (reader s) = (Ready (Ok (Some (Inr \<lparr>data = []\<rparr>))), r)" and "0 < n"
  shows "read_exact (poll_ext (grpc_poll poll_next)) n s = (Err (Error UnexpectedEof ''early eof''), s\<lparr>reader := r\<rparr>)"
proof -
  have "s\<lparr>reader := r, buf := []\<rparr> = s\<lparr>reader := r\<rparr>"
    using assms(1) by (cases s) simp
  with assms show ?thesis
    by (simp add: poll_ext_def ext_exact_def poll_exact.simps grpc_poll_steps(3) [where h = "\<lparr>data = []\<rparr>"])
qed

text \<open>
  C27: Whatever the packet sizes, one \<^verbatim>\<open>poll_read\<close> of the data reader neither overruns the
  caller's buffer nor panics on a slice: it only appends to the filled part, up to the capacity.
\<close>

theorem grpc_poll_read_bounds:
  assumes "length (filled b) \<le> capacity b"
    and "\<And>q r. poll_next (reader self) = (Ready q, r) \<Longrightarrow> is_Ok q"
  shows "\<exists>r self' bs. poll_read poll_next self b = Ok (r, self', b\<lparr>filled := filled b @ bs\<rparr>) \<and>
    length (filled b @ bs) \<le> capacity b"
proof (cases "length (buf self) \<le> remaining b")
  case True
  obtain p r where nxt: "poll_next (reader self) = (p, r)"
    by (cases "poll_next (reader self)")
  show ?thesis
  proof (cases p)
    case Pending
    with True nxt assms(1) show ?thesis
      by (intro exI [of _ "if buf self \<noteq> [] then Ready (Ok ()) else Pending"]
          exI [of _ "self\<lparr>reader := r, buf := []\<rparr>"] exI [of _ "buf self"])
        (simp add: poll_read_eq remaining_def)
  next
    case (Ready q)
    with assms(2) nxt obtain item where q: "q = Ok item"
      by (auto simp: is_Ok_iff)
    show ?thesis
    proof (cases "\<exists>h. item = Some (Inr h)")
      case True
      then obtain h where h: "item = Some (Inr h)" by blast
      define m where "m = capacity b - (length (filled b) + length (buf self))"
      show ?thesis
        using \<open>length (buf self) \<le> remaining b\<close> nxt Ready q h assms(1)
        by (intro exI [of _ "Ready (Ok ())"] exI [of _ "self\<lparr>reader := r, buf := drop m (data h)\<rparr>"]
            exI [of _ "buf self @ take m (data h)"])
          (auto simp: poll_read_eq remaining_def m_def min_def Let_def)
    next
      case False
      then show ?thesis
        using \<open>length (buf self) \<le> remaining b\<close> nxt Ready q assms(1)
        by (intro exI [of _ "Ready (Err (Error BrokenPipe ''Failed to read''))"]
            exI [of _ "self\<lparr>reader := r, buf := []\<rparr>"] exI [of _ "buf self"])
          (auto simp: poll_read_eq remaining_def Let_def split: option.split sum.split)
    qed
  qed
next
  case False
  with assms(1) show ?thesis
    by (intro exI [of _ "Ready (Ok ())"] exI [of _ "self\<lparr>buf := drop (remaining b) (buf self)\<rparr>"]
        exI [of _ "take (remaining b) (buf self)"])
      (simp add: poll_read_eq remaining_def min_def)
qed

theorem grpc_poll_read_bounds_witness:
  "\<exists>r self' bs. poll_read (response_poll_next script_poll) (from_reader \<lparr>resp_inner = [Some [1, 2, 3]]\<rparr>)
      \<lparr>capacity = 4, filled = [9, 8]\<rparr> = Ok (r, self', \<lparr>capacity = 4, filled = [9, 8] @ bs\<rparr>) \<and>
    length ([9, 8] @ bs) \<le> 4"
proof -
  have "is_Ok q" if "response_poll_next script_poll (reader (from_reader \<lparr>resp_inner = [Some [1, 2, 3]]\<rparr>)) =
      (Ready q, r)" for q r
    using that by (auto simp: response_poll_next_def from_reader_def)
  from grpc_poll_read_bounds [OF _ this, where b = "\<lparr>capacity = 4, filled = [9, 8]\<rparr>"]
  show ?thesis by simp
qed

text \<open>
  C26: Packing and unpacking cancel: bytes that \<^verbatim>\<open>GrpcHunkResponseStream\<close> packs into packets
  come out of a \<^verbatim>\<open>GrpcDataReaderStream\<close> over them as they went in.
\<close>

theorem hunk_pack_unpack:
  assumes "read_ext ext" and "live_source poll invar rest final delay" and "invar i"
    and "n \<le> length (rest i)"
  shows "\<exists>s'. read_exact (ext (grpc_poll (response_poll_next poll))) n
      (from_reader (GrpcHunkResponseStream_new i)) = (Ok (take n (rest i)), s') \<and>
    buf s' @ rest (resp_inner (reader s')) = drop n (rest i)"
proof -
  let ?R = "ext (grpc_poll (response_poll_next poll))"
  let ?rest = "\<lambda>s. buf s @ rest (resp_inner (reader s))"
  let ?s = "from_reader (GrpcHunkResponseStream_new i)"
  have "poll_source (grpc_poll (response_poll_next poll)) (\<lambda>s. invar (resp_inner (reader s))) ?rest
      (\<lambda>_. Open) (\<lambda>s. delay (resp_inner (reader s)))"
    by (rule live_source.packed_source [OF assms(2)])
  then have "exact_reader ?R conn_reader (\<lambda>s. invar (resp_inner (reader s)))
      (source_conn ?rest (\<lambda>_. Open)) (\<lambda>_. ())"
    by (rule read_ext.ext_reader [OF assms(1)])
  note sim = exact_reader.sim_read_exact [OF this, of n]
  have inv: "invar (resp_inner (reader ?s))" and rest: "?rest ?s = rest i"
    using assms(3) by (simp_all add: from_reader_def GrpcHunkResponseStream_new_def)
  have "conn_read_exact n (source_conn ?rest (\<lambda>_. Open) ?s) =
      (Ok (take n (rest i)), (source_conn ?rest (\<lambda>_. Open) ?s)\<lparr>inp := drop n (rest i)\<rparr>)"
    using assms(4) rest by (simp add: conn_read_exact_def source_conn_def)
  from simulates_Ok [OF sim inv, unfolded conn_reader_sel, THEN iffD2, OF this]
  obtain s' where run: "read_exact ?R n ?s = (Ok (take n (rest i)), s')"
    and s': "source_conn ?rest (\<lambda>_. Open) s' =
      (source_conn ?rest (\<lambda>_. Open) ?s)\<lparr>inp := drop n (rest i)\<rparr>"
    by (elim exE conjE)
  from s' have "?rest s' = drop n (rest i)"
    by (simp add: source_conn_def)
  with run show ?thesis by blast
qed

theorem hunk_pack_unpack_witness:
  "\<exists>s'. read_exact (poll_ext (grpc_poll (response_poll_next script_poll))) 3
      (from_reader (GrpcHunkResponseStream_new [Some [1, 2], None, Some [3, 4]])) = (Ok [1, 2, 3], s') \<and>
    buf s' @ script_rest (resp_inner (reader s')) = [4]"
  using hunk_pack_unpack [OF poll_ext.read_ext_axioms script.live_source_axioms,
      where i = "[Some [1, 2], None, Some [3, 4]]" and n = 3]
  by simp

text \<open>
  C28: When the packet stream has ended, a read that the internal buffer alone could satisfy fails:
  the requested bytes are moved into the caller's buffer, the internal buffer is emptied, and the
  call still reports \<^verbatim>\<open>BrokenPipe\<close>.
\<close>

theorem grpc_reader_drops_tail:
  assumes "length (buf s) = n" and "poll_next (reader s) = (Ready (Ok None), r)"
  shows "poll_read poll_next s \<lparr>capacity = n, filled = []\<rparr> =
    Ok (Ready (Err (Error BrokenPipe ''Failed to read'')), s\<lparr>reader := r, buf := []\<rparr>,
        \<lparr>capacity = n, filled = buf s\<rparr>)"
  using assms by (simp add: poll_read_eq remaining_def)

theorem grpc_reader_drops_tail_witness:
  "poll_read (\<lambda>r. (Ready (Ok None), r)) \<lparr>reader = (), buf = [1, 2]\<rparr> \<lparr>capacity = 2, filled = []\<rparr> =
     Ok (Ready (Err (Error BrokenPipe ''Failed to read'')), \<lparr>reader = (), buf = []\<rparr>,
         \<lparr>capacity = 2, filled = [1, 2]\<rparr>)"
  using grpc_reader_drops_tail [where s = "\<lparr>reader = (), buf = [1, 2]\<rparr>" and n = 2
      and poll_next = "\<lambda>r. (Ready (Ok None), r)"]
  by simp

text \<open>
  Every packet that \<^verbatim>\<open>GrpcHunkRequestStream\<close> produces holds the next bytes of its reader,
  at most 4096 of them; a read error ends the packet stream.
\<close>

lemma request_stream_packs:
  assumes "poll_source poll invar rest final delay" and "invar (req_inner self)"
    and "request_poll_next poll self = (Ready q, self')"
  shows "(\<exists>h. q = Ok (Some h) \<and> length (data h) \<le> 4096 \<and> invar (req_inner self') \<and>
      rest (req_inner self) = data h @ rest (req_inner self')) \<or>
    q = Ok None \<and> rest (req_inner self) = [] \<and> (\<exists>e. final (req_inner self) = Broken e)"
proof -
  have "0 < (4096 :: nat)" by simp
  from poll_source.poll_cases [OF assms(1,2) this] show ?thesis
    by cases (use assms(3) in \<open>auto simp: request_poll_next_def\<close>)
qed

lemma request_stream_packs_witness:
  "\<exists>q self'. request_poll_next script_poll (GrpcHunkRequestStream_new [Some [1, 2], None]) = (Ready q, self') \<and>
     (\<exists>h. q = Ok (Some h) \<and> [1, 2] = data h @ script_rest (req_inner self'))"
proof -
  have run: "request_poll_next script_poll (GrpcHunkRequestStream_new [Some [1, 2], None]) =
      (Ready (Ok (Some \<lparr>data = [1, 2]\<rparr>)), \<lparr>req_inner = [None]\<rparr>)"
    by (simp add: request_poll_next_def GrpcHunkRequestStream_new_def)
  have "script_ok (req_inner (GrpcHunkRequestStream_new [Some [1, 2], None]))"
    by (simp add: GrpcHunkRequestStream_new_def)
  from request_stream_packs [OF script.poll_source_axioms this run] run show ?thesis
    by (simp add: GrpcHunkRequestStream_new_def)
qed

end
