(* ===== verification/Tcp_Stream.thy ===== *)
theory Tcp_Stream
  imports Grpc_Stream
begin

text \<open>
  The stream of \<^verbatim>\<open>src/protocol/common/stream.rs\<close>: a plain connection, the server side or the
  client side of a TLS connection, behind one type. The three connections are arguments, since the
  TLS ones are code of \<^verbatim>\<open>tokio_rustls\<close>. The lemmas show that the type keeps the contract of
  whatever it wraps, for reading and for writing, and never changes what it wraps.
\<close>

section \<open>The stream\<close>

datatype ('p, 't, 'c) StandardTcpStream = Plain 'p | RustlsServer 't | RustlsClient 'c

type_synonym 's poll_writer = "bytes \<Rightarrow> 's \<Rightarrow> nat outcome poll \<times> 's"
type_synonym 's poll_action = "'s \<Rightarrow> unit outcome poll \<times> 's"

definition stream_poll_read ::
  "'p poll_reader \<Rightarrow> 't poll_reader \<Rightarrow> 'c poll_reader \<Rightarrow> ('p, 't, 'c) StandardTcpStream poll_reader" where
  "stream_poll_read plain server client n self =
     (case self of
        Plain s \<Rightarrow> (case plain n s of (r, bs, s') \<Rightarrow> (r, bs, Plain s'))
      | RustlsServer s \<Rightarrow> (case server n s of (r, bs, s') \<Rightarrow> (r, bs, RustlsServer s'))
      | RustlsClient s \<Rightarrow> (case client n s of (r, bs, s') \<Rightarrow> (r, bs, RustlsClient s')))"

definition stream_poll_write ::
  "'p poll_writer \<Rightarrow> 't poll_writer \<Rightarrow> 'c poll_writer \<Rightarrow> ('p, 't, 'c) StandardTcpStream poll_writer" where
  "stream_poll_write plain server client bs self =
     (case self of
        Plain s \<Rightarrow> map_prod id Plain (plain bs s)
      | RustlsServer s \<Rightarrow> map_prod id RustlsServer (server bs s)
      | RustlsClient s \<Rightarrow> map_prod id RustlsClient (client bs s))"

definition stream_poll_flush ::
  "'p poll_action \<Rightarrow> 't poll_action \<Rightarrow> 'c poll_action \<Rightarrow> ('p, 't, 'c) StandardTcpStream poll_action" where
  "stream_poll_flush plain server client self =
     (case self of
        Plain s \<Rightarrow> map_prod id Plain (plain s)
      | RustlsServer s \<Rightarrow> map_prod id RustlsServer (server s)
      | RustlsClient s \<Rightarrow> map_prod id RustlsClient (client s))"

definition stream_poll_shutdown ::
  "'p poll_action \<Rightarrow> 't poll_action \<Rightarrow> 'c poll_action \<Rightarrow> ('p, 't, 'c) StandardTcpStream poll_action" where
  "stream_poll_shutdown plain server client self =
     (case self of
        Plain s \<Rightarrow> map_prod id Plain (plain s)
      | RustlsServer s \<Rightarrow> map_prod id RustlsServer (server s)
      | RustlsClient s \<Rightarrow> map_prod id RustlsClient (client s))"

section \<open>Contracts\<close>

text \<open>
  What is known of the part of a stream: the case of the constructor picks the function of the
  wrapped connection.
\<close>

fun stream_case :: "('p \<Rightarrow> 'a) \<Rightarrow> ('t \<Rightarrow> 'a) \<Rightarrow> ('c \<Rightarrow> 'a) \<Rightarrow> ('p, 't, 'c) StandardTcpStream \<Rightarrow> 'a" where
  "stream_case f g h (Plain s) = f s"
| "stream_case f g h (RustlsServer s) = g s"
| "stream_case f g h (RustlsClient s) = h s"

text \<open>
  A sink takes a beginning of what it is given, remembers it in order, and a flush or a shutdown
  adds nothing.
\<close>

locale poll_sink =
  fixes poll_write :: "'s poll_writer" and poll_flush :: "'s poll_action" and poll_shutdown :: "'s poll_action"
    and invar :: "'s \<Rightarrow> bool" and written :: "'s \<Rightarrow> bytes"
  assumes sink_write: "\<lbrakk>invar s; poll_write bs s = (r, s')\<rbrakk> \<Longrightarrow> invar s' \<and>
      (\<exists>n. n \<le> length bs \<and> written s' = written s @ take n bs \<and> (\<forall>k. r = Ready (Ok k) \<longrightarrow> k = n) \<and>
        ((\<nexists>k. r = Ready (Ok k)) \<longrightarrow> n = 0))"
    and sink_flush: "\<lbrakk>invar s; poll_flush s = (q, s')\<rbrakk> \<Longrightarrow> invar s' \<and> written s' = written s"
    and sink_shutdown: "\<lbrakk>invar s; poll_shutdown s = (q, s')\<rbrakk> \<Longrightarrow> invar s' \<and> written s' = written s"

text \<open>
  Both contracts speak of one state at a time, so it is enough to show them for each constructor,
  where the stream does what the wrapped connection does.
\<close>

definition source_at ::
  "'s poll_reader \<Rightarrow> ('s \<Rightarrow> bool) \<Rightarrow> ('s \<Rightarrow> bytes) \<Rightarrow> ('s \<Rightarrow> ending) \<Rightarrow> ('s \<Rightarrow> nat) \<Rightarrow> 's \<Rightarrow> bool" where
  "source_at poll invar rest final delay s \<longleftrightarrow>
     (\<forall>n r bs s'. invar s \<longrightarrow> 0 < n \<longrightarrow> poll n s = (r, bs, s') \<longrightarrow>
        (case r of
           Ready (Ok _) \<Rightarrow> invar s' \<and> final s' = final s \<and> rest s = bs @ rest s' \<and> length bs \<le> n \<and>
             (bs = [] \<longrightarrow> rest s = [] \<and> final s = Eof)
         | Ready (Err e) \<Rightarrow> rest s = [] \<and> final s = Broken e
         | Pending \<Rightarrow> invar s' \<and> final s' = final s \<and> rest s' = rest s \<and> bs = [] \<and>
             (delay s' < delay s \<or> rest s = [] \<and> final s = Open)
         | _ \<Rightarrow> False))"

lemma source_at:
  assumes "poll_source poll invar rest final delay"
  shows "source_at poll invar rest final delay s"
  unfolding source_at_def
proof (intro allI impI)
  fix n r bs s'
  assume run: "invar s" "0 < n" "poll n s = (r, bs, s')"
  show "case r of
      Ready (Ok _) \<Rightarrow> invar s' \<and> final s' = final s \<and> rest s = bs @ rest s' \<and> length bs \<le> n \<and>
        (bs = [] \<longrightarrow> rest s = [] \<and> final s = Eof)
    | Ready (Err e) \<Rightarrow> rest s = [] \<and> final s = Broken e
    | Pending \<Rightarrow> invar s' \<and> final s' = final s \<and> rest s' = rest s \<and> bs = [] \<and>
        (delay s' < delay s \<or> rest s = [] \<and> final s = Open)
    | _ \<Rightarrow> False"
  proof (cases r)
    case (Ready q)
    with run poll_source.poll_Ok [OF assms run(1,2)] poll_source.poll_Err [OF assms run(1,2)]
      poll_source.poll_no_Panic [OF assms run(1,2)] poll_source.poll_no_Hang [OF assms run(1,2)]
    show ?thesis by (cases q) auto
  next
    case Pending
    with run poll_source.poll_Pending [OF assms run(1,2)] show ?thesis by simp
  qed
qed

lemma poll_sourceI:
  assumes "\<And>s. source_at poll invar rest final delay s"
  shows "poll_source poll invar rest final delay"
proof (unfold_locales, goal_cases)
  case (1 s n u bs s')
  with assms [of s, unfolded source_at_def, rule_format, OF 1] show ?case by auto
next
  case (2 s n e bs s')
  with assms [of s, unfolded source_at_def, rule_format, OF 2] show ?case by simp
next
  case (3 s n bs s')
  with assms [of s, unfolded source_at_def, rule_format, OF 3] show ?case by simp
next
  case (4 s n p bs s')
  with assms [of s, unfolded source_at_def, rule_format, OF 4] show ?case by auto
next
  case (5 s n bs s')
  with assms [of s, unfolded source_at_def, rule_format, OF 5] show ?case by auto
qed

lemma source_at_embed:
  assumes "source_at p i r f d x" and "\<And>n x. poll n (C x) = (case p n x of (q, bs, x') \<Rightarrow> (q, bs, C x'))"
    and "\<And>x. invar (C x) = i x" and "\<And>x. rest (C x) = r x" and "\<And>x. final (C x) = f x"
    and "\<And>x. delay (C x) = d x"
  shows "source_at poll invar rest final delay (C x)"
  unfolding source_at_def
proof (intro allI impI)
  fix n q bs s'
  assume run: "invar (C x)" "0 < n" "poll n (C x) = (q, bs, s')"
  obtain x' where x': "p n x = (q, bs, x')" "s' = C x'"
    using run(3) by (cases "p n x") (simp add: assms(2))
  have "i x" using run(1) by (simp add: assms(3))
  from assms(1) [unfolded source_at_def, rule_format, OF this run(2) x'(1)]
  show "case q of
      Ready (Ok _) \<Rightarrow> invar s' \<and> final s' = final (C x) \<and> rest (C x) = bs @ rest s' \<and> length bs \<le> n \<and>
        (bs = [] \<longrightarrow> rest (C x) = [] \<and> final (C x) = Eof)
    | Ready (Err e) \<Rightarrow> rest (C x) = [] \<and> final (C x) = Broken e
    | Pending \<Rightarrow> invar s' \<and> final s' = final (C x) \<and> rest s' = rest (C x) \<and> bs = [] \<and>
        (delay s' < delay (C x) \<or> rest (C x) = [] \<and> final (C x) = Open)
    | _ \<Rightarrow> False"
    unfolding x'(2) assms(3-6) .
qed

lemma stream_poll_source:
  assumes "poll_source plain i1 r1 f1 d1" and "poll_source server i2 r2 f2 d2"
    and "poll_source client i3 r3 f3 d3"
  shows "poll_source (stream_poll_read plain server client) (stream_case i1 i2 i3) (stream_case r1 r2 r3)
    (stream_case f1 f2 f3) (stream_case d1 d2 d3)"
proof (rule poll_sourceI)
  fix s
  show "source_at (stream_poll_read plain server client) (stream_case i1 i2 i3) (stream_case r1 r2 r3)
    (stream_case f1 f2 f3) (stream_case d1 d2 d3) s"
  proof (cases s)
    case (Plain x)
    show ?thesis
      unfolding Plain by (rule source_at_embed [OF source_at [OF assms(1)]]) (simp_all add: stream_poll_read_def)
  next
    case (RustlsServer x)
    show ?thesis
      unfolding RustlsServer
      by (rule source_at_embed [OF source_at [OF assms(2)]]) (simp_all add: stream_poll_read_def)
  next
    case (RustlsClient x)
    show ?thesis
      unfolding RustlsClient
      by (rule source_at_embed [OF source_at [OF assms(3)]]) (simp_all add: stream_poll_read_def)
  qed
qed

lemma stream_poll_sink:
  assumes "poll_sink pw pf ps i1 w1" and "poll_sink sw sf ss i2 w2" and "poll_sink cw cf cs i3 w3"
  shows "poll_sink (stream_poll_write pw sw cw) (stream_poll_flush pf sf cf) (stream_poll_shutdown ps ss cs)
    (stream_case i1 i2 i3) (stream_case w1 w2 w3)"
proof (unfold_locales, goal_cases)
  case (1 s bs r s')
  show ?case
  proof (cases s)
    case (Plain x)
    then obtain y where y: "pw bs x = (r, y)" "s' = Plain y"
      using 1 by (cases "pw bs x") (simp add: stream_poll_write_def)
    from poll_sink.sink_write [OF assms(1) _ y(1)] 1(1) y(2) Plain show ?thesis by simp
  next
    case (RustlsServer x)
    then obtain y where y: "sw bs x = (r, y)" "s' = RustlsServer y"
      using 1 by (cases "sw bs x") (simp add: stream_poll_write_def)
    from poll_sink.sink_write [OF assms(2) _ y(1)] 1(1) y(2) RustlsServer show ?thesis by simp
  next
    case (RustlsClient x)
    then obtain y where y: "cw bs x = (r, y)" "s' = RustlsClient y"
      using 1 by (cases "cw bs x") (simp add: stream_poll_write_def)
    from poll_sink.sink_write [OF assms(3) _ y(1)] 1(1) y(2) RustlsClient show ?thesis by simp
  qed
next
  case (2 s q s')
  show ?case
  proof (cases s)
    case (Plain x)
    then obtain y where y: "pf x = (q, y)" "s' = Plain y"
      using 2 by (cases "pf x") (simp add: stream_poll_flush_def)
    from poll_sink.sink_flush [OF assms(1) _ y(1)] 2(1) y(2) Plain show ?thesis by simp
  next
    case (RustlsServer x)
    then obtain y where y: "sf x = (q, y)" "s' = RustlsServer y"
      using 2 by (cases "sf x") (simp add: stream_poll_flush_def)
    from poll_sink.sink_flush [OF assms(2) _ y(1)] 2(1) y(2) RustlsServer show ?thesis by simp
  next
    case (RustlsClient x)
    then obtain y where y: "cf x = (q, y)" "s' = RustlsClient y"
      using 2 by (cases "cf x") (simp add: stream_poll_flush_def)
    from poll_sink.sink_flush [OF assms(3) _ y(1)] 2(1) y(2) RustlsClient show ?thesis by simp
  qed
next
  case (3 s q s')
  show ?case
  proof (cases s)
    case (Plain x)
    then obtain y where y: "ps x = (q, y)" "s' = Plain y"
      using 3 by (cases "ps x") (simp add: stream_poll_shutdown_def)
    from poll_sink.sink_shutdown [OF assms(1) _ y(1)] 3(1) y(2) Plain show ?thesis by simp
  next
    case (RustlsServer x)
    then obtain y where y: "ss x = (q, y)" "s' = RustlsServer y"
      using 3 by (cases "ss x") (simp add: stream_poll_shutdown_def)
    from poll_sink.sink_shutdown [OF assms(2) _ y(1)] 3(1) y(2) RustlsServer show ?thesis by simp
  next
    case (RustlsClient x)
    then obtain y where y: "cs x = (q, y)" "s' = RustlsClient y"
      using 3 by (cases "cs x") (simp add: stream_poll_shutdown_def)
    from poll_sink.sink_shutdown [OF assms(3) _ y(1)] 3(1) y(2) RustlsClient show ?thesis by simp
  qed
qed

text \<open>
  A sink given by a script of how much each call of \<^verbatim>\<open>poll_write\<close> takes: \<open>0\<close> is a call
  that finds no room yet; after the script everything is taken.
\<close>

fun script_write :: "(nat list \<times> bytes) poll_writer" where
  "script_write bs ([], w) = (Ready (Ok (length bs)), ([], w @ bs))"
| "script_write bs (0 # ks, w) = (Pending, (ks, w))"
| "script_write bs (Suc k # ks, w) = (Ready (Ok (min (Suc k) (length bs))), (ks, w @ take (Suc k) bs))"

definition script_done :: "(nat list \<times> bytes) poll_action" where
  "script_done s = (Ready (Ok ()), s)"

lemma script_sink: "poll_sink script_write script_done script_done (\<lambda>_. True) snd"
proof (unfold_locales, goal_cases)
  case (1 s bs r s')
  have "\<exists>n. n \<le> length bs \<and> snd s' = snd s @ take n bs \<and> (\<forall>k. r = Ready (Ok k) \<longrightarrow> k = n) \<and>
      ((\<nexists>k. r = Ready (Ok k)) \<longrightarrow> n = 0)"
  proof (cases "(bs, s)" rule: script_write.cases)
    case (1 bs' w)
    with \<open>script_write bs s = (r, s')\<close> show ?thesis by (intro exI [of _ "length bs"]) auto
  next
    case (2 bs' ks w)
    with \<open>script_write bs s = (r, s')\<close> show ?thesis by (intro exI [of _ 0]) auto
  next
    case (3 bs' k ks w)
    with \<open>script_write bs s = (r, s')\<close> show ?thesis
      by (intro exI [of _ "min (Suc k) (length bs)"]) (auto simp: min_def)
  qed
  then show ?case by simp
qed (auto simp: script_done_def)

interpretation std_source: poll_source "stream_poll_read script_poll script_poll script_poll"
  "stream_case script_ok script_ok script_ok" "stream_case script_rest script_rest script_rest"
  "stream_case (\<lambda>_. Open) (\<lambda>_. Open) (\<lambda>_. Open)" "stream_case length length length"
  by (intro stream_poll_source script.poll_source_axioms)

interpretation std_sink: poll_sink "stream_poll_write script_write script_write script_write"
  "stream_poll_flush script_done script_done script_done"
  "stream_poll_shutdown script_done script_done script_done"
  "stream_case (\<lambda>_. True) (\<lambda>_. True) (\<lambda>_. True)" "stream_case snd snd snd"
  by (intro stream_poll_sink script_sink)

end
