(* ===== verification/Tcp_Acceptor.thy ===== *)
theory Tcp_Acceptor
  imports Config Socks5 Tcp_Stream
begin

text \<open>
  The TCP acceptor of \<^verbatim>\<open>src/proxy/tcp/acceptor.rs\<close>: how it is made from the configuration, and
  how it turns an inbound connection into a request, over TLS or not. The streams of a connection
  and the TLS handshake are arguments. The properties say when a connection is accepted at all.
\<close>

section \<open>The acceptor\<close>

record TcpAcceptor =
  tls_acceptor :: "ServerConfig option"
  acc_port :: u16
  acc_protocol :: SupportedProtocols
  acc_secret :: bytes

text \<open>\<^verbatim>\<open>OnceCell::get_or_init\<close>: the first value stays.\<close>

definition get_or_init :: "'a \<Rightarrow> 'a option \<Rightarrow> 'a \<times> 'a option" where
  "get_or_init v cell = (case cell of Some a \<Rightarrow> (a, cell) | None \<Rightarrow> (v, Some v))"

definition TcpAcceptor_init ::
  "file_system \<Rightarrow> pemfile \<Rightarrow> (bytes list \<Rightarrow> bytes \<Rightarrow> string + ServerConfig) \<Rightarrow> (bytes \<Rightarrow> bytes) \<Rightarrow>
   InboundConfig \<Rightarrow> TcpAcceptor option \<Rightarrow> (TcpAcceptor \<times> TcpAcceptor option) outcome" where
  "TcpAcceptor_init open_file pem single_cert sha224 inb cell =
     (let secret = secret_of sha224 (in_protocol inb) (in_secret inb) in
      bind_outcome (case in_tls inb of
                      Some tls \<Rightarrow> make_server_config open_file pem single_cert tls
                    | None \<Rightarrow> Ok None) (\<lambda>tls.
      Ok (get_or_init \<lparr>tls_acceptor = tls, acc_port = in_port inb,
                       acc_protocol = in_protocol inb, acc_secret = secret\<rparr> cell)))"

section \<open>Accepting a connection\<close>

text \<open>
  The operations on the streams a connection may turn into, one pair for each constructor of
  \<^verbatim>\<open>StandardTcpStream\<close>, and \<^verbatim>\<open>TlsAcceptor::accept\<close>. A \<open>handle\<close> says which of the
  streams is in use.
\<close>

type_synonym handle = "(unit, unit, unit) StandardTcpStream"

record 's inbound_io =
  stream_reader :: "handle \<Rightarrow> 's reader"
  stream_writer :: "handle \<Rightarrow> 's writer"
  tls_accept :: "ServerConfig \<Rightarrow> ('s, unit) async"

definition TcpAcceptor_accept ::
  "'s inbound_io \<Rightarrow> TcpAcceptor \<Rightarrow> ('s, InboundRequest \<times> handle) async" where
  "TcpAcceptor_accept io self =
     (case acc_protocol self of
        SOCKS \<Rightarrow>
          (case tls_acceptor self of
             Some cfg \<Rightarrow>
               await (tls_accept io cfg) (\<lambda>_.
               amap (\<lambda>request. (request, RustlsServer ()))
                 (socks_accept (stream_reader io (RustlsServer ())) (stream_writer io (RustlsServer ())) (acc_port self)))
           | None \<Rightarrow>
               amap (\<lambda>request. (request, Plain ()))
                 (socks_accept (stream_reader io (Plain ())) (stream_writer io (Plain ())) (acc_port self)))
      | TROJAN \<Rightarrow>
          (case tls_acceptor self of
             Some cfg \<Rightarrow>
               await (tls_accept io cfg) (\<lambda>_.
               amap (\<lambda>request. (request, RustlsServer ()))
                 (trojan_accept (stream_reader io (RustlsServer ())) (acc_secret self)))
           | None \<Rightarrow>
               amap (\<lambda>request. (request, Plain ()))
                 (trojan_accept (stream_reader io (Plain ())) (acc_secret self)))
      | DIRECT \<Rightarrow>
          fail (Error ConnectionReset ''Failed to accept inbound stream, unsupported protocol''))"

text \<open>
  What the properties assume of the streams: each is a byte stream with its own view of the state,
  and the TLS handshake leaves a state in which they still are.
\<close>

locale inbound_streams =
  fixes io :: "'s inbound_io" and invar :: "'s \<Rightarrow> bool" and view :: "handle \<Rightarrow> 's \<Rightarrow> conn"
  assumes streams: "\<And>h. byte_stream (stream_reader io h) conn_reader (stream_writer io h) conn_writer
      invar (view h) outp"
    and tls_invar: "\<And>cfg s t. invar s \<Longrightarrow> tls_accept io cfg s = (Ok (), t) \<Longrightarrow> invar t"
begin

lemma stream_exact: "exact_reader (stream_reader io h) conn_reader invar (view h) outp"
  using streams [of h] by (simp add: byte_stream_def chunk_reader_def)

text \<open>An accepted Trojan connection passed the check of the secret on the stream it ends up on.\<close>

lemma accept_trojan:
  assumes "invar s" and "acc_protocol self = TROJAN" and "TcpAcceptor_accept io self s = (Ok (q, h), s')"
  shows "\<exists>t r sep1 sep2. invar t \<and> wf_trojan r \<and> hex r = acc_secret self \<and> q = trojan_into_request r \<and>
    inp (view h t) = trojan_header sep1 sep2 r @ inp (view h s') \<and>
    (h = Plain () \<and> t = s \<and> tls_acceptor self = None \<or>
     h = RustlsServer () \<and> (\<exists>cfg. tls_acceptor self = Some cfg \<and> tls_accept io cfg s = (Ok (), t)))"
proof -
  obtain t where t: "trojan_accept (stream_reader io h) (acc_secret self) t = (Ok q, s')" "invar t"
    "h = Plain () \<and> t = s \<and> tls_acceptor self = None \<or>
     h = RustlsServer () \<and> (\<exists>cfg. tls_acceptor self = Some cfg \<and> tls_accept io cfg s = (Ok (), t))"
  proof (cases "tls_acceptor self")
    case None
    with assms that [of s] show thesis
      by (auto simp: TcpAcceptor_accept_def amap_Ok_iff)
  next
    case (Some cfg)
    with assms tls_invar that show thesis
      by (auto simp: TcpAcceptor_accept_def amap_Ok_iff await_Ok_iff)
  qed
  have "trojan_accept conn_reader (acc_secret self) (view h t) = (Ok q, view h s')"
    using simulates_OkD [OF exact_reader.sim_trojan_accept [OF stream_exact] t(2,1)] by simp
  then obtain r sep1 sep2 rest where "wf_trojan r" "hex r = acc_secret self" "q = trojan_into_request r"
    "inp (view h t) = trojan_header sep1 sep2 r @ rest" "view h s' = (view h t)\<lparr>inp := rest\<rparr>"
    unfolding trojan_accept_Ok by blast
  with t(2,3) show ?thesis
    by (intro exI [of _ t] exI [of _ r] exI [of _ sep1] exI [of _ sep2]) simp
qed

end

text \<open>Every connection of the abstract network as an inbound connection, with a TLS layer that adds nothing.\<close>

definition conn_inbound :: "conn inbound_io" where
  "conn_inbound = \<lparr>stream_reader = (\<lambda>_. conn_reader), stream_writer = (\<lambda>_. conn_writer),
     tls_accept = (\<lambda>_. return ())\<rparr>"

interpretation conn_in: inbound_streams conn_inbound "\<lambda>_. True" "\<lambda>_ c. c"
  by unfold_locales (auto simp: conn_inbound_def intro: simulates_refl)

section \<open>Making an acceptor\<close>

lemma get_or_init_None [simp]: "get_or_init v None = (v, Some v)"
  and get_or_init_Some [simp]: "get_or_init v (Some a) = (a, Some a)"
  by (simp_all add: get_or_init_def)

lemma TcpAcceptor_init_Ok:
  "TcpAcceptor_init fs pem single_cert sha224 inb None = Ok (self, cell) \<longleftrightarrow>
     (\<exists>tls. (case in_tls inb of None \<Rightarrow> Ok None | Some c \<Rightarrow> make_server_config fs pem single_cert c) = Ok tls \<and>
        self = \<lparr>tls_acceptor = tls, acc_port = in_port inb, acc_protocol = in_protocol inb,
                acc_secret = secret_of sha224 (in_protocol inb) (in_secret inb)\<rparr> \<and> cell = Some self)"
  by (cases "case in_tls inb of None \<Rightarrow> Ok None | Some c \<Rightarrow> make_server_config fs pem single_cert c")
    (auto simp: TcpAcceptor_init_def Let_def)

definition sample_digest :: "bytes \<Rightarrow> bytes" where
  "sample_digest _ = replicate 28 0xAA"

lemma sample_digest_secret: "hex_secret sample_digest pw = sample_secret"
proof -
  have "bytes_of_str (concat (map hex2 (replicate 28 0xAA))) = sample_secret"
    by code_simp
  then show ?thesis
    by (simp add: hex_secret_def sample_digest_def)
qed

definition sample_inbound :: InboundConfig where
  "sample_inbound = \<lparr>in_mode = InboundTCP, in_protocol = TROJAN, in_address = ''0.0.0.0'', in_port = 8081,
     in_secret = Some ''pw'', in_tls = None\<rparr>"

definition sample_acceptor :: TcpAcceptor where
  "sample_acceptor = \<lparr>tls_acceptor = None, acc_port = 8081, acc_protocol = TROJAN, acc_secret = sample_secret\<rparr>"

lemma sample_acceptor_init:
  "TcpAcceptor_init fs pem single_cert sample_digest sample_inbound None = Ok (sample_acceptor, Some sample_acceptor)"
  by (simp add: TcpAcceptor_init_Ok sample_inbound_def sample_acceptor_def secret_of_def sample_digest_secret)

lemma sample_acceptor_accept:
  "TcpAcceptor_accept conn_inbound sample_acceptor (peer (trojan_header CRLF CRLF sample_request @ rest)) =
     (Ok (trojan_into_request sample_request, Plain ()), peer rest)"
  by (simp add: TcpAcceptor_accept_def sample_acceptor_def conn_inbound_def amap_Ok_iff accept_sample)

definition no_files :: file_system where
  "no_files _ = Inl (Error OtherKind ''no such file'')"

definition no_pem :: pemfile where
  "no_pem = \<lparr>pem_certs = (\<lambda>_. Inr []), pem_read_one = (\<lambda>_. Inr None)\<rparr>"

section \<open>Properties\<close>

text \<open>
  C19: A Trojan acceptor made from the configuration accepts a connection only when a password is
  configured and the stream it hands out, the TLS stream whenever the acceptor has a TLS
  configuration, begins with the header that carries the digest of that password; without a
  password nobody is accepted.
\<close>

theorem tcp_accept_authenticated:
  assumes "inbound_streams io invar view" and "invar s" and "in_protocol inb = TROJAN"
    and "TcpAcceptor_init fs pem single_cert sha224 inb None = Ok (self, cell)"
    and "TcpAcceptor_accept io self s = (Ok (q, h), s')"
  shows "\<exists>pw t r sep1 sep2. in_secret inb = Some pw \<and> wf_trojan r \<and> hex r = hex_secret sha224 pw \<and>
    q = trojan_into_request r \<and> inp (view h t) = trojan_header sep1 sep2 r @ inp (view h s') \<and>
    (case tls_acceptor self of
       None \<Rightarrow> h = Plain () \<and> t = s
     | Some cfg \<Rightarrow> h = RustlsServer () \<and> tls_accept io cfg s = (Ok (), t))"
proof -
  have self: "acc_protocol self = TROJAN" "acc_secret self = secret_of sha224 TROJAN (in_secret inb)"
    using assms(3,4) by (auto simp: TcpAcceptor_init_Ok)
  obtain t r sep1 sep2 where r: "wf_trojan r" "hex r = acc_secret self" "q = trojan_into_request r"
    "inp (view h t) = trojan_header sep1 sep2 r @ inp (view h s')"
    "h = Plain () \<and> t = s \<and> tls_acceptor self = None \<or>
     h = RustlsServer () \<and> (\<exists>cfg. tls_acceptor self = Some cfg \<and> tls_accept io cfg s = (Ok (), t))"
    using inbound_streams.accept_trojan [OF assms(1,2) self(1) assms(5)] by blast
  have "acc_secret self \<noteq> []"
    using r(1,2) by (auto simp: wf_trojan_def HEX_SIZE_def)
  then obtain pw where pw: "in_secret inb = Some pw" "hex_secret sha224 pw = acc_secret self"
    using self(2) by (cases "in_secret inb") (simp_all add: secret_of_def)
  have "case tls_acceptor self of None \<Rightarrow> h = Plain () \<and> t = s
      | Some cfg \<Rightarrow> h = RustlsServer () \<and> tls_accept io cfg s = (Ok (), t)"
    using r(5) by auto
  with pw r(1-4) show ?thesis by metis
qed

theorem tcp_accept_authenticated_witness:
  "\<exists>r sep1 sep2. wf_trojan r \<and> hex r = sample_secret \<and>
     trojan_header CRLF CRLF sample_request @ [1] = trojan_header sep1 sep2 r @ [1]"
  using tcp_accept_authenticated [OF conn_in.inbound_streams_axioms TrueI _ sample_acceptor_init
      sample_acceptor_accept, where rest1 = "[1]"]
  by (auto simp: sample_inbound_def sample_digest_secret sample_acceptor_def)

text \<open>
  C39: When the certificate or the key of the configured TLS section cannot be loaded, the acceptor
  is the one of a configuration without TLS: it serves the same port in plaintext instead of
  refusing to start.
\<close>

theorem tls_failure_means_plaintext:
  assumes "in_tls inb = Some cfg"
    and "\<nexists>certs key. load_certs fs pem (cert_path cfg) = Inr certs \<and> load_private_key fs pem (key_path cfg) = Inr key"
  shows "TcpAcceptor_init fs pem single_cert sha224 inb cell =
    TcpAcceptor_init fs pem single_cert sha224 (inb\<lparr>in_tls := None\<rparr>) cell"
proof -
  have "make_server_config fs pem single_cert cfg = Ok None"
    using assms(2) by (auto simp: make_server_config_def split: sum.split)
  with assms(1) show ?thesis
    by (simp add: TcpAcceptor_init_def)
qed

theorem tls_failure_means_plaintext_witness:
  "TcpAcceptor_init no_files no_pem (\<lambda>_ _. Inl ''no key'') sample_digest
     (sample_inbound\<lparr>in_tls := Some \<lparr>cert_path = ''c'', key_path = ''k''\<rparr>\<rparr>) None =
   Ok (sample_acceptor, Some sample_acceptor)"
proof -
  let ?cfg = "\<lparr>cert_path = ''c'', key_path = ''k''\<rparr>"
  have "sample_inbound\<lparr>in_tls := None\<rparr> = sample_inbound"
    by (simp add: sample_inbound_def)
  then show ?thesis
    using tls_failure_means_plaintext [where inb = "sample_inbound\<lparr>in_tls := Some ?cfg\<rparr>" and cfg = ?cfg
        and fs = no_files and pem = no_pem and single_cert = "\<lambda>_ _. Inl ''no key''"
        and ?sha224.0 = sample_digest and cell = None]
    by (simp add: load_certs_def no_files_def sample_acceptor_init)
qed

end
