(* ===== verification/Relay.thy ===== *)
theory Relay
  imports Async_Io
begin

text \<open>
  What the data-forwarding functions share: the \<^verbatim>\<open>loop\<close> of the source (a loop that never
  ends is the value \<^verbatim>\<open>None\<close>), \<^verbatim>\<open>tokio::select!\<close> over two loops as a run under a
  schedule, \<^verbatim>\<open>std::io::Cursor\<close>, and the abstract datagram socket, message channel and
  network of two connections that the contracts of this theory refer to.
\<close>

section \<open>Loops\<close>

partial_function (option) loop :: "('s, unit) async \<Rightarrow> 's \<Rightarrow> (unit outcome \<times> 's) option" where
  "loop body s =
     (case body s of
        (Ok _, s') \<Rightarrow> loop body s'
      | (Err e, s') \<Rightarrow> Some (Err e, s')
      | (Panic p, s') \<Rightarrow> Some (Panic p, s')
      | (Hang, s') \<Rightarrow> Some (Hang, s'))"

fun steps :: "nat \<Rightarrow> ('s, unit) async \<Rightarrow> ('s, unit) async" where
  "steps 0 body = return ()"
| "steps (Suc n) body = await body (\<lambda>_. steps n body)"

lemma loop_Ok: "body s = (Ok u, s') \<Longrightarrow> loop body s = loop body s'"
  by (subst loop.simps) simp

lemma loop_stop: "body s = (r, s') \<Longrightarrow> \<not> is_Ok r \<Longrightarrow> loop body s = Some (r, s')"
  by (subst loop.simps) (cases r; simp)

lemma loop_steps: "steps n body s = (Ok u, s') \<Longrightarrow> loop body s = loop body s'"
proof (induction n arbitrary: s)
  case (Suc n)
  then obtain v t where "body s = (Ok v, t)" "steps n body t = (Ok u, s')"
    by (auto elim: await_OkE)
  then show ?case
    using Suc.IH loop_Ok by metis
qed simp

lemma loop_returns:
  assumes "loop body s = Some rs"
  shows "\<not> is_Ok (fst rs) \<and> (\<exists>n t. steps n body s = (Ok (), t) \<and> body t = rs)"
proof (rule loop.raw_induct [where P = "\<lambda>body s rs. \<not> is_Ok (fst rs) \<and>
    (\<exists>n t. steps n body s = (Ok (), t) \<and> body t = rs)", OF _ assms])
  fix lp :: "('s, unit) async \<Rightarrow> 's \<Rightarrow> (unit outcome \<times> 's) option"
    and body :: "('s, unit) async" and s rs
  assume IH: "\<And>body s rs. lp body s = Some rs \<Longrightarrow>
      \<not> is_Ok (fst rs) \<and> (\<exists>n t. steps n body s = (Ok (), t) \<and> body t = rs)"
    and eq: "(case body s of
        (Ok _, s') \<Rightarrow> lp body s'
      | (Err e, s') \<Rightarrow> Some (Err e, s')
      | (Panic p, s') \<Rightarrow> Some (Panic p, s')
      | (Hang, s') \<Rightarrow> Some (Hang, s')) = Some rs"
  obtain q u where q: "body s = (q, u)" by (cases "body s")
  show "\<not> is_Ok (fst rs) \<and> (\<exists>n t. steps n body s = (Ok (), t) \<and> body t = rs)"
  proof (cases "is_Ok q")
    case True
    then have "lp body u = Some rs"
      using eq q by (auto simp: is_Ok_iff)
    from IH [OF this] obtain n t where t: "\<not> is_Ok (fst rs)" "steps n body u = (Ok (), t)" "body t = rs"
      by blast
    have "steps (Suc n) body s = (Ok (), t)"
      using True q t(2) by (auto simp: is_Ok_iff await_def)
    with t show ?thesis by blast
  next
    case False
    then have "rs = (q, u)"
      using eq q by (cases q) simp_all
    moreover have "steps 0 body s = (Ok (), s)"
      by simp
    ultimately show ?thesis
      using False q by (metis fst_conv)
  qed
qed

lemma steps_preserve:
  assumes step: "\<And>t. P t \<Longrightarrow> \<exists>t'. body t = (Ok (), t') \<and> P t'"
  shows "P s \<Longrightarrow> steps n body s = (Ok (), t) \<Longrightarrow> P t"
proof (induction n arbitrary: s)
  case (Suc n)
  obtain w where w: "body s = (Ok (), w)" "P w"
    using step [OF Suc.prems(1)] by blast
  then have "steps n body w = (Ok (), t)"
    using Suc.prems(2) by (simp add: await_def)
  then show ?case
    by (rule Suc.IH [OF w(2)])
qed simp

lemma loop_diverges:
  assumes "P s" and step: "\<And>t. P t \<Longrightarrow> \<exists>t'. body t = (Ok (), t') \<and> P t'"
  shows "loop body s = None"
proof (cases "loop body s")
  case (Some rs)
  from loop_returns [OF this] obtain n t
    where n: "\<not> is_Ok (fst rs)" "steps n body s = (Ok (), t)" "body t = rs"
    by (elim conjE exE)
  have "P t"
    using steps_preserve [of P body, OF step assms(1) n(2)] .
  then obtain t' where "body t = (Ok (), t')"
    using step [OF \<open>P t\<close>] by blast
  then have "is_Ok (fst rs)"
    by (simp flip: n(3))
  with n(1) show ?thesis by contradiction
qed simp

text \<open>Two loops whose passes keep a relation between their states do the same.\<close>

lemma lockstep_steps:
  assumes step: "\<And>s t. rel s t \<Longrightarrow> fst (m s) = fst (n t) \<and> rel (snd (m s)) (snd (n t))" and "rel s t"
  shows "fst (steps k m s) = fst (steps k n t) \<and> rel (snd (steps k m s)) (snd (steps k n t))"
  using assms(2)
proof (induction k arbitrary: s t)
  case (Suc k)
  obtain q s' where q: "m s = (q, s')" by (cases "m s")
  obtain q' t' where q': "n t = (q', t')" by (cases "n t")
  have "q' = q" "rel s' t'" using step [OF Suc.prems] q q' by simp_all
  with Suc.IH [of s' t'] q q' show ?case by (cases q) (simp_all add: await_def)
qed simp

lemma lockstep_loop:
  assumes step: "\<And>s t. rel s t \<Longrightarrow> fst (m s) = fst (n t) \<and> rel (snd (m s)) (snd (n t))" and "rel s t"
    and "loop m s = Some (r, s')"
  shows "\<exists>t'. loop n t = Some (r, t') \<and> rel s' t'"
proof -
  obtain k u where u: "\<not> is_Ok r" "steps k m s = (Ok (), u)" "m u = (r, s')"
    using loop_returns [OF assms(3)] by auto
  have "fst (steps k n t) = Ok ()" "rel u (snd (steps k n t))"
    using lockstep_steps [where rel = rel and m = m and n = n and k = k, OF step assms(2)] u(2) by auto
  then obtain v where v: "steps k n t = (Ok (), v)" "rel u v"
    by (cases "steps k n t") simp
  obtain r' t' where t': "n v = (r', t')" by (cases "n v")
  from step [OF v(2)] u(3) t' have "r' = r" "rel s' t'" by simp_all
  moreover from this have "loop n t = Some (r, t')"
    using loop_steps [OF v(1)] loop_stop [of n v r t'] t' u(1) by simp
  ultimately show ?thesis by blast
qed

section \<open>Selecting between two tasks\<close>

text \<open>
  A task makes one step: \<^verbatim>\<open>Ok True\<close> when it goes on, \<^verbatim>\<open>Ok False\<close> when it has
  finished, \<^verbatim>\<open>Hang\<close> when it waits for something that never comes. \<^verbatim>\<open>tokio::select!\<close> runs
  both until one finishes, drops the other and ignores the result; a panic of either ends the
  whole. The schedule says which task moves next; when it is used up the run is still going on.
\<close>

type_synonym 's task = "('s, bool) async"

definition body_task :: "('s, unit) async \<Rightarrow> 's task" where
  "body_task body = amap (\<lambda>_. True) body"

definition idle :: "'s task" where
  "idle s = (Hang, s)"

fun select_run :: "bool list \<Rightarrow> 's task \<Rightarrow> 's task \<Rightarrow> ('s, unit) async" where
  "select_run [] t1 t2 s = (Hang, s)"
| "select_run (b # bs) t1 t2 s =
     (case (if b then t1 s else t2 s) of
        (Ok True, s') \<Rightarrow> select_run bs t1 t2 s'
      | (Ok False, s') \<Rightarrow> (Ok (), s')
      | (Err _, s') \<Rightarrow> (Ok (), s')
      | (Panic p, s') \<Rightarrow> (Panic p, s')
      | (Hang, s') \<Rightarrow> if b then select_run bs idle t2 s' else select_run bs t1 idle s')"

text \<open>
  An invariant of both tasks holds at the end of every run, and the run ends with the outcome of
  a last step of one of them.
\<close>

lemma select_run_invariant:
  assumes "P s" and "select_run sched t1 t2 s = (r, s')"
    and "\<And>t q t'. P t \<Longrightarrow> t1 t = (q, t') \<Longrightarrow> P t'"
    and "\<And>t q t'. P t \<Longrightarrow> t2 t = (q, t') \<Longrightarrow> P t'"
  shows "P s' \<and> (r = Hang \<or> (\<exists>t q. P t \<and> (t1 t = (q, s') \<or> t2 t = (q, s')) \<and>
    (r = Ok () \<and> (q = Ok False \<or> (\<exists>e. q = Err e)) \<or> (\<exists>p. r = Panic p \<and> q = Panic p))))"
proof -
  have "P s' \<and> (r = Hang \<or> (\<exists>t q. P t \<and> (t1 t = (q, s') \<or> t2 t = (q, s')) \<and>
    (r = Ok () \<and> (q = Ok False \<or> (\<exists>e. q = Err e)) \<or> (\<exists>p. r = Panic p \<and> q = Panic p))))"
    if "select_run sched u1 u2 s = (r, s')" "u1 \<in> {t1, idle}" "u2 \<in> {t2, idle}" "P s" for u1 u2
    using that
  proof (induction sched arbitrary: u1 u2 s)
    case (Cons b bs)
    obtain q t where step: "(if b then u1 s else u2 s) = (q, t)"
      by (cases "if b then u1 s else u2 s")
    then have last: "t1 s = (q, t) \<or> t2 s = (q, t) \<or> q = Hang \<and> t = s"
      using Cons.prems(2,3) by (cases b) (auto simp: idle_def)
    then have "P t"
      by (elim disjE conjE) (simp_all add: assms(3,4) [OF Cons.prems(4)] Cons.prems(4))
    note t = this last
    show ?case
    proof (cases q)
      case (Ok go)
      show ?thesis
      proof (cases go)
        case True
        with step Ok Cons.prems(1) have "select_run bs u1 u2 t = (r, s')" by simp
        then show ?thesis by (rule Cons.IH [OF _ Cons.prems(2,3) t(1)])
      next
        case False
        with step Ok Cons.prems(1) have "r = Ok ()" "t = s'" by simp_all
        with t Ok False Cons.prems(4) show ?thesis by auto
      qed
    next
      case (Err e)
      with step Cons.prems(1) have "r = Ok ()" "t = s'" by simp_all
      with t Err Cons.prems(4) show ?thesis by auto
    next
      case (Panic p)
      with step Cons.prems(1) have "r = Panic p" "t = s'" by simp_all
      with t Panic Cons.prems(4) show ?thesis by auto
    next
      case Hang
      with step Cons.prems(1)
      have "select_run bs (if b then idle else u1) (if b then u2 else idle) t = (r, s')"
        by (cases b) simp_all
      then show ?thesis
        by (rule Cons.IH) (use Cons.prems(2,3) t(1) in simp_all)
    qed
  qed simp
  from this [of t1 t2] assms(1,2) show ?thesis by simp
qed

text \<open>
  A task that is not run again after it has failed or hung needs its own invariant only until then:
  \<open>P\<close> while the first task goes on, \<open>Q\<close> always. The run ends by itself only when one of them
  stops, and then \<open>E1\<close> or \<open>E2\<close> holds.
\<close>

lemma select_run_guarded:
  assumes "P s" and "select_run sched t1 t2 s = (r, s')" and imp: "\<And>t. P t \<Longrightarrow> Q t"
    and t1: "\<And>t q t'. P t \<Longrightarrow> t1 t = (q, t') \<Longrightarrow>
      Q t' \<and> (q = Ok True \<longrightarrow> P t') \<and> (\<forall>p. q \<noteq> Panic p) \<and> (q = Ok True \<or> q = Hang \<or> E1 t')"
    and t2: "\<And>t q t'. P t \<Longrightarrow> t2 t = (q, t') \<Longrightarrow> P t'"
    and t2': "\<And>t q t'. Q t \<Longrightarrow> t2 t = (q, t') \<Longrightarrow>
      Q t' \<and> (\<forall>p. q \<noteq> Panic p) \<and> (q = Ok True \<or> q = Hang \<or> E2 t')"
  shows "Q s' \<and> (r = Hang \<or> r = Ok () \<and> (E1 s' \<or> E2 s'))"
proof -
  have "Q s' \<and> (r = Hang \<or> r = Ok () \<and> (E1 s' \<or> E2 s'))"
    if "select_run sched u1 u2 s = (r, s')" "u1 = t1 \<and> P s \<or> u1 = idle \<and> Q s" "u2 \<in> {t2, idle}" for u1 u2
    using that
  proof (induction sched arbitrary: u1 u2 s)
    case Nil
    then show ?case using imp by auto
  next
    case (Cons b bs)
    obtain q t where step: "(if b then u1 s else u2 s) = (q, t)"
      by (cases "if b then u1 s else u2 s")
    have "Q s" using Cons.prems(2) imp by blast
    have t: "Q t" "\<forall>p. q \<noteq> Panic p" "q = Ok True \<longrightarrow> u1 = t1 \<and> P t \<or> u1 = idle \<and> Q t"
        "\<not> b \<longrightarrow> u1 = t1 \<and> P t \<or> u1 = idle \<and> Q t" "q = Ok True \<or> q = Hang \<or> E1 t \<or> E2 t"
      using step Cons.prems(2,3) t1 [of s q t] t2 [of s q t] t2' [of s q t] \<open>Q s\<close>
      by (cases b; auto simp: idle_def)+
    show ?case
    proof (cases q)
      case (Ok go)
      show ?thesis
      proof (cases go)
        case True
        with step Ok Cons.prems(1) have "select_run bs u1 u2 t = (r, s')" by simp
        from Cons.IH [OF this _ Cons.prems(3)] t(3) Ok True show ?thesis by simp
      next
        case False
        with step Ok Cons.prems(1) t show ?thesis by simp
      qed
    next
      case Hang
      then have "select_run bs (if b then idle else u1) (if b then u2 else idle) t = (r, s')"
        using step Cons.prems(1) by (cases b) auto
      from Cons.IH [OF this] t(1,4) Cons.prems(3) show ?thesis by (cases b) auto
    qed (use step Cons.prems(1) t in simp_all)
  qed
  from this [OF assms(2)] assms(1) show ?thesis by simp
qed

lemma select_run_result:
  "select_run sched t1 t2 s = (r, s') \<Longrightarrow> r = Ok () \<or> r = Hang \<or> (\<exists>p. r = Panic p)"
  by (induction sched t1 t2 s rule: select_run.induct) (auto split: prod.splits outcome.splits bool.splits if_splits)

text \<open>
  \<^verbatim>\<open>select!\<close> over two handles of \<^verbatim>\<open>tokio::spawn\<close>: dropping a handle detaches its task,
  which goes on for the rest of the schedule, and a panic of a task is an error of its handle.
\<close>

fun detached :: "bool list \<Rightarrow> 's task \<Rightarrow> 's \<Rightarrow> 's" where
  "detached [] t s = s"
| "detached (b # bs) t s = (case t s of (Ok True, s') \<Rightarrow> detached bs t s' | (_, s') \<Rightarrow> s')"

fun select_spawned :: "bool list \<Rightarrow> 's task \<Rightarrow> 's task \<Rightarrow> ('s, unit) async" where
  "select_spawned [] t1 t2 s = (Hang, s)"
| "select_spawned (b # bs) t1 t2 s =
     (case (if b then t1 s else t2 s) of
        (Ok True, s') \<Rightarrow> select_spawned bs t1 t2 s'
      | (Hang, s') \<Rightarrow> if b then select_spawned bs idle t2 s' else select_spawned bs t1 idle s'
      | (_, s') \<Rightarrow> (Ok (), detached bs (if b then t2 else t1) s'))"

lemma detached_invariant:
  assumes "\<And>t q t'. P t \<Longrightarrow> u t = (q, t') \<Longrightarrow> P t'"
  shows "P s \<Longrightarrow> P (detached bs u s)"
proof (induction bs arbitrary: s)
  case (Cons b bs)
  obtain q t where step: "u s = (q, t)" by (cases "u s")
  then have "P t" by (rule assms [OF Cons.prems])
  with step Cons.IH show ?case
    by (simp split: outcome.split bool.split)
qed simp

lemma select_spawned_invariant:
  assumes "P s" and "select_spawned sched t1 t2 s = (r, s')"
    and "\<And>t q t'. P t \<Longrightarrow> t1 t = (q, t') \<Longrightarrow> P t'"
    and "\<And>t q t'. P t \<Longrightarrow> t2 t = (q, t') \<Longrightarrow> P t'"
  shows "P s' \<and> (r = Hang \<or> r = Ok ())"
  using assms
proof (induction sched arbitrary: t1 t2 s)
  case Nil
  from Nil.prems(1,2) show ?case by auto
next
  case (Cons b bs)
  have idle: "P t \<Longrightarrow> idle t = (q, t') \<Longrightarrow> P t'" for t and q :: "bool outcome" and t'
    by (simp add: idle_def)
  obtain q t where step: "(if b then t1 s else t2 s) = (q, t)"
    by (cases "if b then t1 s else t2 s")
  then have "t1 s = (q, t) \<or> t2 s = (q, t)" by (cases b) simp_all
  then have t: "P t"
    by (rule disjE) (erule Cons.prems(3,4) [OF Cons.prems(1)])+
  have other: "P (detached bs (if b then t2 else t1) t)"
    by (cases b) (simp_all only: if_True if_False detached_invariant [where P = P and u = t1, OF Cons.prems(3) t]
        detached_invariant [where P = P and u = t2, OF Cons.prems(4) t])
  show ?case
  proof (cases "q = Hang \<or> q = Ok True")
    case False
    then have "r = Ok ()" "s' = detached bs (if b then t2 else t1) t"
      using Cons.prems(2) step by (auto split: outcome.splits bool.splits)
    with other show ?thesis by simp
  next
    case True
    then consider "select_spawned bs t1 t2 t = (r, s')" | "select_spawned bs idle t2 t = (r, s')"
      | "select_spawned bs t1 idle t = (r, s')"
      using Cons.prems(2) step by (cases b) auto
    then show ?thesis
    proof cases
      case 1
      then show ?thesis by (rule Cons.IH [OF t _ Cons.prems(3,4)])
    next
      case 2
      then show ?thesis by (rule Cons.IH [OF t _ idle Cons.prems(4)])
    next
      case 3
      then show ?thesis by (rule Cons.IH [OF t _ Cons.prems(3) idle])
    qed
  qed
qed

text \<open>\<^verbatim>\<open>tokio::io::copy\<close> moves one buffer at a time and finishes at the end of the input.\<close>

definition copy_step :: "nat \<Rightarrow> 's reader \<Rightarrow> 's writer \<Rightarrow> 's task" where
  "copy_step n R W =
     await (read R n) (\<lambda>bs.
       if bs = [] then await (flush W) (\<lambda>_. return False)
       else await (write_all W bs) (\<lambda>_. return True))"

section \<open>Cursors\<close>

text \<open>
  \<^verbatim>\<open>std::io::Cursor<Vec<u8>>\<close>: a write at the position overwrites what is there and extends
  the vector beyond its end (padding with zeros if the position lies past it).
\<close>

record Cursor =
  cvec :: bytes
  cpos :: nat

definition Cursor_new :: "bytes \<Rightarrow> Cursor" where
  "Cursor_new v = \<lparr>cvec = v, cpos = 0\<rparr>"

definition cursor_write :: "bytes \<Rightarrow> (Cursor, unit) async" where
  "cursor_write bs c =
     (Ok (), \<lparr>cvec = take (cpos c) (cvec c) @ replicate (cpos c - length (cvec c)) 0 @ bs @
                drop (cpos c + length bs) (cvec c),
              cpos = cpos c + length bs\<rparr>)"

definition cursor_writer :: "Cursor writer" where
  "cursor_writer =
     \<lparr>write_all = cursor_write,
      write_u8 = (\<lambda>b. cursor_write [b]),
      write_u16 = (\<lambda>w. cursor_write (be_bytes 2 w)),
      flush = return ()\<rparr>"

definition cursor_wf :: "Cursor \<Rightarrow> bool" where
  "cursor_wf c \<longleftrightarrow> cpos c \<le> length (cvec c)"

definition cursor_conn :: "Cursor \<Rightarrow> conn" where
  "cursor_conn c =
     \<lparr>inp = [], iend = Eof, isizes = [], outp = take (cpos c) (cvec c), oend = Accepting\<rparr>"

lemma simulates_cursor_write:
  "simulates cursor_wf cursor_conn outp (cursor_write bs) (conn_write_all bs)"
  by (rule simulatesI) (auto simp: cursor_write_def cursor_conn_def cursor_wf_def conn_write_all_def)

interpretation cursor: byte_writer cursor_writer conn_writer cursor_wf cursor_conn outp
proof unfold_locales
  show "simulates cursor_wf cursor_conn outp (flush cursor_writer) (flush conn_writer)"
    by (rule simulatesI) (auto simp: cursor_writer_def cursor_conn_def conn_flush_def)
qed (simp_all add: cursor_writer_def simulates_cursor_write)

text \<open>
  Building a buffer through a cursor and truncating it at the position yields what was written,
  whatever the buffer held before.
\<close>

definition cursor_result :: "Cursor \<Rightarrow> bytes" where
  "cursor_result c = take (cpos c) (cvec c)"

lemma cursor_build:
  assumes "simulates cursor_wf cursor_conn outp m m0" and "writes m0 bs"
  shows "\<exists>c'. m (Cursor_new v) = (Ok (), c') \<and> cursor_result c' = bs"
proof -
  let ?c = "cursor_conn (Cursor_new v)"
  have "oend ?c = Accepting" "outp ?c = []"
    by (simp_all add: cursor_conn_def Cursor_new_def)
  then have "m0 ?c = (Ok (), ?c\<lparr>outp := bs\<rparr>)"
    using writes_Ok [OF assms(2)] by simp
  moreover have "cursor_wf (Cursor_new v)"
    by (simp add: cursor_wf_def Cursor_new_def)
  ultimately obtain c' where "m (Cursor_new v) = (Ok (), c')" "cursor_conn c' = ?c\<lparr>outp := bs\<rparr>"
    using simulates_Ok [OF assms(1)] by blast
  then show ?thesis
    by (auto simp: cursor_conn_def cursor_result_def)
qed

section \<open>Simulation of loops\<close>

lemma simulates_steps [sim_intros]:
  assumes "simulates invar view obs m m0"
  shows "simulates invar view obs (steps n m) (steps n m0)"
  using assms by (induction n) (auto intro: sim_intros)

lemma simulates_loop:
  assumes sim: "simulates invar view obs m m0" and "invar s" and "loop m0 (view s) = Some (r, t)"
  shows "\<exists>s'. loop m s = Some (r, s') \<and> obs (view s') = obs t"
proof -
  obtain n u where u: "\<not> is_Ok r" "steps n m0 (view s) = (Ok (), u)" "m0 u = (r, t)"
    using loop_returns [OF assms(3)] by auto
  obtain s1 where s1: "steps n m s = (Ok (), s1)" "invar s1" "view s1 = u"
    using simulates_Ok [OF simulates_steps [OF sim] assms(2)] u(2) by blast
  obtain s' where s': "m s1 = (r, s')" "obs (view s') = obs t"
    using simulatesD [OF sim s1(2)] u(3) s1(3) by blast
  have "loop m s = Some (r, s')"
    using loop_steps [OF s1(1)] loop_stop [of m s1 r s'] s'(1) u(1) by simp
  with s'(2) show ?thesis by blast
qed

lemma simulates_loop_None:
  assumes sim: "simulates invar view obs m m0" and "invar s" and "loop m0 (view s) = None"
  shows "loop m s = None"
proof (cases "loop m s")
  case (Some rs)
  from loop_returns [OF this] obtain n s1
    where s1: "\<not> is_Ok (fst rs)" "steps n m s = (Ok (), s1)" "m s1 = rs"
    by (elim conjE exE)
  have u: "steps n m0 (view s) = (Ok (), view s1)" "invar s1"
    using simulates_OkD [OF simulates_steps [OF sim] assms(2) s1(2)] by simp_all
  have "\<not> is_Ok (fst (m0 (view s1)))"
    using simulates_fst [OF sim u(2)] s1 by simp
  then have "loop m0 (view s) \<noteq> None"
    using loop_steps [OF u(1)] loop_stop [of m0 "view s1"] by (metis option.distinct(1) prod.collapse)
  with assms(3) show ?thesis by contradiction
qed simp

text \<open>
  Against the full state as observation and without an invariant, a simulation also survives the
  steps that fail or hang; \<^verbatim>\<open>select!\<close> goes on after those.
\<close>

abbreviation tracks :: "('s \<Rightarrow> 't) \<Rightarrow> ('s, 'a) async \<Rightarrow> ('t, 'a) async \<Rightarrow> bool" where
  "tracks view \<equiv> simulates (\<lambda>_. True) view (\<lambda>n. n)"

lemma tracks_iff:
  "tracks view m m0 \<longleftrightarrow> (\<forall>s. fst (m s) = fst (m0 (view s)) \<and> view (snd (m s)) = snd (m0 (view s)))"
proof
  assume "tracks view m m0"
  then show "\<forall>s. fst (m s) = fst (m0 (view s)) \<and> view (snd (m s)) = snd (m0 (view s))"
    using simulates_run [of "\<lambda>_. True" view "\<lambda>n. n" m m0] by blast
next
  assume *: "\<forall>s. fst (m s) = fst (m0 (view s)) \<and> view (snd (m s)) = snd (m0 (view s))"
  show "tracks view m m0"
  proof (rule simulatesI)
    fix s r s' r0 t'
    assume "m s = (r, s')" "m0 (view s) = (r0, t')"
    with * [rule_format, of s] show "r = r0 \<and> view s' = t' \<and> (is_Ok r \<longrightarrow> True \<and> view s' = t')"
      by simp
  qed
qed

lemma tracksD: "tracks view m m0 \<Longrightarrow> m s = (r, s') \<Longrightarrow> m0 (view s) = (r, view s')"
  unfolding tracks_iff by (metis fst_conv snd_conv prod.collapse)

lemma tracks_run: "tracks view m m0 \<Longrightarrow> m0 (view s) = (r, t) \<Longrightarrow> \<exists>s'. m s = (r, s') \<and> view s' = t"
  unfolding tracks_iff by (metis fst_conv snd_conv prod.collapse)

lemma tracks_select [sim_intros]:
  assumes "tracks view t1 u1" and "tracks view t2 u2"
  shows "tracks view (select_run sched t1 t2) (select_run sched u1 u2)"
  using assms
proof (induction sched arbitrary: t1 t2 u1 u2)
  case (Cons b bs)
  have idle: "tracks view idle idle"
    by (simp add: tracks_iff idle_def)
  show ?case
    unfolding tracks_iff
  proof
    fix s
    obtain q s' where step: "(if b then t1 s else t2 s) = (q, s')"
      by (cases "if b then t1 s else t2 s")
    then have step0: "(if b then u1 (view s) else u2 (view s)) = (q, view s')"
      using tracksD [OF Cons.prems(1)] tracksD [OF Cons.prems(2)] by (cases b) simp_all
    show "fst (select_run (b # bs) t1 t2 s) = fst (select_run (b # bs) u1 u2 (view s)) \<and>
        view (snd (select_run (b # bs) t1 t2 s)) = snd (select_run (b # bs) u1 u2 (view s))"
    proof (cases q)
      case (Ok go)
      with step step0 Cons.IH [OF Cons.prems] show ?thesis
        by (cases go) (simp_all add: tracks_iff)
    next
      case Hang
      with step step0 Cons.IH [OF idle Cons.prems(2)] Cons.IH [OF Cons.prems(1) idle] show ?thesis
        by (cases b) (simp_all add: tracks_iff)
    qed (use step step0 in simp_all)
  qed
qed (simp add: tracks_iff)

lemma tracks_detached:
  assumes "tracks view t u"
  shows "view (detached bs t s) = detached bs u (view s)"
proof (induction bs arbitrary: s)
  case (Cons b bs)
  obtain q s' where step: "t s = (q, s')" by (cases "t s")
  with tracksD [OF assms step] Cons.IH show ?case
    by (cases q) (simp_all split: bool.split)
qed simp

lemma tracks_select_spawned [sim_intros]:
  assumes "tracks view t1 u1" and "tracks view t2 u2"
  shows "tracks view (select_spawned sched t1 t2) (select_spawned sched u1 u2)"
  using assms
proof (induction sched arbitrary: t1 t2 u1 u2)
  case (Cons b bs)
  have idle: "tracks view idle idle"
    by (simp add: tracks_iff idle_def)
  note IH = Cons.IH [OF Cons.prems] Cons.IH [OF idle Cons.prems(2)] Cons.IH [OF Cons.prems(1) idle]
  note rest = tracks_detached [OF Cons.prems(1)] tracks_detached [OF Cons.prems(2)]
  show ?case
    unfolding tracks_iff
  proof
    fix s
    obtain q s' where step: "(if b then t1 s else t2 s) = (q, s')"
      by (cases "if b then t1 s else t2 s")
    then have step0: "(if b then u1 (view s) else u2 (view s)) = (q, view s')"
      using tracksD [OF Cons.prems(1)] tracksD [OF Cons.prems(2)] by (cases b) simp_all
    show "fst (select_spawned (b # bs) t1 t2 s) = fst (select_spawned (b # bs) u1 u2 (view s)) \<and>
        view (snd (select_spawned (b # bs) t1 t2 s)) = snd (select_spawned (b # bs) u1 u2 (view s))"
    proof (cases q)
      case (Ok go)
      with step step0 IH(1) rest show ?thesis
        by (cases go; cases b) (simp_all add: tracks_iff)
    next
      case Hang
      with step step0 IH(2,3) show ?thesis
        by (cases b) (simp_all add: tracks_iff)
    qed (use step step0 rest in \<open>cases b; simp\<close>)+
  qed
qed (simp add: tracks_iff)

lemma simulates_copy_step:
  assumes R: "chunk_reader R R0 invar view obs" and W: "byte_writer W W0 invar view obs"
  shows "simulates invar view obs (copy_step n R W) (copy_step n R0 W0)"
  unfolding copy_step_def
  by (intro sim_intros chunk_reader.sim_read [OF R] byte_writer.sim_write_all [OF W] byte_writer.sim_flush [OF W])

lemma simulates_body_task: "simulates invar view obs m m0 \<Longrightarrow> simulates invar view obs (body_task m) (body_task m0)"
  unfolding body_task_def by (rule simulates_amap)

section \<open>Datagram sockets and channels\<close>

text \<open>
  \<open>sent\<close> are the datagrams the program sent, \<open>incoming\<close> those it will receive; a datagram
  longer than the buffer is cut. A channel takes messages until the receiver is dropped.
\<close>

record udp =
  sent :: "(bytes \<times> SocketAddr) list"
  uend :: wending
  incoming :: "(bytes \<times> SocketAddr) list"
  udend :: ending

definition udp_send_to :: "bytes \<Rightarrow> SocketAddr \<Rightarrow> (udp, nat) async" where
  "udp_send_to bs d u =
     (case uend u of
        Accepting \<Rightarrow> (Ok (length bs), u\<lparr>sent := sent u @ [(bs, d)]\<rparr>)
      | WBreaks k e \<Rightarrow> if k = 0 then (Err e, u)
          else (Ok (length bs), u\<lparr>sent := sent u @ [(bs, d)], uend := WBreaks (k - 1) e\<rparr>)
      | WStalls k \<Rightarrow> if k = 0 then (Hang, u)
          else (Ok (length bs), u\<lparr>sent := sent u @ [(bs, d)], uend := WStalls (k - 1)\<rparr>))"

definition udp_recv_from :: "nat \<Rightarrow> (udp, bytes \<times> SocketAddr) async" where
  "udp_recv_from n u =
     (case incoming u of
        [] \<Rightarrow> (case udend u of Broken e \<Rightarrow> Err e | _ \<Rightarrow> Hang, u)
      | (d, a) # ds \<Rightarrow> (Ok (take n d, a), u\<lparr>incoming := ds\<rparr>))"

definition udp_ops :: "udp udp_socket" where
  "udp_ops = \<lparr>send_to = udp_send_to, recv_from = udp_recv_from, recv = (\<lambda>n. amap fst (udp_recv_from n))\<rparr>"

text \<open>
  A socket bound to an IPv4 address: the system refuses to send from it to an IPv6 address, with the
  error \<open>e\<close>.
\<close>

fun v4_addr :: "SocketAddr \<Rightarrow> bool" where
  "v4_addr (SocketAddr (V4 _) _) = True"
| "v4_addr (SocketAddr (V6 _) _) = False"

definition udp_v4 :: "io_error \<Rightarrow> 's udp_socket \<Rightarrow> 's udp_socket" where
  "udp_v4 e U = U\<lparr>send_to := (\<lambda>bs d. if v4_addr d then send_to U bs d else fail e)\<rparr>"

record 'm chan =
  msgs :: "'m list"
  cend :: wending

definition chan_send :: "'m \<Rightarrow> ('m chan, unit) async" where
  "chan_send m c =
     (case cend c of
        Accepting \<Rightarrow> (Ok (), c\<lparr>msgs := msgs c @ [m]\<rparr>)
      | WBreaks k e \<Rightarrow> if k = 0 then (Err e, c)
          else (Ok (), c\<lparr>msgs := msgs c @ [m], cend := WBreaks (k - 1) e\<rparr>)
      | WStalls k \<Rightarrow> if k = 0 then (Hang, c)
          else (Ok (), c\<lparr>msgs := msgs c @ [m], cend := WStalls (k - 1)\<rparr>))"

definition chan_ops :: "('m chan, 'm) sender" where
  "chan_ops = \<lparr>send = chan_send\<rparr>"

locale udp_io =
  fixes U :: "'s udp_socket" and U0 :: "'t udp_socket"
    and invar :: "'s \<Rightarrow> bool" and view :: "'s \<Rightarrow> 't" and obs :: "'t \<Rightarrow> 'o"
  assumes sim_send_to [sim_intros]: "\<And>bs d. simulates invar view obs (send_to U bs d) (send_to U0 bs d)"
    and sim_recv_from [sim_intros]: "\<And>n. simulates invar view obs (recv_from U n) (recv_from U0 n)"
    and sim_recv [sim_intros]: "\<And>n. simulates invar view obs (recv U n) (recv U0 n)"

locale msg_sender =
  fixes C :: "('s, 'm) sender" and C0 :: "('t, 'm) sender"
    and invar :: "'s \<Rightarrow> bool" and view :: "'s \<Rightarrow> 't" and obs :: "'t \<Rightarrow> 'o"
  assumes sim_send [sim_intros]: "\<And>m. simulates invar view obs (send C m) (send C0 m)"

section \<open>Working on a part of the state\<close>

definition lift_async :: "('n \<Rightarrow> 'c) \<Rightarrow> ('c \<Rightarrow> 'n \<Rightarrow> 'n) \<Rightarrow> ('c, 'a) async \<Rightarrow> ('n, 'a) async" where
  "lift_async get put m n = (case m (get n) of (r, c) \<Rightarrow> (r, put c n))"

definition lift_reader :: "('n \<Rightarrow> 'c) \<Rightarrow> ('c \<Rightarrow> 'n \<Rightarrow> 'n) \<Rightarrow> 'c reader \<Rightarrow> 'n reader" where
  "lift_reader get put R =
     \<lparr>read_exact = (\<lambda>n. lift_async get put (read_exact R n)),
      read_u8 = lift_async get put (read_u8 R),
      read_u16 = lift_async get put (read_u16 R),
      read_u32 = lift_async get put (read_u32 R),
      read_u128 = lift_async get put (read_u128 R),
      read = (\<lambda>n. lift_async get put (read R n)),
      read_buf = (\<lambda>n. lift_async get put (read_buf R n))\<rparr>"

definition lift_writer :: "('n \<Rightarrow> 'c) \<Rightarrow> ('c \<Rightarrow> 'n \<Rightarrow> 'n) \<Rightarrow> 'c writer \<Rightarrow> 'n writer" where
  "lift_writer get put W =
     \<lparr>write_all = (\<lambda>bs. lift_async get put (write_all W bs)),
      write_u8 = (\<lambda>b. lift_async get put (write_u8 W b)),
      write_u16 = (\<lambda>w. lift_async get put (write_u16 W w)),
      flush = lift_async get put (flush W)\<rparr>"

definition lift_udp :: "('n \<Rightarrow> 'c) \<Rightarrow> ('c \<Rightarrow> 'n \<Rightarrow> 'n) \<Rightarrow> 'c udp_socket \<Rightarrow> 'n udp_socket" where
  "lift_udp get put U =
     \<lparr>send_to = (\<lambda>bs d. lift_async get put (send_to U bs d)),
      recv_from = (\<lambda>n. lift_async get put (recv_from U n)),
      recv = (\<lambda>n. lift_async get put (recv U n))\<rparr>"

definition lift_sender :: "('n \<Rightarrow> 'c) \<Rightarrow> ('c \<Rightarrow> 'n \<Rightarrow> 'n) \<Rightarrow> ('c, 'm) sender \<Rightarrow> ('n, 'm) sender" where
  "lift_sender get put C = \<lparr>send = (\<lambda>m. lift_async get put (send C m))\<rparr>"

lemma lift_sels [simp]:
  "read_exact (lift_reader get put R) n = lift_async get put (read_exact R n)"
  "read_u8 (lift_reader get put R) = lift_async get put (read_u8 R)"
  "read_u16 (lift_reader get put R) = lift_async get put (read_u16 R)"
  "read_u32 (lift_reader get put R) = lift_async get put (read_u32 R)"
  "read_u128 (lift_reader get put R) = lift_async get put (read_u128 R)"
  "read (lift_reader get put R) n = lift_async get put (read R n)"
  "read_buf (lift_reader get put R) n = lift_async get put (read_buf R n)"
  "write_all (lift_writer get put W) bs = lift_async get put (write_all W bs)"
  "write_u8 (lift_writer get put W) b = lift_async get put (write_u8 W b)"
  "write_u16 (lift_writer get put W) w = lift_async get put (write_u16 W w)"
  "flush (lift_writer get put W) = lift_async get put (flush W)"
  "send_to (lift_udp get put U) bs d = lift_async get put (send_to U bs d)"
  "recv_from (lift_udp get put U) n = lift_async get put (recv_from U n)"
  "recv (lift_udp get put U) n = lift_async get put (recv U n)"
  "send (lift_sender get put C) m = lift_async get put (send C m)"
  by (simp_all add: lift_reader_def lift_writer_def lift_udp_def lift_sender_def)

lemma lift_async_run: "m (get n) = (r, c) \<Longrightarrow> lift_async get put m n = (r, put c n)"
  by (simp add: lift_async_def)

named_theorems lift_simps \<open>moving a lifting into the combinators\<close>

locale lens =
  fixes get :: "'n \<Rightarrow> 'c" and put :: "'c \<Rightarrow> 'n \<Rightarrow> 'n"
  assumes get_put [simp]: "get (put c n) = c"
    and put_get [simp]: "put (get n) n = n"
    and put_put [simp]: "put c (put d n) = put c n"
begin

lemma lift_return [lift_simps]: "lift_async get put (return a) = return a"
  by (rule ext) (simp add: lift_async_def)

lemma lift_fail [lift_simps]: "lift_async get put (fail e) = fail e"
  by (rule ext) (simp add: lift_async_def)

lemma lift_eval [lift_simps]: "lift_async get put (eval_outcome r) = eval_outcome r"
  by (rule ext) (simp add: lift_async_def)

lemma lift_try [lift_simps]: "lift_async get put (try_result r) = try_result r"
  by (cases r) (auto simp: lift_async_def fun_eq_iff)

lemma lift_await [lift_simps]:
  "lift_async get put (await m k) = await (lift_async get put m) (\<lambda>a. lift_async get put (k a))"
  by (rule ext) (simp add: lift_async_def await_def split: prod.split outcome.split)

lemma simulates_lens: "simulates (\<lambda>_. True) get obs (lift_async get put m) m"
  by (rule simulatesI) (auto simp: lift_async_def split: prod.splits)

end

section \<open>The abstract network\<close>

text \<open>
  A relay task owns two connections, a datagram socket, a message channel and a stream of incoming
  messages (\<open>inbox\<close>, followed by \<open>inend\<close>); \<open>dialed\<close> are the addresses it has tried to
  connect to. Which of them exist depends on the handler; the contracts of a function mention only
  those it uses.
\<close>

record 'm net =
  cli :: conn
  srv :: conn
  sock :: udp
  chan :: "'m chan"
  inbox :: "bytes list"
  inend :: ending
  dialed :: "SocketAddr list"

text \<open>A client connection beside an accepting server connection, an idle socket and an empty channel.\<close>

definition idle_net :: "conn \<Rightarrow> 'm net" where
  "idle_net c =
     \<lparr>cli = c, srv = peer [], sock = \<lparr>sent = [], uend = Accepting, incoming = [], udend = Open\<rparr>,
      chan = \<lparr>msgs = [], cend = Accepting\<rparr>, inbox = [], inend = Open, dialed = []\<rparr>"

lemma idle_net_sel [simp]:
  "cli (idle_net c) = c" "srv (idle_net c) = peer []" "sent (sock (idle_net c)) = []"
  "uend (sock (idle_net c)) = Accepting" "incoming (sock (idle_net c)) = []"
  "udend (sock (idle_net c)) = Open" "msgs (chan (idle_net c)) = []"
  "cend (chan (idle_net c)) = Accepting" "inbox (idle_net c) = []" "inend (idle_net c) = Open"
  "dialed (idle_net c) = []"
  by (simp_all add: idle_net_def)

interpretation cli: lens cli "\<lambda>c. cli_update (\<lambda>_. c)"
  by unfold_locales simp_all

interpretation srv: lens srv "\<lambda>c. srv_update (\<lambda>_. c)"
  by unfold_locales simp_all

interpretation sock: lens sock "\<lambda>c. sock_update (\<lambda>_. c)"
  by unfold_locales simp_all

interpretation chan: lens chan "\<lambda>c. chan_update (\<lambda>_. c)"
  by unfold_locales simp_all

abbreviation cli_reader :: "'m net reader" where
  "cli_reader \<equiv> lift_reader cli (\<lambda>c. cli_update (\<lambda>_. c)) conn_reader"

abbreviation cli_writer :: "'m net writer" where
  "cli_writer \<equiv> lift_writer cli (\<lambda>c. cli_update (\<lambda>_. c)) conn_writer"

abbreviation srv_reader :: "'m net reader" where
  "srv_reader \<equiv> lift_reader srv (\<lambda>c. srv_update (\<lambda>_. c)) conn_reader"

abbreviation srv_writer :: "'m net writer" where
  "srv_writer \<equiv> lift_writer srv (\<lambda>c. srv_update (\<lambda>_. c)) conn_writer"

abbreviation net_socket :: "'m net udp_socket" where
  "net_socket \<equiv> lift_udp sock (\<lambda>c. sock_update (\<lambda>_. c)) udp_ops"

abbreviation net_sender :: "('m net, 'm) sender" where
  "net_sender \<equiv> lift_sender chan (\<lambda>c. chan_update (\<lambda>_. c)) chan_ops"

interpretation net_cli: byte_stream cli_reader cli_reader cli_writer cli_writer "\<lambda>_. True" "\<lambda>n. n" obs
  by unfold_locales (rule simulates_refl)+

interpretation net_srv: byte_stream srv_reader srv_reader srv_writer srv_writer "\<lambda>_. True" "\<lambda>n. n" obs
  by unfold_locales (rule simulates_refl)+

interpretation net_udp: udp_io net_socket net_socket "\<lambda>_. True" "\<lambda>n. n" obs
  by unfold_locales (rule simulates_refl)+

interpretation net_chan: msg_sender net_sender net_sender "\<lambda>_. True" "\<lambda>n. n" obs
  by unfold_locales (rule simulates_refl)+

section \<open>Copying in both directions\<close>

text \<open>One step of \<^verbatim>\<open>copy\<close> from the connection \<open>a\<close> to the connection \<open>b\<close>.\<close>

definition copy_conns :: "nat \<Rightarrow> conn \<Rightarrow> conn \<Rightarrow> bool outcome \<times> conn \<times> conn" where
  "copy_conns n a b =
     (case conn_read n a of
        (Ok bs, a') \<Rightarrow>
          (case (if bs = [] then conn_flush b else conn_write_all bs b) of
             (r, b') \<Rightarrow> (bind_outcome r (\<lambda>_. Ok (bs \<noteq> [])), a', b'))
      | (Err e, a') \<Rightarrow> (Err e, a', b)
      | (Panic p, a') \<Rightarrow> (Panic p, a', b)
      | (Hang, a') \<Rightarrow> (Hang, a', b))"

lemma copy_step_net:
  "copy_step n cli_reader srv_writer s =
     (case copy_conns n (cli s) (srv s) of (r, a, b) \<Rightarrow> (r, s\<lparr>cli := a, srv := b\<rparr>))"
  "copy_step n srv_reader cli_writer s =
     (case copy_conns n (srv s) (cli s) of (r, a, b) \<Rightarrow> (r, s\<lparr>cli := b, srv := a\<rparr>))"
  by (auto simp: copy_step_def copy_conns_def await_def lift_async_def split: prod.splits outcome.splits)

text \<open>
  What has been copied of \<open>I\<close> onto a connection that had sent \<open>O\<close>: exactly what was
  taken from the input, or less when the connection has stopped accepting.
\<close>

fun blocked :: "wending \<Rightarrow> bool" where
  "blocked (WBreaks 0 e) = True"
| "blocked (WStalls 0) = True"
| "blocked _ = False"

definition copied :: "bytes \<Rightarrow> bytes \<Rightarrow> conn \<Rightarrow> conn \<Rightarrow> bool" where
  "copied I Z a b \<longleftrightarrow> (\<exists>u x. I = u @ inp a \<and> outp b = Z @ x \<and> prefix x u \<and> (x = u \<or> blocked (oend b)))"

lemma copied_start: "copied (inp a) (outp b) a b"
  unfolding copied_def by (intro exI [of _ "[]"]) simp

lemma copied_prefix: "copied I Z a b \<Longrightarrow> \<exists>x. outp b = Z @ x \<and> prefix x I"
  unfolding copied_def by (metis prefix_prefix)

lemma conn_read_split:
  assumes "conn_read n a = (r, a')"
  shows "\<exists>u. inp a = u @ inp a' \<and> outp a' = outp a \<and> oend a' = oend a \<and> iend a' = iend a \<and>
    (\<forall>bs. r = Ok bs \<longrightarrow> u = bs) \<and> (\<not> is_Ok r \<longrightarrow> u = []) \<and> (\<forall>p. r \<noteq> Panic p) \<and>
    (u = [] \<longrightarrow> n = 0 \<or> inp a = []) \<and> (\<forall>e. r = Err e \<longrightarrow> iend a = Broken e) \<and>
    (r = Ok [] \<longrightarrow> n = 0 \<or> iend a = Eof)"
proof -
  let ?k = "case isizes a of [] \<Rightarrow> n | k # _ \<Rightarrow> min n (max 1 k)"
  have "?k = 0 \<Longrightarrow> n = 0"
    by (auto split: list.splits)
  with assms show ?thesis
    by (cases "inp a = []"; cases "iend a")
      (auto simp: conn_read_def Let_def intro!: exI [of _ "take ?k (inp a)"])
qed

lemma conn_write_split:
  assumes "conn_write_all bs b = (r, b')" and "bs \<noteq> []"
  shows "\<exists>y. outp b' = outp b @ y \<and> prefix y bs \<and> (y = bs \<or> blocked (oend b')) \<and>
    (blocked (oend b) \<longrightarrow> y = [] \<and> blocked (oend b')) \<and> inp b' = inp b \<and> iend b' = iend b \<and>
    (\<forall>p. r \<noteq> Panic p) \<and> (oend b = Accepting \<longrightarrow> r = Ok () \<and> oend b' = Accepting)"
proof (cases "oend b")
  case Accepting
  with assms show ?thesis by auto
next
  case (WBreaks k e)
  with assms show ?thesis
    by (cases k) (auto simp: conn_write_all_def take_is_prefix split: if_splits intro: exI [of _ "take k bs"])
next
  case (WStalls k)
  with assms show ?thesis
    by (cases k) (auto simp: conn_write_all_def take_is_prefix split: if_splits intro: exI [of _ "take k bs"])
qed

lemma conn_flush_same:
  "conn_flush b = (r, b') \<Longrightarrow> b' = b \<and> (\<forall>p. r \<noteq> Panic p) \<and> (oend b = Accepting \<longrightarrow> r = Ok ())"
  by (auto simp: conn_flush_def split: wending.splits nat.splits)

text \<open>
  A step of one direction keeps the account of both, and nothing else of the connections matters
  for them. The direction finishes only at the end of its input.
\<close>

lemma copy_conns_idle:
  assumes "conn_read n a = (q, c)" and "q = Ok [] \<or> \<not> is_Ok q" and "copy_conns n a b = (r, a', b')"
  shows "a' = c \<and> b' = b \<and> r \<noteq> Ok True \<and> ((\<exists>p. r = Panic p) \<longrightarrow> (\<exists>p. q = Panic p)) \<and>
    (\<forall>e. r = Err e \<longrightarrow> oend b = Accepting \<longrightarrow> q = Err e)"
proof (cases q)
  case (Ok bs)
  then have bs: "bs = []" using assms(2) by simp
  obtain r2 d where fl: "conn_flush b = (r2, d)" by (cases "conn_flush b")
  have "r = bind_outcome r2 (\<lambda>_. Ok False)" "a' = c" "b' = d"
    using assms(1,3) Ok bs fl by (simp_all add: copy_conns_def)
  with conn_flush_same [OF fl] show ?thesis
    by (cases r2) simp_all
qed (use assms in \<open>auto simp: copy_conns_def\<close>)

lemma copied_extend:
  assumes "copied I Z a b" and "inp a = bs @ inp c" and "outp d = outp b @ y" and "prefix y bs"
    and "y = bs \<or> blocked (oend d)" and "blocked (oend b) \<longrightarrow> y = [] \<and> blocked (oend d)"
  shows "copied I Z c d"
proof -
  obtain v x where vx: "I = v @ inp a" "outp b = Z @ x" "prefix x v" "x = v \<or> blocked (oend b)"
    using assms(1) unfolding copied_def by (elim exE conjE)
  have "I = (v @ bs) @ inp c" "outp d = Z @ (x @ y)"
    using vx(1,2) assms(2,3) by simp_all
  moreover have "prefix (x @ y) (v @ bs)" "x @ y = v @ bs \<or> blocked (oend d)"
    using vx(3,4) assms(4-6) by (cases "x = v"; simp add: prefix_prefix)+
  ultimately show ?thesis
    unfolding copied_def by (intro exI conjI)
qed

lemma copy_conns_step:
  assumes "copy_conns n a b = (r, a', b')"
  shows "copied I Z a b \<Longrightarrow> copied I Z a' b'"
    and "inp b' = inp b" and "outp a' = outp a" and "oend a' = oend a" and "iend a' = iend a"
    and "iend b' = iend b" and "oend b = Accepting \<Longrightarrow> oend b' = Accepting" and "r \<noteq> Panic p"
    and "0 < n \<Longrightarrow> r = Ok False \<Longrightarrow> inp a' = []"
    and "r = Err e \<Longrightarrow> oend b = Accepting \<Longrightarrow> iend a = Broken e"
proof -
  obtain q c where read: "conn_read n a = (q, c)" by (cases "conn_read n a")
  obtain u where u: "inp a = u @ inp c" "outp c = outp a" "oend c = oend a" "iend c = iend a"
      "\<forall>bs. q = Ok bs \<longrightarrow> u = bs" "\<not> is_Ok q \<longrightarrow> u = []" "\<forall>p. q \<noteq> Panic p"
      "u = [] \<longrightarrow> n = 0 \<or> inp a = []" "\<forall>e. q = Err e \<longrightarrow> iend a = Broken e"
    using conn_read_split [OF read] by (elim exE conjE)
  have "(copied I Z a b \<longrightarrow> copied I Z a' b') \<and> inp b' = inp b \<and> outp a' = outp a \<and> oend a' = oend a \<and>
    iend a' = iend a \<and> iend b' = iend b \<and> (oend b = Accepting \<longrightarrow> oend b' = Accepting) \<and> r \<noteq> Panic p \<and>
    (0 < n \<longrightarrow> r = Ok False \<longrightarrow> inp a' = []) \<and> (r = Err e \<longrightarrow> oend b = Accepting \<longrightarrow> iend a = Broken e)"
  proof (cases "q = Ok [] \<or> \<not> is_Ok q")
    case True
    note idle = copy_conns_idle [OF read True assms]
    have "u = []" using True u(5,6) by auto
    with idle u show ?thesis
      by (auto simp: copied_def)
  next
    case False
    then obtain bs where q: "q = Ok bs" "bs \<noteq> []" by (auto simp: is_Ok_iff)
    obtain r2 d where wr: "conn_write_all bs b = (r2, d)" by (cases "conn_write_all bs b")
    obtain y where y: "outp d = outp b @ y" "prefix y bs" "y = bs \<or> blocked (oend d)"
        "blocked (oend b) \<longrightarrow> y = [] \<and> blocked (oend d)" "inp d = inp b" "iend d = iend b"
        "\<forall>p. r2 \<noteq> Panic p" "oend b = Accepting \<longrightarrow> r2 = Ok () \<and> oend d = Accepting"
      using conn_write_split [OF wr q(2)] by (elim exE conjE)
    have r: "a' = c" "b' = d" "r = bind_outcome r2 (\<lambda>_. Ok True)"
      using assms read q wr by (simp_all add: copy_conns_def)
    have "copied I Z a b \<longrightarrow> copied I Z a' b'"
      using copied_extend [OF _ _ y(1-4)] u(1,5) q r(1,2) by simp
    moreover have "r \<noteq> Panic p \<and> r \<noteq> Ok False \<and> (r = Err e \<longrightarrow> oend b \<noteq> Accepting)"
      using r(3) y(7,8) by (cases r2) auto
    ultimately show ?thesis
      using u(2-4) y(5,6,8) r(1,2) by simp
  qed
  then show "copied I Z a b \<Longrightarrow> copied I Z a' b'" "inp b' = inp b" "outp a' = outp a" "oend a' = oend a"
    "iend a' = iend a" "iend b' = iend b" "oend b = Accepting \<Longrightarrow> oend b' = Accepting" "r \<noteq> Panic p"
    "0 < n \<Longrightarrow> r = Ok False \<Longrightarrow> inp a' = []" "r = Err e \<Longrightarrow> oend b = Accepting \<Longrightarrow> iend a = Broken e"
    by simp_all
qed

lemma copy_step_out:
  assumes "0 < n"
  shows "copy_step n cli_reader srv_writer t = (q, t') \<Longrightarrow> q \<noteq> Panic p \<and> (q = Ok False \<longrightarrow> inp (cli t') = []) \<and>
      (q = Err e \<longrightarrow> oend (srv t) = Accepting \<longrightarrow> iend (cli t) = Broken e)"
    and "copy_step n srv_reader cli_writer t = (q, t') \<Longrightarrow> q \<noteq> Panic p \<and> (q = Ok False \<longrightarrow> inp (srv t') = []) \<and>
      (q = Err e \<longrightarrow> oend (cli t) = Accepting \<longrightarrow> iend (srv t) = Broken e)"
  using assms by (auto simp: copy_step_net dest: copy_conns_step(8-10) split: prod.splits)

text \<open>
  The invariant of a relay that started in \<open>s\<close>: the account of both directions, everything but
  the two connections untouched, and the ends of the connections as they were.
\<close>

definition relaying :: "'m net \<Rightarrow> 'm net \<Rightarrow> bool" where
  "relaying s t \<longleftrightarrow> copied (inp (cli s)) (outp (srv s)) (cli t) (srv t) \<and>
    copied (inp (srv s)) (outp (cli s)) (srv t) (cli t) \<and> t = s\<lparr>cli := cli t, srv := srv t\<rparr> \<and>
    iend (cli t) = iend (cli s) \<and> iend (srv t) = iend (srv s) \<and>
    (oend (cli s) = Accepting \<longrightarrow> oend (cli t) = Accepting) \<and>
    (oend (srv s) = Accepting \<longrightarrow> oend (srv t) = Accepting)"

lemma relaying_start: "relaying s s"
  by (simp add: relaying_def copied_start)

lemma copied_same:
  "copied I Z a b \<Longrightarrow> inp a' = inp a \<Longrightarrow> outp b' = outp b \<Longrightarrow> oend b' = oend b \<Longrightarrow> copied I Z a' b'"
  by (simp add: copied_def)

lemma relaying_up:
  assumes "relaying s t" and "copy_step n cli_reader srv_writer t = (q, t')"
  shows "relaying s t'"
proof -
  obtain a b where ab: "copy_conns n (cli t) (srv t) = (q, a, b)" "t' = t\<lparr>cli := a, srv := b\<rparr>"
    using assms(2) by (auto simp: copy_step_net split: prod.splits)
  note st = copy_conns_step [OF ab(1)]
  have "t = s\<lparr>cli := cli t, srv := srv t\<rparr>"
    using assms(1) unfolding relaying_def by (elim conjE)
  then have "t' = s\<lparr>cli := a, srv := b\<rparr>"
    using ab(2) by (cases s; cases t) simp
  moreover have "copied (inp (cli s)) (outp (srv s)) a b" "copied (inp (srv s)) (outp (cli s)) b a"
    using assms(1) st(1) copied_same [OF _ st(2-4)] unfolding relaying_def by simp_all
  ultimately show ?thesis
    using assms(1) st(4-7) unfolding relaying_def by simp
qed

lemma relaying_down:
  assumes "relaying s t" and "copy_step n srv_reader cli_writer t = (q, t')"
  shows "relaying s t'"
proof -
  obtain a b where ab: "copy_conns n (srv t) (cli t) = (q, a, b)" "t' = t\<lparr>cli := b, srv := a\<rparr>"
    using assms(2) by (auto simp: copy_step_net split: prod.splits)
  note st = copy_conns_step [OF ab(1)]
  have "t = s\<lparr>cli := cli t, srv := srv t\<rparr>"
    using assms(1) unfolding relaying_def by (elim conjE)
  then have "t' = s\<lparr>cli := b, srv := a\<rparr>"
    using ab(2) by (cases s; cases t) simp
  moreover have "copied (inp (srv s)) (outp (cli s)) a b" "copied (inp (cli s)) (outp (srv s)) b a"
    using assms(1) st(1) copied_same [OF _ st(2-4)] unfolding relaying_def by simp_all
  ultimately show ?thesis
    using assms(1) st(4-7) unfolding relaying_def by simp
qed

text \<open>
  Both directions of a relay under any schedule: the invariant holds at the end, there is no panic,
  and a relay between accepting connections that do not break off ends only when one of the two
  inputs is used up.
\<close>

lemma relay_run:
  assumes "select_run sched (copy_step n cli_reader srv_writer) (copy_step n srv_reader cli_writer) s = (r, s')"
    and "0 < n"
  shows "relaying s s'" and "r \<noteq> Panic p"
    and "r = Ok () \<Longrightarrow> oend (cli s) = Accepting \<Longrightarrow> oend (srv s) = Accepting \<Longrightarrow>
      \<forall>e. iend (cli s) \<noteq> Broken e \<and> iend (srv s) \<noteq> Broken e \<Longrightarrow> inp (cli s') = [] \<or> inp (srv s') = []"
proof -
  let ?up = "copy_step n cli_reader srv_writer" and ?down = "copy_step n srv_reader cli_writer"
  have inv: "relaying s s' \<and> (r = Hang \<or> (\<exists>t q. relaying s t \<and> (?up t = (q, s') \<or> ?down t = (q, s')) \<and>
    (r = Ok () \<and> (q = Ok False \<or> (\<exists>e. q = Err e)) \<or> (\<exists>p. r = Panic p \<and> q = Panic p))))"
    by (rule select_run_invariant [OF relaying_start assms(1)]) (erule (1) relaying_up, erule (1) relaying_down)
  then show "relaying s s'" ..
  note out = copy_step_out [OF assms(2)]
  show "r \<noteq> Panic p"
  proof
    assume "r = Panic p"
    with inv have "\<exists>t. ?up t = (Panic p, s') \<or> ?down t = (Panic p, s')"
      by auto
    then show False using out by blast
  qed
  show "inp (cli s') = [] \<or> inp (srv s') = []" if "r = Ok ()" "oend (cli s) = Accepting" "oend (srv s) = Accepting"
      "\<forall>e. iend (cli s) \<noteq> Broken e \<and> iend (srv s) \<noteq> Broken e"
  proof -
    from inv that(1) obtain t q where t: "relaying s t" "?up t = (q, s') \<or> ?down t = (q, s')"
      "q = Ok False \<or> (\<exists>e. q = Err e)"
      by auto
    have ends: "iend (cli t) = iend (cli s)" "iend (srv t) = iend (srv s)" "oend (cli t) = Accepting"
      "oend (srv t) = Accepting"
      using t(1) that(2,3) unfolding relaying_def by simp_all
    show ?thesis
      using t(2)
    proof
      assume "?up t = (q, s')"
      from out(1) [OF this] t(3) that(4) ends show ?thesis by auto
    next
      assume "?down t = (q, s')"
      from out(2) [OF this] t(3) that(4) ends show ?thesis by auto
    qed
  qed
qed

lemma relaying_dialed:
  assumes "relaying s t"
  shows "dialed t = dialed s"
proof -
  have "t = s\<lparr>cli := cli t, srv := srv t\<rparr>"
    using assms unfolding relaying_def by (elim conjE)
  then have "dialed t = dialed (s\<lparr>cli := cli t, srv := srv t\<rparr>)"
    by (rule arg_cong)
  then show ?thesis by simp
qed

lemma relaying_prefix:
  assumes "relaying s t"
  shows "\<exists>x. outp (srv t) = outp (srv s) @ x \<and> prefix x (inp (cli s))"
    and "\<exists>y. outp (cli t) = outp (cli s) @ y \<and> prefix y (inp (srv s))"
  using assms copied_prefix unfolding relaying_def by blast+

text \<open>A direction that has used up its input into an accepting connection has delivered it all.\<close>

lemma copied_all: "copied I Z a b \<Longrightarrow> inp a = [] \<Longrightarrow> oend b = Accepting \<Longrightarrow> outp b = Z @ I"
  unfolding copied_def by auto

text \<open>What a relay guarantees, from the state in which it starts.\<close>

lemma relay_both:
  assumes run: "select_run sched (copy_step k cli_reader srv_writer) (copy_step k srv_reader cli_writer) n = (r, n')"
    and "0 < k"
  shows "r = Ok () \<or> r = Hang" and "dialed n' = dialed n"
    and "\<exists>x. outp (srv n') = outp (srv n) @ x \<and> prefix x (inp (cli n))"
    and "\<exists>y. outp (cli n') = outp (cli n) @ y \<and> prefix y (inp (srv n))"
    and "r = Ok () \<Longrightarrow> oend (cli n) = Accepting \<Longrightarrow> oend (srv n) = Accepting \<Longrightarrow>
      \<forall>e. iend (cli n) \<noteq> Broken e \<and> iend (srv n) \<noteq> Broken e \<Longrightarrow>
      outp (srv n') = outp (srv n) @ inp (cli n) \<or> outp (cli n') = outp (cli n) @ inp (srv n)"
proof -
  note relay = relay_run [OF assms]
  have inv: "relaying n n'" by (rule relay(1))
  show "r = Ok () \<or> r = Hang"
    using select_run_result [OF run] relay(2) by blast
  show "dialed n' = dialed n"
    by (rule relaying_dialed [OF inv])
  show "\<exists>x. outp (srv n') = outp (srv n) @ x \<and> prefix x (inp (cli n))"
    "\<exists>y. outp (cli n') = outp (cli n) @ y \<and> prefix y (inp (srv n))"
    by (rule relaying_prefix [OF inv])+
  show "outp (srv n') = outp (srv n) @ inp (cli n) \<or> outp (cli n') = outp (cli n) @ inp (srv n)"
    if "r = Ok ()" "oend (cli n) = Accepting" "oend (srv n) = Accepting"
      "\<forall>e. iend (cli n) \<noteq> Broken e \<and> iend (srv n) \<noteq> Broken e"
    using relay(3) [OF that] inv that(2,3) copied_all unfolding relaying_def by metis
qed

text \<open>
  The relay ends once the client has closed its side: each step of the upward direction takes at
  least one byte, so as many steps as there are bytes, and one more, end it in every schedule.
\<close>

lemma copy_up_progress:
  assumes "0 < n" and "iend (cli s) \<noteq> Open" and "oend (srv s) = Accepting"
    and "copy_step n cli_reader srv_writer s = (q, t)"
  shows "q = Ok False \<or> (\<exists>e. q = Err e) \<or>
    q = Ok True \<and> length (inp (cli t)) < length (inp (cli s)) \<and> iend (cli t) \<noteq> Open \<and> oend (srv t) = Accepting"
proof (cases "inp (cli s) = []")
  case True
  with assms show ?thesis
    by (cases "iend (cli s)") (auto simp: copy_step_net copy_conns_def conn_read_def)
next
  case False
  let ?k = "case isizes (cli s) of [] \<Rightarrow> n | k # _ \<Rightarrow> min n (max 1 k)"
  have "0 < ?k" using assms(1) by (auto split: list.split)
  then have "take ?k (inp (cli s)) \<noteq> []" "length (inp (cli s)) - ?k < length (inp (cli s))"
    using False by simp_all
  with assms False show ?thesis
    by (auto simp: copy_step_net copy_conns_def conn_read_def Let_def)
qed

lemma copy_down_keeps:
  assumes "copy_step n srv_reader cli_writer s = (q, t)"
  shows "inp (cli t) = inp (cli s)" "iend (cli t) = iend (cli s)" "oend (srv t) = oend (srv s)" "q \<noteq> Panic p"
proof -
  obtain a b where ab: "copy_conns n (srv s) (cli s) = (q, a, b)" "t = s\<lparr>cli := b, srv := a\<rparr>"
    using assms by (auto simp: copy_step_net split: prod.splits)
  show "inp (cli t) = inp (cli s)" "iend (cli t) = iend (cli s)" "oend (srv t) = oend (srv s)" "q \<noteq> Panic p"
    using copy_conns_step(2,4,6,8) [OF ab(1)] ab(2) by simp_all
qed

lemma relay_terminates:
  assumes "0 < n" and "iend (cli s) \<noteq> Open" and "oend (srv s) = Accepting"
    and "length (inp (cli s)) < count_list sched True" and "down \<in> {copy_step n srv_reader cli_writer, idle}"
  shows "\<exists>s'. select_run sched (copy_step n cli_reader srv_writer) down s = (Ok (), s')"
  using assms(2-5)
proof (induction sched arbitrary: s down)
  case (Cons b bs)
  let ?up = "copy_step n cli_reader srv_writer"
  obtain q t where step: "(if b then ?up s else down s) = (q, t)"
    by (cases "if b then ?up s else down s")
  show ?case
  proof (cases b)
    case True
    then have "?up s = (q, t)" using step by simp
    from copy_up_progress [OF assms(1) Cons.prems(1,2) this] Cons.IH [of t down] Cons.prems(3,4) True step
    show ?thesis by auto
  next
    case False
    then have dn: "down s = (q, t)" "length (inp (cli s)) < count_list bs True"
      using step Cons.prems(3) by simp_all
    have keep: "inp (cli t) = inp (cli s) \<and> iend (cli t) = iend (cli s) \<and> oend (srv t) = oend (srv s) \<and> (\<forall>p. q \<noteq> Panic p)"
      using Cons.prems(4) dn(1) copy_down_keeps [of n s q t] by (auto simp: idle_def)
    then have IH: "\<exists>s'. select_run bs ?up d t = (Ok (), s')" if "d \<in> {copy_step n srv_reader cli_writer, idle}" for d
      using Cons.IH [of t d] Cons.prems(1,2) dn(2) that by simp
    show ?thesis
      using keep IH [of idle] IH [OF Cons.prems(4)] False dn(1)
      by (cases q) (auto split: bool.split)
  qed
qed simp

text \<open>
  When the destination keeps its side open, only the upward direction can end the relay, and then
  everything has been delivered.
\<close>

lemma copy_down_open:
  assumes "0 < n" and "iend (srv s) = Open" and "oend (cli s) = Accepting"
    and "copy_step n srv_reader cli_writer s = (q, t)"
  shows "q \<noteq> Ok False \<and> q \<noteq> Err e"
proof -
  obtain rr a where rd: "conn_read n (srv s) = (rr, a)" by (cases "conn_read n (srv s)")
  have no: "rr \<noteq> Ok []" "rr \<noteq> Err e"
    using conn_read_split [OF rd] assms(1,2) by auto
  show ?thesis
  proof (cases rr)
    case (Ok bs)
    with no have "bs \<noteq> []" by simp
    then show ?thesis
      using assms(3,4) rd Ok by (auto simp: copy_step_net copy_conns_def)
  qed (use assms(4) rd no in \<open>auto simp: copy_step_net copy_conns_def\<close>)
qed

lemma relay_delivers:
  assumes "0 < n" and "iend (cli s) = Eof" and "iend (srv s) = Open" and "oend (cli s) = Accepting"
    and "oend (srv s) = Accepting" and "length (inp (cli s)) < count_list sched True"
  shows "\<exists>s'. select_run sched (copy_step n cli_reader srv_writer) (copy_step n srv_reader cli_writer) s = (Ok (), s') \<and>
    outp (srv s') = outp (srv s) @ inp (cli s) \<and> dialed s' = dialed s"
proof -
  let ?up = "copy_step n cli_reader srv_writer" and ?down = "copy_step n srv_reader cli_writer"
  obtain s' where run: "select_run sched ?up ?down s = (Ok (), s')"
    using relay_terminates [OF assms(1) _ assms(5,6)] assms(2) by auto
  have "relaying s s' \<and> (Ok () = Hang \<or> (\<exists>t q. relaying s t \<and> (?up t = (q, s') \<or> ?down t = (q, s')) \<and>
    (Ok () = Ok () \<and> (q = Ok False \<or> (\<exists>e. q = Err e)) \<or> (\<exists>p. Ok () = Panic p \<and> q = Panic p))))"
    by (rule select_run_invariant [OF relaying_start run]) (erule (1) relaying_up, erule (1) relaying_down)
  then obtain t q where inv: "relaying s s'" and t: "relaying s t" "?up t = (q, s') \<or> ?down t = (q, s')"
      "q = Ok False \<or> (\<exists>e. q = Err e)" by auto
  have ends: "iend (cli t) = Eof" "iend (srv t) = Open" "oend (cli t) = Accepting" "oend (srv t) = Accepting"
    using t(1) assms(2-5) unfolding relaying_def by simp_all
  have up: "?up t = (q, s')"
    using t(2,3) copy_down_open [OF assms(1) ends(2,3), of q s'] by auto
  have "inp (cli s') = []"
    using copy_step_out(1) [OF assms(1) up] t(3) ends by auto
  then have "outp (srv s') = outp (srv s) @ inp (cli s)"
    using inv assms(5) copied_all unfolding relaying_def by blast
  with run relaying_dialed [OF inv] show ?thesis by blast
qed

section \<open>Copying into a channel\<close>

text \<open>
  What went into a channel whose messages were \<open>Z\<close>, with \<open>D\<close> the bytes of a message, is what
  was taken of \<open>I\<close> from a connection, or less when the channel is closed.
\<close>

definition fed :: "('m \<Rightarrow> bytes) \<Rightarrow> bytes \<Rightarrow> 'm list \<Rightarrow> conn \<Rightarrow> 'm chan \<Rightarrow> bool" where
  "fed D I Z a c \<longleftrightarrow> (\<exists>u new. I = u @ inp a \<and> msgs c = Z @ new \<and> prefix (concat (map D new)) u \<and>
     (concat (map D new) = u \<or> blocked (cend c)))"

lemma fed_start: "fed D (inp a) (msgs c) a c"
  unfolding fed_def by (intro exI [of _ "[]"]) simp

lemma fed_same: "fed D I Z a c \<Longrightarrow> inp a' = inp a \<Longrightarrow> fed D I Z a' c"
  by (simp add: fed_def)

lemma fed_prefix: "fed D I Z a c \<Longrightarrow> \<exists>new. msgs c = Z @ new \<and> prefix (concat (map D new)) I"
  unfolding fed_def by (metis prefix_prefix)

lemma chan_send_split:
  assumes "chan_send m c = (r, c')"
  shows "(msgs c' = msgs c @ [m] \<and> \<not> blocked (cend c) \<or> msgs c' = msgs c \<and> blocked (cend c')) \<and>
    (blocked (cend c) \<longrightarrow> c' = c) \<and> (\<forall>p. r \<noteq> Panic p)"
proof (cases "cend c")
  case (WBreaks k e)
  with assms show ?thesis by (cases k) (auto simp: chan_send_def)
next
  case (WStalls k)
  with assms show ?thesis by (cases k) (auto simp: chan_send_def)
qed (use assms in \<open>auto simp: chan_send_def\<close>)

lemma conn_read_keeps:
  assumes "conn_read n a = (r, a')"
  shows "outp a' = outp a" "oend a' = oend a" "r \<noteq> Panic p"
  using conn_read_split [OF assms] by auto

lemma fed_read:
  assumes "fed D I Z a c" and "conn_read n a = (r, a')" and "\<not> is_Ok r"
  shows "fed D I Z a' c"
  using conn_read_split [OF assms(2)] assms(1,3) unfolding fed_def by auto

lemma fed_send:
  assumes "fed D I Z a c" and "conn_read n a = (Ok bs, a')" and "chan_send m c = (r, c')" and "D m = bs"
  shows "fed D I Z a' c'"
proof -
  obtain u new where up: "I = u @ inp a" "msgs c = Z @ new" "prefix (concat (map D new)) u"
      "concat (map D new) = u \<or> blocked (cend c)"
    using assms(1) unfolding fed_def by (elim exE conjE)
  have bs: "inp a = bs @ inp a'"
    using conn_read_split [OF assms(2)] by auto
  note sp = chan_send_split [OF assms(3)]
  show ?thesis
  proof (cases "msgs c' = msgs c @ [m] \<and> \<not> blocked (cend c)")
    case True
    with up bs assms(4) show ?thesis
      unfolding fed_def by (intro exI [of _ "u @ bs"] exI [of _ "new @ [m]"]) auto
  next
    case False
    with sp up bs show ?thesis
      unfolding fed_def by (intro exI [of _ "u @ bs"] exI [of _ new]) (auto simp: prefix_prefix)
  qed
qed

end
