(* ===== verification/Packet.thy ===== *)
theory Packet
  imports Trojan Relay Grpc_Stream
begin

text \<open>
  The forwarding of UDP traffic of \<^verbatim>\<open>src/protocol/trojan/packet.rs\<close>: six endless loops that
  move datagrams between a client, a datagram socket, a Trojan peer and a gRPC channel. Each loop
  is its body under \<^verbatim>\<open>loop\<close>. The lemmas give the effect of a body on the abstract network; the
  properties say which datagrams arrive where, and when a loop panics or never ends.
\<close>

definition BUF_SIZE :: nat where "BUF_SIZE = 4096"

lemma BUF_SIZE_pos [simp]: "0 < BUF_SIZE"
  by (simp add: BUF_SIZE_def)

section \<open>Loop bodies\<close>

definition client_to_udp_step ::
  "resolver \<Rightarrow> 's reader \<Rightarrow> 's udp_socket \<Rightarrow> ('s, unit) async" where
  "client_to_udp_step dns client_reader server_writer =
     await (parse_udp dns client_reader) (\<lambda>header.
     if \<not> payload_size header \<le> BUF_SIZE then panic ''Payload size exceeds read buffer size''
     else
     await (read_exact client_reader (payload_size header)) (\<lambda>read_buf.
     if \<not> length read_buf = payload_size header then panic ''Failed to read the entire trojan udp packet''
     else
     await (send_to server_writer read_buf (dest header)) (\<lambda>_.
     return ())))"

definition copy_client_reader_to_udp_socket ::
  "resolver \<Rightarrow> 's reader \<Rightarrow> 's udp_socket \<Rightarrow> 's \<Rightarrow> (unit outcome \<times> 's) option" where
  "copy_client_reader_to_udp_socket dns client_reader server_writer =
     loop (client_to_udp_step dns client_reader server_writer)"

definition udp_to_client_step ::
  "'s udp_socket \<Rightarrow> 's writer \<Rightarrow> IpAddrPort \<Rightarrow> ('s, unit) async" where
  "udp_to_client_step server_reader client_writer addr =
     await (recv_from server_reader BUF_SIZE) (\<lambda>(read_buf, _).
     await (case ip addr of
              IpAddr (V4 a) \<Rightarrow>
                await (write_u8 client_writer (atype_u8 IPv4)) (\<lambda>_.
                write_all client_writer (octets (V4 a)))
            | IpAddr (V6 a) \<Rightarrow>
                await (write_u8 client_writer (atype_u8 IPv6)) (\<lambda>_.
                write_all client_writer (octets (V6 a)))
            | Domain domain \<Rightarrow>
                await (write_u8 client_writer (atype_u8 DomainName)) (\<lambda>_.
                await (write_u8 client_writer (of_nat (length (as_bytes domain)))) (\<lambda>_.
                write_all client_writer (as_bytes domain)))) (\<lambda>_.
     await (write_u16 client_writer (port addr)) (\<lambda>_.
     await (write_u16 client_writer (of_nat (length read_buf))) (\<lambda>_.
     await (write_u16 client_writer CRLF) (\<lambda>_.
     await (write_all client_writer read_buf) (\<lambda>_.
     flush client_writer))))))"

definition copy_udp_socket_to_client_writer ::
  "'s udp_socket \<Rightarrow> 's writer \<Rightarrow> IpAddrPort \<Rightarrow> 's \<Rightarrow> (unit outcome \<times> 's) option" where
  "copy_udp_socket_to_client_writer server_reader client_writer addr =
     loop (udp_to_client_step server_reader client_writer addr)"

definition client_to_udp_server_step ::
  "'s reader \<Rightarrow> 's writer \<Rightarrow> InboundRequest \<Rightarrow> ('s, unit) async" where
  "client_to_udp_server_step client_reader server_writer request =
     await (read client_reader BUF_SIZE) (\<lambda>read_buf.
     await (write_u8 server_writer (atype_u8 (atype request))) (\<lambda>_.
     await (case ip (addr_port request) of
              IpAddr (V4 a) \<Rightarrow> write_all server_writer (octets (V4 a))
            | IpAddr (V6 a) \<Rightarrow> write_all server_writer (octets (V6 a))
            | Domain domain \<Rightarrow>
                await (write_u8 server_writer (of_nat (length (as_bytes domain)))) (\<lambda>_.
                write_all server_writer (as_bytes domain))) (\<lambda>_.
     await (write_u16 server_writer (port (addr_port request))) (\<lambda>_.
     await (write_u16 server_writer (of_nat (length read_buf))) (\<lambda>_.
     await (write_u16 server_writer CRLF) (\<lambda>_.
     await (write_all server_writer read_buf) (\<lambda>_.
     flush server_writer)))))))"

definition copy_client_reader_to_udp_server_writer ::
  "'s reader \<Rightarrow> 's writer \<Rightarrow> InboundRequest \<Rightarrow> 's \<Rightarrow> (unit outcome \<times> 's) option" where
  "copy_client_reader_to_udp_server_writer client_reader server_writer request =
     loop (client_to_udp_server_step client_reader server_writer request)"

definition udp_server_to_client_step ::
  "resolver \<Rightarrow> 's reader \<Rightarrow> 's writer \<Rightarrow> ('s, unit) async" where
  "udp_server_to_client_step dns server_reader client_writer =
     await (parse_udp dns server_reader) (\<lambda>header.
     if \<not> payload_size header \<le> BUF_SIZE then panic ''range end index out of range for slice''
     else
     await (read_exact server_reader (payload_size header)) (\<lambda>read_buf.
     write_all client_writer read_buf))"

definition copy_udp_server_reader_to_client_writer ::
  "resolver \<Rightarrow> 's reader \<Rightarrow> 's writer \<Rightarrow> 's \<Rightarrow> (unit outcome \<times> 's) option" where
  "copy_udp_server_reader_to_client_writer dns server_reader client_writer =
     loop (udp_server_to_client_step dns server_reader client_writer)"

text \<open>The header of a packet, built in a cursor over 512 zero bytes.\<close>

definition grpc_packet_header :: "InboundRequest \<Rightarrow> nat \<Rightarrow> (Cursor, unit) async" where
  "grpc_packet_header request n =
     await (write_u8 cursor_writer (atype_u8 (atype request))) (\<lambda>_.
     await (case ip (addr_port request) of
              IpAddr (V4 a) \<Rightarrow> write_all cursor_writer (octets (V4 a))
            | IpAddr (V6 a) \<Rightarrow> write_all cursor_writer (octets (V6 a))
            | Domain domain \<Rightarrow>
                await (write_u8 cursor_writer (of_nat (length (as_bytes domain)))) (\<lambda>_.
                write_all cursor_writer (as_bytes domain))) (\<lambda>_.
     await (write_u16 cursor_writer (port (addr_port request))) (\<lambda>_.
     await (write_u16 cursor_writer (of_nat n)) (\<lambda>_.
     write_u16 cursor_writer CRLF))))"

definition client_to_grpc_step ::
  "'s reader \<Rightarrow> ('s, Hunk) sender \<Rightarrow> InboundRequest \<Rightarrow> ('s, unit) async" where
  "client_to_grpc_step client_reader server_writer request =
     await (read client_reader BUF_SIZE) (\<lambda>read_buf.
     let (res, cursor) = grpc_packet_header request (length read_buf) (Cursor_new (replicate 512 0)) in
     await (eval_outcome res) (\<lambda>_.
     await (map_err (\<lambda>_. Error ConnectionReset ''Failed to send GRPC packet'')
              (send server_writer \<lparr>data = take (cpos cursor) (cvec cursor)\<rparr>)) (\<lambda>_.
     map_err (\<lambda>_. Error ConnectionReset ''Failed to send GRPC packet'')
       (send server_writer \<lparr>data = read_buf\<rparr>))))"

definition packet_copy_client_reader_to_server_grpc_writer ::
  "'s reader \<Rightarrow> ('s, Hunk) sender \<Rightarrow> InboundRequest \<Rightarrow> 's \<Rightarrow> (unit outcome \<times> 's) option" where
  "packet_copy_client_reader_to_server_grpc_writer client_reader server_writer request =
     loop (client_to_grpc_step client_reader server_writer request)"

definition grpc_to_client_step ::
  "resolver \<Rightarrow> 's reader \<Rightarrow> 's writer \<Rightarrow> ('s, unit) async" where
  "grpc_to_client_step dns server_reader client_writer =
     await (parse_udp dns server_reader) (\<lambda>header.
     if \<not> payload_size header \<le> BUF_SIZE then panic ''range end index out of range for slice''
     else
     await (read_exact server_reader (payload_size header)) (\<lambda>read_buf.
     write_all client_writer read_buf))"

definition packet_copy_server_grpc_reader_to_client_writer ::
  "resolver \<Rightarrow> 's reader \<Rightarrow> 's writer \<Rightarrow> 's \<Rightarrow> (unit outcome \<times> 's) option" where
  "packet_copy_server_grpc_reader_to_client_writer dns server_reader client_writer =
     loop (grpc_to_client_step dns server_reader client_writer)"

section \<open>Tasks beside a packet reader\<close>

text \<open>
  A function that reads through a \<^verbatim>\<open>GrpcDataReaderStream\<close> made of the current stream: it works on
  the state together with the buffer of that reader; what runs beside it does not see the buffer.
\<close>

definition over_hunks :: "('s GrpcDataReaderStream, 'a) async \<Rightarrow> ('s, 'a) async" where
  "over_hunks m s = (case m (from_reader s) of (r, g) \<Rightarrow> (r, reader g))"

definition beside_hunks :: "('s, 'a) async \<Rightarrow> ('s GrpcDataReaderStream, 'a) async" where
  "beside_hunks = lift_async reader (\<lambda>r. reader_update (\<lambda>_. r))"

section \<open>Simulation\<close>

lemma sim_client_to_udp_step:
  assumes R: "exact_reader R R0 invar view obs" and U: "udp_io U U0 invar view obs"
  shows "simulates invar view obs (client_to_udp_step dns R U) (client_to_udp_step dns R0 U0)"
  unfolding client_to_udp_step_def
  by (intro sim_intros exact_reader.sim_parse_udp [OF R] exact_reader.sim_read_exact [OF R]
      udp_io.sim_send_to [OF U])

lemma sim_udp_to_client_step:
  assumes U: "udp_io U U0 invar view obs" and W: "byte_writer W W0 invar view obs"
  shows "simulates invar view obs (udp_to_client_step U W addr) (udp_to_client_step U0 W0 addr)"
  unfolding udp_to_client_step_def
  by (intro sim_intros udp_io.sim_recv_from [OF U])
    (auto intro!: sim_intros byte_writer.sim_write_all [OF W] byte_writer.sim_write_u8 [OF W]
      byte_writer.sim_write_u16 [OF W] byte_writer.sim_flush [OF W]
      split: IpAddress.split IpAddr.split)

lemma sim_client_to_udp_server_step:
  assumes R: "chunk_reader R R0 invar view obs" and W: "byte_writer W W0 invar view obs"
  shows "simulates invar view obs (client_to_udp_server_step R W q) (client_to_udp_server_step R0 W0 q)"
  unfolding client_to_udp_server_step_def
  by (intro sim_intros chunk_reader.sim_read [OF R] byte_writer.sim_write_all [OF W]
      byte_writer.sim_write_u8 [OF W] byte_writer.sim_write_u16 [OF W] byte_writer.sim_flush [OF W])
    (auto intro!: sim_intros byte_writer.sim_write_all [OF W] byte_writer.sim_write_u8 [OF W]
      split: IpAddress.split IpAddr.split)

lemma sim_udp_server_to_client_step:
  assumes R: "exact_reader R R0 invar view obs" and W: "byte_writer W W0 invar view obs"
  shows "simulates invar view obs (udp_server_to_client_step dns R W) (udp_server_to_client_step dns R0 W0)"
  unfolding udp_server_to_client_step_def
  by (intro sim_intros exact_reader.sim_parse_udp [OF R] exact_reader.sim_read_exact [OF R]
      byte_writer.sim_write_all [OF W])

lemma sim_client_to_grpc_step:
  assumes R: "chunk_reader R R0 invar view obs" and C: "msg_sender C C0 invar view obs"
  shows "simulates invar view obs (client_to_grpc_step R C q) (client_to_grpc_step R0 C0 q)"
  unfolding client_to_grpc_step_def Let_def case_prod_beta
  by (intro sim_intros chunk_reader.sim_read [OF R] msg_sender.sim_send [OF C])

lemma sim_grpc_to_client_step:
  assumes R: "exact_reader R R0 invar view obs" and W: "byte_writer W W0 invar view obs"
  shows "simulates invar view obs (grpc_to_client_step dns R W) (grpc_to_client_step dns R0 W0)"
  unfolding grpc_to_client_step_def
  by (intro sim_intros exact_reader.sim_parse_udp [OF R] exact_reader.sim_read_exact [OF R]
      byte_writer.sim_write_all [OF W])

section \<open>The bodies on the abstract network\<close>

context lens
begin

lemma lift_parse_udp: "parse_udp dns (lift_reader get put R) = lift_async get put (parse_udp dns R)"
  unfolding parse_udp_def
  by (simp add: lift_simps Atype.case_distrib [of "lift_async get put"] cong: Atype.case_cong)

lemma lift_trojan_parse: "trojan_parse (lift_reader get put R) = lift_async get put (trojan_parse R)"
  unfolding trojan_parse_def case_prod_beta
  by (simp add: lift_simps Atype.case_distrib [of "lift_async get put"] cong: Atype.case_cong)

lemma lift_trojan_accept:
  "trojan_accept (lift_reader get put R) secret = lift_async get put (trojan_accept R secret)"
  unfolding trojan_accept_def
  by (simp add: lift_trojan_parse lift_simps if_distrib [of "lift_async get put"] cong: if_cong)

lemma lift_handshake: "handshake (lift_writer get put W) q secret = lift_async get put (handshake W q secret)"
  unfolding handshake_def
  by (cases "ip (addr_port q)") (auto simp: lift_simps split: IpAddr.split)

end

text \<open>A packet: where it goes and what it carries.\<close>

record packet =
  p_atype :: Atype
  p_addr :: IpAddress
  p_port :: u16
  p_data :: bytes

definition encode_packet :: "packet \<Rightarrow> bytes" where
  "encode_packet k =
     udp_header CRLF (p_atype k) (p_addr k) (p_port k) (of_nat (length (p_data k))) @ p_data k"

definition wf_packet :: "packet \<Rightarrow> bool" where
  "wf_packet k \<longleftrightarrow> wf_addr (p_atype k) (p_addr k) \<and> length (p_data k) \<le> BUF_SIZE"

definition packet_dest :: "resolver \<Rightarrow> packet \<Rightarrow> SocketAddr outcome" where
  "packet_dest dns k = into_SocketAddr dns (IpAddrPort_new (p_addr k) (p_port k))"

lemma parse_encoded_packet:
  assumes "wf_packet k" and "packet_dest dns k = Ok d"
  shows "parse_udp dns conn_reader (c\<lparr>inp := encode_packet k @ rest\<rparr>) =
    (Ok \<lparr>udp_atype = p_atype k, dest = d, payload_size = length (p_data k)\<rparr>,
     c\<lparr>inp := p_data k @ rest\<rparr>)"
  using assms
  by (simp add: wf_packet_def packet_dest_def encode_packet_def BUF_SIZE_def parse_udp_header)

lemma parse_udp_at_end:
  "inp c = [] \<Longrightarrow> fst (parse_udp dns conn_reader c) = short_read (iend c)"
  by (cases "iend c") (simp_all add: parse_udp_def await_def amap_def conn_read_exact_def)

lemma fst_lift_async [simp]: "fst (lift_async get put m n) = fst (m (get n))"
  by (simp add: lift_async_def split: prod.split)

lemma fst_await_stop:
  "fst (m s) = short_read e \<Longrightarrow> fst (await m k s) = short_read e"
  by (cases "m s"; cases e) (auto simp: await_def)

lemma snd_await_stop: "\<not> is_Ok (fst (m s)) \<Longrightarrow> snd (await m k s) = snd (m s)"
  by (cases "m s"; cases "fst (m s)") (auto simp: await_def)

lemma short_read_not_Ok [simp]: "\<not> is_Ok (short_read e)"
  by (cases e) auto

subsection \<open>From the client to the datagram socket\<close>

lemma client_to_udp_step_packet:
  assumes "wf_packet k" and "packet_dest dns k = Ok d"
    and "inp (cli n) = encode_packet k @ rest" and "uend (sock n) = Accepting"
  shows "client_to_udp_step dns cli_reader net_socket n =
    (Ok (), n\<lparr>cli := (cli n)\<lparr>inp := rest\<rparr>,
              sock := (sock n)\<lparr>sent := sent (sock n) @ [(p_data k, d)]\<rparr>\<rparr>)"
proof -
  have cli: "cli n = (cli n)\<lparr>inp := encode_packet k @ rest\<rparr>"
    using assms(3) by (simp add: conn_inp_update)
  have "parse_udp dns cli_reader n =
      (Ok \<lparr>udp_atype = p_atype k, dest = d, payload_size = length (p_data k)\<rparr>,
       n\<lparr>cli := (cli n)\<lparr>inp := p_data k @ rest\<rparr>\<rparr>)"
    using parse_encoded_packet [OF assms(1,2), where c = "cli n" and rest = rest] cli
    by (simp add: cli.lift_parse_udp lift_async_def)
  with assms(1,4) show ?thesis
    by (simp add: client_to_udp_step_def await_def lift_async_def wf_packet_def udp_ops_def udp_send_to_def)
qed

lemma client_to_udp_step_end:
  assumes "inp (cli n) = []"
  shows "fst (client_to_udp_step dns cli_reader net_socket n) = short_read (iend (cli n)) \<and>
    sock (snd (client_to_udp_step dns cli_reader net_socket n)) = sock n"
proof -
  have stop: "fst (parse_udp dns cli_reader n) = short_read (iend (cli n))"
    using parse_udp_at_end [OF assms] by (simp add: cli.lift_parse_udp)
  moreover have "sock (snd (parse_udp dns cli_reader n)) = sock n"
    by (simp add: cli.lift_parse_udp lift_async_def split: prod.split)
  ultimately show ?thesis
    unfolding client_to_udp_step_def by (simp add: fst_await_stop snd_await_stop)
qed

lemma client_to_udp_steps:
  assumes "\<forall>k\<in>set ks. wf_packet k \<and> packet_dest dns k = Ok (where_to k)"
    and "inp (cli n) = concat (map encode_packet ks) @ rest" and "uend (sock n) = Accepting"
  shows "steps (length ks) (client_to_udp_step dns cli_reader net_socket) n =
    (Ok (), n\<lparr>cli := (cli n)\<lparr>inp := rest\<rparr>,
              sock := (sock n)\<lparr>sent := sent (sock n) @ map (\<lambda>k. (p_data k, where_to k)) ks\<rparr>\<rparr>)"
  using assms
proof (induction ks arbitrary: n)
  case Nil
  then show ?case
    by (simp add: conn_inp_update)
next
  case (Cons k ks)
  let ?n = "n\<lparr>cli := (cli n)\<lparr>inp := concat (map encode_packet ks) @ rest\<rparr>,
              sock := (sock n)\<lparr>sent := sent (sock n) @ [(p_data k, where_to k)]\<rparr>\<rparr>"
  have "client_to_udp_step dns cli_reader net_socket n = (Ok (), ?n)"
    using Cons.prems by (intro client_to_udp_step_packet) auto
  moreover have "steps (length ks) (client_to_udp_step dns cli_reader net_socket) ?n =
    (Ok (), ?n\<lparr>cli := (cli ?n)\<lparr>inp := rest\<rparr>,
              sock := (sock ?n)\<lparr>sent := sent (sock ?n) @ map (\<lambda>k. (p_data k, where_to k)) ks\<rparr>\<rparr>)"
    using Cons.prems by (intro Cons.IH) auto
  ultimately show ?case
    by (simp add: await_def)
qed

subsection \<open>From the client to a Trojan server\<close>

lemma conn_read_some:
  assumes "inp c \<noteq> []" and "0 < n"
  obtains bs rest sz where "conn_read n c = (Ok bs, c\<lparr>inp := rest, isizes := sz\<rparr>)"
    "inp c = bs @ rest" "bs \<noteq> []" "length bs \<le> n"
proof -
  let ?k = "case isizes c of [] \<Rightarrow> n | k # _ \<Rightarrow> min n (max 1 k)"
  have "0 < ?k" "?k \<le> n"
    using assms(2) by (auto split: list.split)
  then show thesis
    using that [where bs = "take ?k (inp c)" and rest = "drop ?k (inp c)" and sz = "tl (isizes c)"] assms(1)
    by (auto simp: conn_read_def Let_def)
qed

definition packet_of :: "Atype \<Rightarrow> IpAddrPort \<Rightarrow> bytes \<Rightarrow> packet" where
  "packet_of t addr bs = \<lparr>p_atype = t, p_addr = ip addr, p_port = port addr, p_data = bs\<rparr>"

lemma wf_packet_of [simp]:
  "wf_packet (packet_of t addr bs) \<longleftrightarrow> wf_addr t (ip addr) \<and> length bs \<le> BUF_SIZE"
  by (simp add: wf_packet_def packet_of_def)

lemma p_data_packet_of [simp]: "p_data (packet_of t addr bs) = bs"
  by (simp add: packet_of_def)

text \<open>The header that three of the bodies write, and the whole packet that two of them write.\<close>

definition packet_head :: "'s writer \<Rightarrow> Atype \<Rightarrow> IpAddrPort \<Rightarrow> nat \<Rightarrow> ('s, unit) async" where
  "packet_head W t addr n =
     await (write_u8 W (atype_u8 t)) (\<lambda>_.
     await (case ip addr of
              IpAddr (V4 a) \<Rightarrow> write_all W (octets (V4 a))
            | IpAddr (V6 a) \<Rightarrow> write_all W (octets (V6 a))
            | Domain domain \<Rightarrow>
                await (write_u8 W (of_nat (length (as_bytes domain)))) (\<lambda>_.
                write_all W (as_bytes domain))) (\<lambda>_.
     await (write_u16 W (port addr)) (\<lambda>_.
     await (write_u16 W (of_nat n)) (\<lambda>_.
     write_u16 W CRLF))))"

definition packet_write :: "'s writer \<Rightarrow> Atype \<Rightarrow> IpAddrPort \<Rightarrow> bytes \<Rightarrow> ('s, unit) async" where
  "packet_write W t addr bs =
     await (packet_head W t addr (length bs)) (\<lambda>_. await (write_all W bs) (\<lambda>_. flush W))"

context lens
begin

lemma lift_packet_write:
  "packet_write (lift_writer get put W) t addr bs = lift_async get put (packet_write W t addr bs)"
  unfolding packet_write_def packet_head_def
  by (simp add: lift_simps IpAddress.case_distrib [of "lift_async get put"]
      IpAddr.case_distrib [of "lift_async get put"] cong: IpAddress.case_cong IpAddr.case_cong)

end

lemma writes_addr_field:
  "writes (case a of
      IpAddr (V4 w) \<Rightarrow> write_all conn_writer (octets (V4 w))
    | IpAddr (V6 w) \<Rightarrow> write_all conn_writer (octets (V6 w))
    | Domain domain \<Rightarrow>
        await (write_u8 conn_writer (of_nat (length (as_bytes domain)))) (\<lambda>_.
        write_all conn_writer (as_bytes domain))) (addr_field a)"
proof (cases a)
  case (IpAddr i)
  then show ?thesis
    by (cases i) (auto intro: writes_intros)
next
  case (Domain d)
  then show ?thesis
    using writes_await [OF writes_all [of "[of_nat (length (inner d))]"] writes_all [of "inner d"]]
    by (simp add: as_bytes_def)
qed

lemma writes_packet_head:
  "writes (packet_head conn_writer t addr n) (udp_header CRLF t (ip addr) (port addr) (of_nat n))"
proof -
  have "writes (packet_head conn_writer t addr n)
     ([atype_u8 t] @ addr_field (ip addr) @ be_bytes 2 (port addr) @
      be_bytes 2 (of_nat n :: u16) @ be_bytes 2 CRLF)"
    unfolding packet_head_def conn_writer_sel(2-4)
    by (intro writes_await writes_addr_field [unfolded conn_writer_sel(2)]) (simp_all add: writes_all)
  then show ?thesis
    by (simp add: udp_header_def)
qed

lemma writes_packet_write: "writes (packet_write conn_writer t addr bs) (encode_packet (packet_of t addr bs))"
  using writes_await [OF writes_packet_head writes_await [OF writes_all writes_flush]]
  by (simp add: packet_write_def encode_packet_def packet_of_def)

lemma client_to_udp_server_step_eq:
  "client_to_udp_server_step R W q = await (read R BUF_SIZE) (packet_write W (atype q) (addr_port q))"
  by (simp add: client_to_udp_server_step_def packet_write_def [abs_def] packet_head_def [abs_def] await_assoc)

lemma uplink_step:
  assumes "inp (cli n) \<noteq> []" and "oend (srv n) = Accepting"
  obtains bs n' where "client_to_udp_server_step cli_reader srv_writer q n = (Ok (), n')"
    "inp (cli n) = bs @ inp (cli n')" "bs \<noteq> []" "length bs \<le> BUF_SIZE"
    "iend (cli n') = iend (cli n)"
    "srv n' = (srv n)\<lparr>outp := outp (srv n) @ encode_packet (packet_of (atype q) (addr_port q) bs)\<rparr>"
proof -
  obtain bs rest sz where
    read: "conn_read BUF_SIZE (cli n) = (Ok bs, (cli n)\<lparr>inp := rest, isizes := sz\<rparr>)"
      "inp (cli n) = bs @ rest" "bs \<noteq> []" "length bs \<le> BUF_SIZE"
    by (rule conn_read_some [OF assms(1) BUF_SIZE_pos])
  let ?n = "n\<lparr>cli := (cli n)\<lparr>inp := rest, isizes := sz\<rparr>,
             srv := (srv n)\<lparr>outp := outp (srv n) @ encode_packet (packet_of (atype q) (addr_port q) bs)\<rparr>\<rparr>"
  have "client_to_udp_server_step cli_reader srv_writer q n = (Ok (), ?n)"
    using read writes_Ok [OF writes_packet_write assms(2)]
    by (simp add: client_to_udp_server_step_eq srv.lift_packet_write await_def lift_async_def)
  with read that [of ?n bs] show thesis by simp
qed

lemma uplink_steps:
  assumes "oend (srv n) = Accepting"
  shows "\<exists>chunks n'. steps (length chunks) (client_to_udp_server_step cli_reader srv_writer q) n = (Ok (), n') \<and>
    concat chunks = inp (cli n) \<and> (\<forall>c\<in>set chunks. c \<noteq> [] \<and> length c \<le> BUF_SIZE) \<and>
    inp (cli n') = [] \<and> iend (cli n') = iend (cli n) \<and>
    srv n' = (srv n)\<lparr>outp := outp (srv n) @ concat (map (\<lambda>c. encode_packet (packet_of (atype q) (addr_port q) c)) chunks)\<rparr>"
  using assms
proof (induction "length (inp (cli n))" arbitrary: n rule: less_induct)
  case less
  show ?case
  proof (cases "inp (cli n) = []")
    case True
    then show ?thesis
      by (intro exI [of _ "[]"] exI [of _ n]) simp
  next
    case False
    obtain bs n1 where one: "client_to_udp_server_step cli_reader srv_writer q n = (Ok (), n1)"
      "inp (cli n) = bs @ inp (cli n1)" "bs \<noteq> []" "length bs \<le> BUF_SIZE" "iend (cli n1) = iend (cli n)"
      "srv n1 = (srv n)\<lparr>outp := outp (srv n) @ encode_packet (packet_of (atype q) (addr_port q) bs)\<rparr>"
      using uplink_step [OF False less.prems] by metis
    have "length (inp (cli n1)) < length (inp (cli n))" "oend (srv n1) = Accepting"
      using one less.prems by simp_all
    from less.hyps [OF this] obtain chunks n' where
      "steps (length chunks) (client_to_udp_server_step cli_reader srv_writer q) n1 = (Ok (), n')"
      "concat chunks = inp (cli n1)" "\<forall>c\<in>set chunks. c \<noteq> [] \<and> length c \<le> BUF_SIZE"
      "inp (cli n') = []" "iend (cli n') = iend (cli n1)"
      "srv n' = (srv n1)\<lparr>outp := outp (srv n1) @ concat (map (\<lambda>c. encode_packet (packet_of (atype q) (addr_port q) c)) chunks)\<rparr>"
      by blast
    with one show ?thesis
      by (intro exI [of _ "bs # chunks"] exI [of _ n']) (simp add: await_def)
  qed
qed

lemma uplink_step_end:
  assumes "inp (cli n) = []"
  shows "client_to_udp_server_step cli_reader srv_writer q n =
    (case iend (cli n) of
       Eof \<Rightarrow> lift_async srv (\<lambda>c. srv_update (\<lambda>_. c)) (packet_write conn_writer (atype q) (addr_port q) []) n
     | Broken e \<Rightarrow> (Err e, n)
     | Open \<Rightarrow> (Hang, n))"
  using assms
  by (cases "iend (cli n)")
    (simp_all add: client_to_udp_server_step_eq srv.lift_packet_write await_def lift_async_def conn_read_def)

subsection \<open>From the datagram socket to the client\<close>

fun addr_atype :: "IpAddress \<Rightarrow> Atype" where
  "addr_atype (IpAddr (V4 _)) = IPv4"
| "addr_atype (IpAddr (V6 _)) = IPv6"
| "addr_atype (Domain _) = DomainName"

lemma addr_atype_wf: "wf_addr t a \<Longrightarrow> addr_atype a = t"
  by (elim wf_addr_cases) simp_all

definition reply_packet :: "IpAddrPort \<Rightarrow> bytes \<Rightarrow> packet" where
  "reply_packet addr bs = packet_of (addr_atype (ip addr)) addr bs"

lemma udp_to_client_step_eq:
  "udp_to_client_step U W addr =
     await (recv_from U BUF_SIZE) (\<lambda>(bs, _). packet_write W (addr_atype (ip addr)) addr bs)"
  unfolding udp_to_client_step_def packet_write_def packet_head_def
  by (cases "ip addr" rule: addr_atype.cases) (simp_all add: await_assoc)

lemma udp_to_client_steps:
  assumes "incoming (sock n) = ds @ rest" and "oend (cli n) = Accepting"
  shows "steps (length ds) (udp_to_client_step net_socket cli_writer addr) n =
    (Ok (), n\<lparr>cli := (cli n)\<lparr>outp := outp (cli n) @
                concat (map (\<lambda>(d, _). encode_packet (reply_packet addr (take BUF_SIZE d))) ds)\<rparr>,
              sock := (sock n)\<lparr>incoming := rest\<rparr>\<rparr>)"
  using assms
proof (induction ds arbitrary: n)
  case (Cons x ds)
  obtain d a where x: "x = (d, a)" by (cases x)
  let ?bs = "encode_packet (reply_packet addr (take BUF_SIZE d))"
  have "udp_to_client_step net_socket cli_writer addr n =
    (Ok (), n\<lparr>cli := (cli n)\<lparr>outp := outp (cli n) @ ?bs\<rparr>, sock := (sock n)\<lparr>incoming := ds @ rest\<rparr>\<rparr>)"
    using Cons.prems x writes_Ok [OF writes_packet_write Cons.prems(2)]
    by (simp add: udp_to_client_step_eq cli.lift_packet_write await_def lift_async_def udp_ops_def
        udp_recv_from_def reply_packet_def)
  then show ?case
    using Cons.prems x by (simp add: await_def Cons.IH)
qed simp

lemma udp_to_client_step_end:
  "incoming (sock n) = [] \<Longrightarrow> udp_to_client_step net_socket cli_writer addr n =
    (case udend (sock n) of Broken e \<Rightarrow> Err e | _ \<Rightarrow> Hang, n)"
  by (simp add: udp_to_client_step_eq udp_ops_def udp_recv_from_def lift_async_def await_def split: ending.split)

subsection \<open>From a Trojan server to the client\<close>

lemma grpc_to_client_step_eq: "grpc_to_client_step = udp_server_to_client_step"
  by (simp add: fun_eq_iff grpc_to_client_step_def udp_server_to_client_step_def)

lemma downlink_step_packet:
  assumes "wf_packet k" and "packet_dest dns k = Ok d"
    and "inp (srv n) = encode_packet k @ rest" and "oend (cli n) = Accepting"
  shows "udp_server_to_client_step dns srv_reader cli_writer n =
    (Ok (), n\<lparr>cli := (cli n)\<lparr>outp := outp (cli n) @ p_data k\<rparr>, srv := (srv n)\<lparr>inp := rest\<rparr>\<rparr>)"
proof -
  have srv: "srv n = (srv n)\<lparr>inp := encode_packet k @ rest\<rparr>"
    using assms(3) by (simp add: conn_inp_update)
  have "parse_udp dns srv_reader n =
      (Ok \<lparr>udp_atype = p_atype k, dest = d, payload_size = length (p_data k)\<rparr>,
       n\<lparr>srv := (srv n)\<lparr>inp := p_data k @ rest\<rparr>\<rparr>)"
    using parse_encoded_packet [OF assms(1,2), where c = "srv n" and rest = rest] srv
    by (simp add: srv.lift_parse_udp lift_async_def)
  with assms(1,4) show ?thesis
    by (simp add: udp_server_to_client_step_def await_def lift_async_def wf_packet_def)
qed

lemma downlink_step_end:
  assumes "inp (srv n) = []"
  shows "fst (udp_server_to_client_step dns srv_reader cli_writer n) = short_read (iend (srv n)) \<and>
    cli (snd (udp_server_to_client_step dns srv_reader cli_writer n)) = cli n"
proof -
  have stop: "fst (parse_udp dns srv_reader n) = short_read (iend (srv n))"
    using parse_udp_at_end [OF assms] by (simp add: srv.lift_parse_udp)
  moreover have "cli (snd (parse_udp dns srv_reader n)) = cli n"
    by (simp add: srv.lift_parse_udp lift_async_def split: prod.split)
  ultimately show ?thesis
    unfolding udp_server_to_client_step_def by (simp add: fst_await_stop snd_await_stop)
qed

lemma downlink_steps:
  assumes "\<forall>k\<in>set ks. wf_packet k \<and> is_Ok (packet_dest dns k)"
    and "inp (srv n) = concat (map encode_packet ks) @ rest" and "oend (cli n) = Accepting"
  shows "steps (length ks) (udp_server_to_client_step dns srv_reader cli_writer) n =
    (Ok (), n\<lparr>cli := (cli n)\<lparr>outp := outp (cli n) @ concat (map p_data ks)\<rparr>, srv := (srv n)\<lparr>inp := rest\<rparr>\<rparr>)"
  using assms
proof (induction ks arbitrary: n)
  case Nil
  then show ?case
    by (simp add: conn_inp_update)
next
  case (Cons k ks)
  let ?n = "n\<lparr>cli := (cli n)\<lparr>outp := outp (cli n) @ p_data k\<rparr>,
              srv := (srv n)\<lparr>inp := concat (map encode_packet ks) @ rest\<rparr>\<rparr>"
  have "udp_server_to_client_step dns srv_reader cli_writer n = (Ok (), ?n)"
    using Cons.prems by (auto simp: is_Ok_iff intro: downlink_step_packet)
  moreover have "steps (length ks) (udp_server_to_client_step dns srv_reader cli_writer) ?n =
    (Ok (), ?n\<lparr>cli := (cli ?n)\<lparr>outp := outp (cli ?n) @ concat (map p_data ks)\<rparr>, srv := (srv ?n)\<lparr>inp := rest\<rparr>\<rparr>)"
    using Cons.prems by (intro Cons.IH) auto
  ultimately show ?case
    by (simp add: await_def)
qed

subsection \<open>From the client to a gRPC channel\<close>

context byte_writer
begin

lemma sim_packet_head:
  "simulates invar view obs (packet_head W t addr n) (packet_head W0 t addr n)"
  unfolding packet_head_def
  by (intro sim_intros) (auto intro!: sim_intros split: IpAddress.split IpAddr.split)

end

lemma grpc_packet_header_result:
  obtains c where "grpc_packet_header q n (Cursor_new v) = (Ok (), c)"
    "take (cpos c) (cvec c) = udp_header CRLF (atype q) (ip (addr_port q)) (port (addr_port q)) (of_nat n)"
proof -
  have "grpc_packet_header q n = packet_head cursor_writer (atype q) (addr_port q) n"
    by (simp add: grpc_packet_header_def packet_head_def)
  then obtain c where "grpc_packet_header q n (Cursor_new v) = (Ok (), c)"
    "cursor_result c = udp_header CRLF (atype q) (ip (addr_port q)) (port (addr_port q)) (of_nat n)"
    using cursor_build [OF cursor.sim_packet_head writes_packet_head, of "atype q" "addr_port q" n v]
    by (elim exE conjE) simp
  then show thesis
    using that [of c] by (simp add: cursor_result_def)
qed

text \<open>One packet goes out as two messages, the header and the payload.\<close>

definition packet_hunks :: "packet \<Rightarrow> Hunk list" where
  "packet_hunks k =
     [\<lparr>data = udp_header CRLF (p_atype k) (p_addr k) (p_port k) (of_nat (length (p_data k)))\<rparr>,
      \<lparr>data = p_data k\<rparr>]"

lemma packet_hunks_data: "concat (map data (packet_hunks k)) = encode_packet k"
  by (simp add: packet_hunks_def encode_packet_def)

lemma grpc_uplink_send:
  assumes "conn_read BUF_SIZE (cli n) = (Ok bs, c)" and "cend (chan n) = Accepting"
  shows "client_to_grpc_step cli_reader net_sender q n =
    (Ok (), n\<lparr>cli := c, chan := (chan n)\<lparr>msgs := msgs (chan n) @
       packet_hunks (packet_of (atype q) (addr_port q) bs)\<rparr>\<rparr>)"
proof -
  obtain cur where "grpc_packet_header q (length bs) (Cursor_new (replicate 512 0)) = (Ok (), cur)"
    "take (cpos cur) (cvec cur) =
       udp_header CRLF (atype q) (ip (addr_port q)) (port (addr_port q)) (of_nat (length bs))"
    by (rule grpc_packet_header_result)
  with assms show ?thesis
    by (simp add: client_to_grpc_step_def await_def lift_async_def map_err_def chan_ops_def chan_send_def
        packet_hunks_def packet_of_def)
qed

text \<open>
  The loop towards a TCP server and the loop towards a gRPC server, on the same client: what the
  first has written are the bytes of the messages the second has sent.
\<close>

definition same_packets :: "'m net \<Rightarrow> Hunk net \<Rightarrow> 'm net \<Rightarrow> Hunk net \<Rightarrow> bool" where
  "same_packets n0 m0 n m \<longleftrightarrow> cli n = cli m \<and> oend (srv n) = Accepting \<and> cend (chan m) = Accepting \<and>
     (\<exists>new. msgs (chan m) = msgs (chan m0) @ new \<and> outp (srv n) = outp (srv n0) @ concat (map data new))"

lemma same_packets_step:
  assumes "same_packets n0 m0 n m"
  shows "fst (client_to_udp_server_step cli_reader srv_writer q n) = fst (client_to_grpc_step cli_reader net_sender q m) \<and>
    same_packets n0 m0 (snd (client_to_udp_server_step cli_reader srv_writer q n))
      (snd (client_to_grpc_step cli_reader net_sender q m))"
proof -
  obtain new where st: "cli n = cli m" "oend (srv n) = Accepting" "cend (chan m) = Accepting"
      "msgs (chan m) = msgs (chan m0) @ new" "outp (srv n) = outp (srv n0) @ concat (map data new)"
    using assms unfolding same_packets_def by (elim exE conjE)
  let ?pk = "packet_of (atype q) (addr_port q)"
  obtain r c where rd: "conn_read BUF_SIZE (cli m) = (r, c)" by (cases "conn_read BUF_SIZE (cli m)")
  show ?thesis
  proof (cases r)
    case (Ok bs)
    have "client_to_udp_server_step cli_reader srv_writer q n =
        (Ok (), n\<lparr>cli := c, srv := (srv n)\<lparr>outp := outp (srv n) @ encode_packet (?pk bs)\<rparr>\<rparr>)"
      using rd Ok st(1) writes_Ok [OF writes_packet_write st(2)]
      by (simp add: client_to_udp_server_step_eq srv.lift_packet_write await_def lift_async_def)
    moreover have "\<exists>l. (msgs (chan m0) @ new) @ packet_hunks (?pk bs) = msgs (chan m0) @ l \<and>
        (outp (srv n0) @ concat (map data new)) @ encode_packet (?pk bs) = outp (srv n0) @ concat (map data l)"
      by (intro exI [of _ "new @ packet_hunks (?pk bs)"]) (simp add: packet_hunks_data)
    ultimately show ?thesis
      using grpc_uplink_send [OF rd [unfolded Ok] st(3)] st(2-5) unfolding same_packets_def by simp
  qed (use rd st in \<open>auto simp: client_to_udp_server_step_eq client_to_grpc_step_def await_def lift_async_def same_packets_def\<close>)
qed

lemma same_packets_steps:
  assumes "same_packets n0 m0 n m"
  shows "fst (steps k (client_to_udp_server_step cli_reader srv_writer q) n) =
      fst (steps k (client_to_grpc_step cli_reader net_sender q) m) \<and>
    same_packets n0 m0 (snd (steps k (client_to_udp_server_step cli_reader srv_writer q) n))
      (snd (steps k (client_to_grpc_step cli_reader net_sender q) m))"
  by (rule lockstep_steps [where rel = "same_packets n0 m0"]) (erule same_packets_step, rule assms)

lemma same_packets_loop:
  assumes "same_packets n0 m0 n m" and "loop (client_to_udp_server_step cli_reader srv_writer q) n = Some (r, n')"
  shows "\<exists>m'. loop (client_to_grpc_step cli_reader net_sender q) m = Some (r, m') \<and> same_packets n0 m0 n' m'"
  by (rule lockstep_loop [where rel = "same_packets n0 m0", OF _ assms]) (erule same_packets_step)

lemma same_packets_back:
  assumes "same_packets n0 m0 n m" and "loop (client_to_grpc_step cli_reader net_sender q) m = Some (r, m')"
  shows "loop (client_to_udp_server_step cli_reader srv_writer q) n \<noteq> None"
proof -
  have "\<exists>n'. loop (client_to_udp_server_step cli_reader srv_writer q) n = Some (r, n') \<and> same_packets n0 m0 n' m'"
    by (rule lockstep_loop [where rel = "\<lambda>m n. same_packets n0 m0 n m", OF _ assms]) (use same_packets_step in fastforce)
  then show ?thesis by auto
qed

section \<open>Properties\<close>

lemma loop_steps_stop:
  "steps n body s = (Ok u, t) \<Longrightarrow> body t = (r, t') \<Longrightarrow> \<not> is_Ok r \<Longrightarrow> loop body s = Some (r, t')"
  using loop_steps [of n body s u t] loop_stop [of body t r t'] by simp

lemma client_to_udp_loop:
  assumes "\<forall>k\<in>set ks. wf_packet k \<and> packet_dest dns k = Ok (where_to k)"
    and "inp (cli n) = concat (map encode_packet ks)" and "uend (sock n) = Accepting"
  shows "\<exists>n'. loop (client_to_udp_step dns cli_reader net_socket) n = Some (short_read (iend (cli n)), n') \<and>
    sent (sock n') = sent (sock n) @ map (\<lambda>k. (p_data k, where_to k)) ks"
proof -
  let ?body = "client_to_udp_step dns cli_reader net_socket"
  let ?n = "n\<lparr>cli := (cli n)\<lparr>inp := []\<rparr>,
              sock := (sock n)\<lparr>sent := sent (sock n) @ map (\<lambda>k. (p_data k, where_to k)) ks\<rparr>\<rparr>"
  have steps: "steps (length ks) ?body n = (Ok (), ?n)"
    using client_to_udp_steps [OF assms(1) _ assms(3), of "[]"] assms(2) by simp
  have stop: "fst (?body ?n) = short_read (iend (cli n))" "sock (snd (?body ?n)) = sock ?n"
    using client_to_udp_step_end [of ?n dns] by simp_all
  then have "loop ?body n = Some (short_read (iend (cli n)), snd (?body ?n))"
    by (intro loop_steps_stop [OF steps]) (simp_all add: prod_eq_iff)
  with stop(2) show ?thesis by simp
qed

lemma client_to_udp_loop_panics:
  assumes "\<forall>k\<in>set ks. wf_packet k \<and> packet_dest dns k = Ok (where_to k)"
    and "inp (cli n) = concat (map encode_packet ks) @ udp_header sep t a p len @ rest"
    and "uend (sock n) = Accepting" and "wf_addr t a"
    and "BUF_SIZE < unat len \<and> is_Ok (into_SocketAddr dns (IpAddrPort_new a p)) \<or>
      (\<exists>msg. into_SocketAddr dns (IpAddrPort_new a p) = Panic msg)"
  shows "\<exists>msg n'. loop (client_to_udp_step dns cli_reader net_socket) n = Some (Panic msg, n') \<and>
    sent (sock n') = sent (sock n) @ map (\<lambda>k. (p_data k, where_to k)) ks"
proof -
  let ?body = "client_to_udp_step dns cli_reader net_socket"
  let ?n = "n\<lparr>cli := (cli n)\<lparr>inp := udp_header sep t a p len @ rest\<rparr>,
              sock := (sock n)\<lparr>sent := sent (sock n) @ map (\<lambda>k. (p_data k, where_to k)) ks\<rparr>\<rparr>"
  have steps: "steps (length ks) ?body n = (Ok (), ?n)"
    using client_to_udp_steps [OF assms(1,2,3)] by simp
  have "\<exists>msg n'. ?body ?n = (Panic msg, n') \<and> sock n' = sock ?n"
    using assms(4,5)
    by (auto simp: client_to_udp_step_def await_def cli.lift_parse_udp lift_async_def parse_udp_header is_Ok_iff)
  then show ?thesis
    using loop_steps_stop [OF steps] by fastforce
qed

lemma packet_dest_of [simp]: "packet_dest dns (packet_of t addr bs) = into_SocketAddr dns addr"
  by (cases addr) (simp add: packet_dest_def packet_of_def IpAddrPort_new_def)

lemma uplink_loop:
  assumes "oend (srv n) = Accepting" and "iend (cli n) = Broken e"
  shows "\<exists>chunks n'. loop (client_to_udp_server_step cli_reader srv_writer q) n = Some (Err e, n') \<and>
    concat chunks = inp (cli n) \<and> (\<forall>c\<in>set chunks. c \<noteq> [] \<and> length c \<le> BUF_SIZE) \<and>
    outp (srv n') = outp (srv n) @ concat (map (\<lambda>c. encode_packet (packet_of (atype q) (addr_port q) c)) chunks)"
proof -
  let ?body = "client_to_udp_server_step cli_reader srv_writer q"
  obtain chunks n' where n': "steps (length chunks) ?body n = (Ok (), n')"
    "concat chunks = inp (cli n)" "\<forall>c\<in>set chunks. c \<noteq> [] \<and> length c \<le> BUF_SIZE"
    "inp (cli n') = []" "iend (cli n') = iend (cli n)"
    "srv n' = (srv n)\<lparr>outp := outp (srv n) @ concat (map (\<lambda>c. encode_packet (packet_of (atype q) (addr_port q) c)) chunks)\<rparr>"
    using uplink_steps [OF assms(1), of q] by (elim exE conjE)
  have "loop ?body n = Some (Err e, n')"
    by (rule loop_steps_stop [OF n'(1)]) (simp_all add: uplink_step_end n'(4,5) assms(2))
  with n' show ?thesis
    by (intro exI [of _ chunks] exI [of _ n']) simp
qed

lemma uplink_loop_eof:
  assumes "oend (srv n) = Accepting" and "iend (cli n) = Eof"
  shows "loop (client_to_udp_server_step cli_reader srv_writer q) n = None"
proof -
  let ?body = "client_to_udp_server_step cli_reader srv_writer q"
  let ?P = "\<lambda>n. oend (srv n) = Accepting \<and> iend (cli n) = Eof"
  have "\<exists>t'. ?body t = (Ok (), t') \<and> ?P t'" if P: "?P t" for t
  proof (cases "inp (cli t) = []")
    case True
    with P show ?thesis
      by (simp add: uplink_step_end lift_async_def writes_Ok [OF writes_packet_write])
  next
    case False
    from P have "oend (srv t) = Accepting" by simp
    from uplink_step [OF False this, where q = q] P show ?thesis
      by (metis conn.select_convs(5) conn.surjective conn.update_convs(4))
  qed
  then show ?thesis
    using assms by (intro loop_diverges [where P = ?P]) simp_all
qed

lemma reply_loop:
  assumes "oend (cli n) = Accepting" and "udend (sock n) = Broken e"
  shows "\<exists>n'. loop (udp_to_client_step net_socket cli_writer addr) n = Some (Err e, n') \<and>
    outp (cli n') = outp (cli n) @
      concat (map (\<lambda>(d, _). encode_packet (reply_packet addr (take BUF_SIZE d))) (incoming (sock n)))"
  using loop_steps_stop [OF udp_to_client_steps [of n "incoming (sock n)" "[]" addr, OF _ assms(1)]
      udp_to_client_step_end] assms(2)
  by simp

lemma downlink_loop:
  assumes "\<forall>k\<in>set ks. wf_packet k \<and> is_Ok (packet_dest dns k)"
    and "inp (srv n) = concat (map encode_packet ks)" and "oend (cli n) = Accepting"
  shows "\<exists>n'. loop (udp_server_to_client_step dns srv_reader cli_writer) n = Some (short_read (iend (srv n)), n') \<and>
    outp (cli n') = outp (cli n) @ concat (map p_data ks)"
proof -
  let ?body = "udp_server_to_client_step dns srv_reader cli_writer"
  let ?n = "n\<lparr>cli := (cli n)\<lparr>outp := outp (cli n) @ concat (map p_data ks)\<rparr>, srv := (srv n)\<lparr>inp := []\<rparr>\<rparr>"
  have steps: "steps (length ks) ?body n = (Ok (), ?n)"
    using downlink_steps [OF assms(1) _ assms(3), of "[]"] assms(2) by simp
  have stop: "fst (?body ?n) = short_read (iend (srv n))" "cli (snd (?body ?n)) = cli ?n"
    using downlink_step_end [of ?n dns] by simp_all
  then have "loop ?body n = Some (short_read (iend (srv n)), snd (?body ?n))"
    by (intro loop_steps_stop [OF steps]) (simp_all add: prod_eq_iff)
  with stop(2) show ?thesis by simp
qed

text \<open>
  C16: The server's UDP relay. When the client sends the packets \<open>ks\<close>, each well formed (at most
  4096 bytes) and with a destination that resolves, the loop sends exactly their payloads, in order
  and each to its own destination, and returns what a read past the end of the client's stream
  gives.
\<close>

theorem udp_relay_delivers:
  assumes "exact_reader R cli_reader invar view (\<lambda>n. sent (sock n))"
    and "udp_io U net_socket invar view (\<lambda>n. sent (sock n))" and "invar s"
    and "\<forall>k\<in>set ks. wf_packet k \<and> packet_dest dns k = Ok (where_to k)"
    and "inp (cli (view s)) = concat (map encode_packet ks)" and "uend (sock (view s)) = Accepting"
  shows "\<exists>s'. copy_client_reader_to_udp_socket dns R U s = Some (short_read (iend (cli (view s))), s') \<and>
    sent (sock (view s')) = sent (sock (view s)) @ map (\<lambda>k. (p_data k, where_to k)) ks"
proof -
  obtain n' where n': "loop (client_to_udp_step dns cli_reader net_socket) (view s) =
      Some (short_read (iend (cli (view s))), n')"
    "sent (sock n') = sent (sock (view s)) @ map (\<lambda>k. (p_data k, where_to k)) ks"
    using client_to_udp_loop [OF assms(4-6)] by (elim exE conjE)
  show ?thesis
    using simulates_loop [OF sim_client_to_udp_step [OF assms(1,2)] assms(3) n'(1)] n'(2)
    by (simp add: copy_client_reader_to_udp_socket_def)
qed

theorem udp_relay_delivers_witness:
  "\<exists>s'. copy_client_reader_to_udp_socket (\<lambda>_ _. Inr []) cli_reader net_socket
      (idle_net (peer (encode_packet (packet_of IPv4 \<lparr>ip = from_u32 5, port = 53\<rparr> [1, 2]))) :: Hunk net) =
      Some (Err (Error UnexpectedEof ''early eof''), s') \<and>
    sent (sock s') = [([1, 2], SocketAddr (V4 5) 53)]"
proof -
  let ?k = "packet_of IPv4 \<lparr>ip = from_u32 5, port = 53\<rparr> [1, 2]"
  have "wf_packet ?k" "packet_dest (\<lambda>_ _. Inr []) ?k = Ok (SocketAddr (V4 5) 53)"
    by (simp_all add: BUF_SIZE_def into_SocketAddr_def from_u32_def)
  then show ?thesis
    using udp_relay_delivers [OF net_cli.exact_reader_axioms net_udp.udp_io_axioms TrueI,
        where ks = "[?k]" and where_to = "\<lambda>_. SocketAddr (V4 5) 53" and dns = "\<lambda>_ _. Inr []"
          and s = "idle_net (peer (encode_packet ?k)) :: Hunk net"]
    by simp
qed

text \<open>
  C29: A packet header that announces more than 4096 bytes, or whose domain name the resolver does
  not know, makes the relay panic, after the packets before it were delivered.
\<close>

theorem udp_relay_panics:
  assumes "exact_reader R cli_reader invar view (\<lambda>n. sent (sock n))"
    and "udp_io U net_socket invar view (\<lambda>n. sent (sock n))" and "invar s"
    and "\<forall>k\<in>set ks. wf_packet k \<and> packet_dest dns k = Ok (where_to k)"
    and "inp (cli (view s)) = concat (map encode_packet ks) @ udp_header sep t a p len @ rest"
    and "uend (sock (view s)) = Accepting" and "wf_addr t a"
    and "BUF_SIZE < unat len \<and> is_Ok (into_SocketAddr dns (IpAddrPort_new a p)) \<or>
      (\<exists>msg. into_SocketAddr dns (IpAddrPort_new a p) = Panic msg)"
  shows "\<exists>msg s'. copy_client_reader_to_udp_socket dns R U s = Some (Panic msg, s') \<and>
    sent (sock (view s')) = sent (sock (view s)) @ map (\<lambda>k. (p_data k, where_to k)) ks"
proof -
  obtain msg n' where n': "loop (client_to_udp_step dns cli_reader net_socket) (view s) = Some (Panic msg, n')"
    "sent (sock n') = sent (sock (view s)) @ map (\<lambda>k. (p_data k, where_to k)) ks"
    using client_to_udp_loop_panics [OF assms(4-8)] by (elim exE conjE)
  show ?thesis
    using simulates_loop [OF sim_client_to_udp_step [OF assms(1,2)] assms(3) n'(1)] n'(2)
    by (auto simp: copy_client_reader_to_udp_socket_def)
qed

theorem udp_relay_panics_witness:
  "\<exists>msg s'. copy_client_reader_to_udp_socket (\<lambda>_ _. Inr []) cli_reader net_socket
      (idle_net (peer (udp_header CRLF IPv4 (from_u32 5) 53 5000 @ [1])) :: Hunk net) =
      Some (Panic msg, s') \<and> sent (sock s') = []"
  using udp_relay_panics [OF net_cli.exact_reader_axioms net_udp.udp_io_axioms TrueI,
      where ks = "[]" and dns = "\<lambda>_ _. Inr []" and t = IPv4 and a = "from_u32 5" and p = 53
        and len = 5000 and sep = CRLF and rest = "[1]"
        and s = "idle_net (peer (udp_header CRLF IPv4 (from_u32 5) 53 5000 @ [1])) :: Hunk net"]
  by (simp add: BUF_SIZE_def into_SocketAddr_def from_u32_def IpAddrPort_new_def)

text \<open>
  C8: UDP from the client side to the destination. When the local client's stream breaks with
  \<open>e\<close>, the uplink loop returns that error, and what it wrote makes the server's relay send
  datagrams, all to the destination of the request, whose payloads are non-empty pieces of at most
  4096 bytes that concatenate to exactly the bytes the client sent.
\<close>

theorem udp_uplink_end_to_end:
  assumes "chunk_reader R cli_reader invar view (\<lambda>n. outp (srv n))"
    and "byte_writer W srv_writer invar view (\<lambda>n. outp (srv n))" and "invar s"
    and "oend (srv (view s)) = Accepting" and "outp (srv (view s)) = []"
    and "iend (cli (view s)) = Broken e"
    and "wf_request q" and "into_SocketAddr dns (addr_port q) = Ok d"
    and "exact_reader R2 cli_reader invar2 view2 (\<lambda>n. sent (sock n))"
    and "udp_io U2 net_socket invar2 view2 (\<lambda>n. sent (sock n))"
  shows "\<exists>chunks s'. copy_client_reader_to_udp_server_writer R W q s = Some (Err e, s') \<and>
    concat chunks = inp (cli (view s)) \<and> (\<forall>c\<in>set chunks. c \<noteq> [] \<and> length c \<le> BUF_SIZE) \<and>
    (\<forall>s2. invar2 s2 \<longrightarrow> inp (cli (view2 s2)) = outp (srv (view s')) \<longrightarrow> uend (sock (view2 s2)) = Accepting \<longrightarrow>
      (\<exists>s2'. copy_client_reader_to_udp_socket dns R2 U2 s2 = Some (short_read (iend (cli (view2 s2))), s2') \<and>
         sent (sock (view2 s2')) = sent (sock (view2 s2)) @ map (\<lambda>c. (c, d)) chunks))"
proof -
  let ?pk = "packet_of (atype q) (addr_port q)"
  obtain chunks n' where n': "loop (client_to_udp_server_step cli_reader srv_writer q) (view s) = Some (Err e, n')"
    "concat chunks = inp (cli (view s))" "\<forall>c\<in>set chunks. c \<noteq> [] \<and> length c \<le> BUF_SIZE"
    "outp (srv n') = concat (map (\<lambda>c. encode_packet (?pk c)) chunks)"
    using uplink_loop [OF assms(4,6), of q] assms(5) by auto
  obtain s' where s': "copy_client_reader_to_udp_server_writer R W q s = Some (Err e, s')"
    "outp (srv (view s')) = outp (srv n')"
    using simulates_loop [OF sim_client_to_udp_server_step [OF assms(1,2)] assms(3) n'(1)]
    unfolding copy_client_reader_to_udp_server_writer_def by (elim exE conjE)
  have wf: "\<forall>k\<in>set (map ?pk chunks). wf_packet k \<and> packet_dest dns k = Ok d"
    using n'(3) assms(7,8) by (auto simp: wf_request_def)
  have "\<exists>s2'. copy_client_reader_to_udp_socket dns R2 U2 s2 = Some (short_read (iend (cli (view2 s2))), s2') \<and>
      sent (sock (view2 s2')) = sent (sock (view2 s2)) @ map (\<lambda>c. (c, d)) chunks"
    if s2: "invar2 s2" "inp (cli (view2 s2)) = outp (srv (view s'))" "uend (sock (view2 s2)) = Accepting" for s2
  proof -
    have "inp (cli (view2 s2)) = concat (map encode_packet (map ?pk chunks))"
      using s2(2) s'(2) n'(4) by (simp add: comp_def)
    from client_to_udp_loop [OF wf this s2(3)] obtain n2 where
      n2: "loop (client_to_udp_step dns cli_reader net_socket) (view2 s2) =
        Some (short_read (iend (cli (view2 s2))), n2)"
      "sent (sock n2) = sent (sock (view2 s2)) @ map (\<lambda>c. (c, d)) chunks"
      by (auto simp: comp_def)
    show ?thesis
      using simulates_loop [OF sim_client_to_udp_step [OF assms(9,10)] s2(1) n2(1)] n2(2)
      by (simp add: copy_client_reader_to_udp_socket_def)
  qed
  with s'(1) n'(2,3) show ?thesis
    by (intro exI [of _ chunks] exI [of _ s']) simp
qed

definition broken_peer :: "bytes \<Rightarrow> conn" where
  "broken_peer bs = (peer bs)\<lparr>iend := Broken (Error ConnectionReset ''reset'')\<rparr>"

lemma broken_peer_sel [simp]:
  "inp (broken_peer bs) = bs" "iend (broken_peer bs) = Broken (Error ConnectionReset ''reset'')"
  "outp (broken_peer bs) = []" "oend (broken_peer bs) = Accepting"
  by (simp_all add: broken_peer_def)

definition sample_udp_request :: InboundRequest where
  "sample_udp_request = InboundRequest_new IPv4 (from_u32 5) Udp 53 UDP SOCKS"

lemma sample_udp_request_sel [simp]:
  "wf_request sample_udp_request" "atype sample_udp_request = IPv4"
  "into_SocketAddr dns (addr_port sample_udp_request) = Ok (SocketAddr (V4 5) 53)"
  by (simp_all add: sample_udp_request_def InboundRequest_new_def wf_request_def transport_of_def
      IpAddrPort_new_def into_SocketAddr_def from_u32_def)

theorem udp_uplink_end_to_end_witness:
  "\<exists>chunks s'. copy_client_reader_to_udp_server_writer cli_reader srv_writer sample_udp_request
      (idle_net (broken_peer [1, 2, 3]) :: Hunk net) = Some (Err (Error ConnectionReset ''reset''), s') \<and>
    concat chunks = [1, 2, 3] \<and>
    (\<exists>s2'. copy_client_reader_to_udp_socket (\<lambda>_ _. Inr []) cli_reader net_socket
        (idle_net (peer (outp (srv s'))) :: Hunk net) = Some (Err (Error UnexpectedEof ''early eof''), s2') \<and>
      sent (sock s2') = map (\<lambda>c. (c, SocketAddr (V4 5) 53)) chunks)"
proof -
  obtain chunks s' where s': "copy_client_reader_to_udp_server_writer cli_reader srv_writer sample_udp_request
      (idle_net (broken_peer [1, 2, 3]) :: Hunk net) = Some (Err (Error ConnectionReset ''reset''), s')"
    "concat chunks = [1, 2, 3]"
    "\<forall>s2 :: Hunk net. inp (cli s2) = outp (srv s') \<longrightarrow> uend (sock s2) = Accepting \<longrightarrow>
      (\<exists>s2'. copy_client_reader_to_udp_socket (\<lambda>_ _. Inr []) cli_reader net_socket s2 =
         Some (short_read (iend (cli s2)), s2') \<and>
         sent (sock s2') = sent (sock s2) @ map (\<lambda>c. (c, SocketAddr (V4 5) 53)) chunks)"
    using udp_uplink_end_to_end [OF net_cli.chunk_reader_axioms net_srv.byte_writer_axioms TrueI _ _ _ _ _
        net_cli.exact_reader_axioms net_udp.udp_io_axioms,
        where q = sample_udp_request and s = "idle_net (broken_peer [1, 2, 3]) :: Hunk net"
          and dns = "\<lambda>_ _. Inr []" and d = "SocketAddr (V4 5) 53"
          and e = "Error ConnectionReset ''reset''"]
    by auto
  from s'(3) [rule_format, of "idle_net (peer (outp (srv s')))"] s'(1,2) show ?thesis
    by (intro exI [of _ chunks] exI [of _ s']) simp
qed

text \<open>
  C30: The client's uplink never notices that its local client has closed the connection: over a
  stream that ends cleanly the loop does not return, it keeps writing empty packets.
\<close>

theorem udp_uplink_spins_at_eof:
  assumes "chunk_reader R cli_reader invar view (\<lambda>n. outp (srv n))"
    and "byte_writer W srv_writer invar view (\<lambda>n. outp (srv n))" and "invar s"
    and "oend (srv (view s)) = Accepting" and "iend (cli (view s)) = Eof"
  shows "copy_client_reader_to_udp_server_writer R W q s = None"
  using simulates_loop_None [OF sim_client_to_udp_server_step [OF assms(1,2)] assms(3) uplink_loop_eof [OF assms(4,5)]]
  by (simp add: copy_client_reader_to_udp_server_writer_def)

theorem udp_uplink_spins_at_eof_witness:
  "copy_client_reader_to_udp_server_writer cli_reader srv_writer sample_udp_request
     (idle_net (peer [1, 2, 3]) :: Hunk net) = None"
  using udp_uplink_spins_at_eof [OF net_cli.chunk_reader_axioms net_srv.byte_writer_axioms TrueI,
      where s = "idle_net (peer [1, 2, 3]) :: Hunk net"]
  by simp

text \<open>
  C17: UDP back to the client side. The datagrams \<open>incoming\<close> that the server's socket receives
  before it fails reach the local client as their bytes, in order, each cut at 4096 bytes, provided
  the address of the request resolves on the client side too.
\<close>

theorem udp_downlink_end_to_end:
  assumes "udp_io U net_socket invar view (\<lambda>n. outp (cli n))"
    and "byte_writer W cli_writer invar view (\<lambda>n. outp (cli n))" and "invar s"
    and "oend (cli (view s)) = Accepting" and "outp (cli (view s)) = []"
    and "udend (sock (view s)) = Broken e"
    and "wf_addr t (ip addr)" and "is_Ok (into_SocketAddr dns addr)"
    and "exact_reader R2 srv_reader invar2 view2 (\<lambda>n. outp (cli n))"
    and "byte_writer W2 cli_writer invar2 view2 (\<lambda>n. outp (cli n))"
  shows "\<exists>s'. copy_udp_socket_to_client_writer U W addr s = Some (Err e, s') \<and>
    (\<forall>s2. invar2 s2 \<longrightarrow> inp (srv (view2 s2)) = outp (cli (view s')) \<longrightarrow> oend (cli (view2 s2)) = Accepting \<longrightarrow>
      (\<exists>s2'. copy_udp_server_reader_to_client_writer dns R2 W2 s2 = Some (short_read (iend (srv (view2 s2))), s2') \<and>
         outp (cli (view2 s2')) = outp (cli (view2 s2)) @
           concat (map (\<lambda>(d, _). take BUF_SIZE d) (incoming (sock (view s))))))"
proof -
  let ?ks = "map (\<lambda>(d, _). reply_packet addr (take BUF_SIZE d)) (incoming (sock (view s)))"
  obtain n' where n': "loop (udp_to_client_step net_socket cli_writer addr) (view s) = Some (Err e, n')"
    "outp (cli n') = concat (map encode_packet ?ks)"
    using reply_loop [OF assms(4,6), of addr] assms(5) by (auto simp: comp_def case_prod_unfold)
  obtain s' where s': "copy_udp_socket_to_client_writer U W addr s = Some (Err e, s')"
    "outp (cli (view s')) = outp (cli n')"
    using simulates_loop [OF sim_udp_to_client_step [OF assms(1,2)] assms(3) n'(1)]
    unfolding copy_udp_socket_to_client_writer_def by (elim exE conjE)
  have wf: "\<forall>k\<in>set ?ks. wf_packet k \<and> is_Ok (packet_dest dns k)"
    using assms(7,8) by (auto simp: reply_packet_def addr_atype_wf [OF assms(7)])
  have data: "map p_data ?ks = map (\<lambda>(d, _). take BUF_SIZE d) (incoming (sock (view s)))"
    by (auto simp: reply_packet_def)
  have "\<exists>s2'. copy_udp_server_reader_to_client_writer dns R2 W2 s2 = Some (short_read (iend (srv (view2 s2))), s2') \<and>
      outp (cli (view2 s2')) = outp (cli (view2 s2)) @ concat (map p_data ?ks)"
    if s2: "invar2 s2" "inp (srv (view2 s2)) = outp (cli (view s'))" "oend (cli (view2 s2)) = Accepting" for s2
  proof -
    have "inp (srv (view2 s2)) = concat (map encode_packet ?ks)"
      using s2(2) s'(2) n'(2) by simp
    from downlink_loop [OF wf this s2(3)] obtain n2 where
      n2: "loop (udp_server_to_client_step dns srv_reader cli_writer) (view2 s2) =
        Some (short_read (iend (srv (view2 s2))), n2)"
      "outp (cli n2) = outp (cli (view2 s2)) @ concat (map p_data ?ks)"
      by (elim exE conjE)
    show ?thesis
      using simulates_loop [OF sim_udp_server_to_client_step [OF assms(9,10)] s2(1) n2(1)] n2(2)
      by (simp add: copy_udp_server_reader_to_client_writer_def)
  qed
  with s'(1) show ?thesis
    unfolding data by (intro exI [of _ s']) simp
qed

definition answering_net :: "Hunk net" where
  "answering_net = (idle_net (peer []))\<lparr>sock := \<lparr>sent = [], uend = Accepting,
     incoming = [([7, 8], SocketAddr (V4 5) 53)], udend = Broken (Error ConnectionReset ''reset'')\<rparr>\<rparr>"

theorem udp_downlink_end_to_end_witness:
  "\<exists>s'. copy_udp_socket_to_client_writer net_socket cli_writer (addr_port sample_udp_request) answering_net =
      Some (Err (Error ConnectionReset ''reset''), s') \<and>
    (\<exists>s2'. copy_udp_server_reader_to_client_writer (\<lambda>_ _. Inr []) srv_reader cli_writer
        ((idle_net (peer []))\<lparr>srv := peer (outp (cli s'))\<rparr> :: Hunk net) =
        Some (Err (Error UnexpectedEof ''early eof''), s2') \<and> outp (cli s2') = [7, 8])"
proof -
  have wf: "wf_addr IPv4 (ip (addr_port sample_udp_request))"
    by (simp add: sample_udp_request_def InboundRequest_new_def IpAddrPort_new_def)
  obtain s' where s': "copy_udp_socket_to_client_writer net_socket cli_writer (addr_port sample_udp_request)
      answering_net = Some (Err (Error ConnectionReset ''reset''), s')"
    "\<forall>s2 :: Hunk net. inp (srv s2) = outp (cli s') \<longrightarrow> oend (cli s2) = Accepting \<longrightarrow>
      (\<exists>s2'. copy_udp_server_reader_to_client_writer (\<lambda>_ _. Inr []) srv_reader cli_writer s2 =
         Some (short_read (iend (srv s2)), s2') \<and> outp (cli s2') = outp (cli s2) @ [7, 8])"
    using udp_downlink_end_to_end [OF net_udp.udp_io_axioms net_cli.byte_writer_axioms TrueI _ _ _ wf _
        net_srv.exact_reader_axioms net_cli.byte_writer_axioms,
        where s = answering_net and dns = "\<lambda>_ _. Inr []" and e = "Error ConnectionReset ''reset''"]
    by (auto simp: answering_net_def BUF_SIZE_def)
  from s'(2) [rule_format, of "(idle_net (peer []))\<lparr>srv := peer (outp (cli s'))\<rparr>"] s'(1) show ?thesis
    by (intro exI [of _ s']) simp
qed

text \<open>
  C31: UDP over gRPC carries the same packets as UDP over TCP. Run the loop that feeds the gRPC
  channel and the loop that writes to a TCP server on the same client, with a channel and a server
  that keep accepting data: after every number of passes both are in the same condition (running, or
  stopped with the same result) and the bytes of the messages sent so far are exactly the bytes
  written so far. So one loop returns if and only if the other does, with the same result. This is
  for every client, whether its stream breaks, ends or falls silent.
\<close>

theorem grpc_packet_uplink:
  assumes tcp: "chunk_reader R1 cli_reader invar1 view1 (\<lambda>n. outp (srv n))"
      "byte_writer W srv_writer invar1 view1 (\<lambda>n. outp (srv n))" "invar1 s1" "oend (srv (view1 s1)) = Accepting"
    and grpc: "chunk_reader R2 cli_reader invar2 view2 (\<lambda>n. msgs (chan n))"
      "msg_sender C net_sender invar2 view2 (\<lambda>n. msgs (chan n))" "invar2 s2" "cend (chan (view2 s2)) = Accepting"
    and client: "cli (view1 s1) = cli (view2 s2)"
  shows "(\<forall>k r1 t1 r2 t2. steps k (client_to_udp_server_step R1 W q) s1 = (r1, t1) \<longrightarrow>
      steps k (client_to_grpc_step R2 C q) s2 = (r2, t2) \<longrightarrow> r1 = r2 \<and>
      (\<exists>new. msgs (chan (view2 t2)) = msgs (chan (view2 s2)) @ new \<and>
         outp (srv (view1 t1)) = outp (srv (view1 s1)) @ concat (map data new))) \<and>
    (case copy_client_reader_to_udp_server_writer R1 W q s1 of
       None \<Rightarrow> packet_copy_client_reader_to_server_grpc_writer R2 C q s2 = None
     | Some (r, t1) \<Rightarrow> \<exists>t2 new. packet_copy_client_reader_to_server_grpc_writer R2 C q s2 = Some (r, t2) \<and>
         msgs (chan (view2 t2)) = msgs (chan (view2 s2)) @ new \<and>
         outp (srv (view1 t1)) = outp (srv (view1 s1)) @ concat (map data new))"
proof -
  let ?u = "client_to_udp_server_step cli_reader srv_writer q" and ?g = "client_to_grpc_step cli_reader net_sender q"
  note sim1 = sim_client_to_udp_server_step [OF tcp(1,2), of q] and sim2 = sim_client_to_grpc_step [OF grpc(1,2), of q]
  have start: "same_packets (view1 s1) (view2 s2) (view1 s1) (view2 s2)"
    using tcp(4) grpc(4) client by (simp add: same_packets_def)
  have passes: "r1 = r2 \<and> (\<exists>new. msgs (chan (view2 t2)) = msgs (chan (view2 s2)) @ new \<and>
      outp (srv (view1 t1)) = outp (srv (view1 s1)) @ concat (map data new))"
    if "steps k (client_to_udp_server_step R1 W q) s1 = (r1, t1)" "steps k (client_to_grpc_step R2 C q) s2 = (r2, t2)" for k r1 t1 r2 t2
    using same_packets_steps [OF start, of k q] that
      simulates_run [OF simulates_steps [OF sim1, where n = k] tcp(3)]
      simulates_run [OF simulates_steps [OF sim2, where n = k] grpc(3)]
    unfolding same_packets_def by auto
  show ?thesis
  proof (intro conjI allI impI, erule (1) passes [THEN conjunct1], erule (1) passes [THEN conjunct2])
    show "case copy_client_reader_to_udp_server_writer R1 W q s1 of
       None \<Rightarrow> packet_copy_client_reader_to_server_grpc_writer R2 C q s2 = None
     | Some (r, t1) \<Rightarrow> \<exists>t2 new. packet_copy_client_reader_to_server_grpc_writer R2 C q s2 = Some (r, t2) \<and>
         msgs (chan (view2 t2)) = msgs (chan (view2 s2)) @ new \<and>
         outp (srv (view1 t1)) = outp (srv (view1 s1)) @ concat (map data new)"
    proof (cases "loop ?u (view1 s1)")
      case None
      then have "loop ?g (view2 s2) = None"
        using same_packets_back [OF start] by (metis not_Some_eq surj_pair)
      with None show ?thesis
        using simulates_loop_None [OF sim1 tcp(3)] simulates_loop_None [OF sim2 grpc(3)]
        by (simp add: copy_client_reader_to_udp_server_writer_def packet_copy_client_reader_to_server_grpc_writer_def)
    next
      case (Some rn)
      obtain r n where rn: "rn = (r, n)" by (cases rn)
      obtain m where m: "loop ?g (view2 s2) = Some (r, m)" "same_packets (view1 s1) (view2 s2) n m"
        using same_packets_loop [OF start Some [unfolded rn]] by blast
      obtain t1 where "loop (client_to_udp_server_step R1 W q) s1 = Some (r, t1)" "outp (srv (view1 t1)) = outp (srv n)"
        using simulates_loop [OF sim1 tcp(3) Some [unfolded rn]] by blast
      moreover obtain t2 where "loop (client_to_grpc_step R2 C q) s2 = Some (r, t2)" "msgs (chan (view2 t2)) = msgs (chan m)"
        using simulates_loop [OF sim2 grpc(3) m(1)] by blast
      ultimately show ?thesis
        using m(2) by (auto simp: copy_client_reader_to_udp_server_writer_def
            packet_copy_client_reader_to_server_grpc_writer_def same_packets_def)
    qed
  qed
qed

theorem grpc_packet_uplink_witness:
  "\<exists>r t1 t2 new. copy_client_reader_to_udp_server_writer cli_reader srv_writer sample_udp_request
       (idle_net (broken_peer [1, 2, 3]) :: Hunk net) = Some (r, t1) \<and>
     packet_copy_client_reader_to_server_grpc_writer cli_reader net_sender sample_udp_request
       (idle_net (broken_peer [1, 2, 3])) = Some (r, t2) \<and>
     msgs (chan t2) = new \<and> outp (srv t1) = concat (map data new)"
proof -
  let ?n = "idle_net (broken_peer [1, 2, 3]) :: Hunk net"
  obtain chunks t1 where t1: "loop (client_to_udp_server_step cli_reader srv_writer sample_udp_request) ?n =
      Some (Err (Error ConnectionReset ''reset''), t1)"
    using uplink_loop [of ?n "Error ConnectionReset ''reset''" sample_udp_request] by auto
  from grpc_packet_uplink [OF net_cli.chunk_reader_axioms net_srv.byte_writer_axioms TrueI _
      net_cli.chunk_reader_axioms net_chan.msg_sender_axioms TrueI,
      where ?s1.0 = ?n and ?s2.0 = ?n and q = sample_udp_request]
  show ?thesis
    using t1 by (auto simp: copy_client_reader_to_udp_server_writer_def)
qed

end
