(* ===== verification/Tcp_Handler.thy ===== *)
theory Tcp_Handler
  imports Tcp_Acceptor Packet
begin

text \<open>
  The TCP handler of \<^verbatim>\<open>src/proxy/tcp/handler.rs\<close>: how it is made from the configuration, and how
  it serves an accepted request in each of the four outbound modes. The operations of
  \<^verbatim>\<open>tokio\<close>, \<^verbatim>\<open>tokio_rustls\<close>, \<^verbatim>\<open>tonic\<close> and \<^verbatim>\<open>quinn\<close> that it calls are
  arguments; which of two concurrent tasks moves next is a schedule, so that a statement for every
  schedule covers every interleaving of the steps of the two tasks.
\<close>

section \<open>The handler\<close>

record TcpHandler =
  h_mode :: OutboundMode
  h_protocol :: SupportedProtocols
  h_destination :: "SocketAddr option"
  h_tls :: "(ClientConfig \<times> string) option"
  h_secret :: bytes

text \<open>
  \<open>server_name\<close> is \<^verbatim>\<open>ServerName::try_from\<close>, which refuses what is not a DNS name with an error
  that \<^verbatim>\<open>expect\<close> appends to its message.
\<close>

definition TcpHandler_init ::
  "bytes list \<Rightarrow> (string \<Rightarrow> string + string) \<Rightarrow> (bytes \<Rightarrow> bytes) \<Rightarrow> OutboundConfig \<Rightarrow>
   TcpHandler option \<Rightarrow> (TcpHandler \<times> TcpHandler option) outcome" where
  "TcpHandler_init roots server_name sha224 outb cell =
     bind_outcome (case out_tls outb of
                     Some cfg \<Rightarrow>
                       let client_config = make_client_config roots cfg in
                       (case server_name (host_name cfg) of
                          Inr name \<Rightarrow> Ok (Some (client_config, name))
                        | Inl e \<Rightarrow> Panic (''Failed to parse host name: '' @ e))
                   | None \<Rightarrow> Ok None) (\<lambda>tls.
     bind_outcome (case (out_address outb, out_port outb) of
                     (Some addr, Some p) \<Rightarrow>
                       (case parse_SocketAddr (addr @ '':'' @ dec (unat p)) of
                          Some s \<Rightarrow> Ok (Some s)
                        | None \<Rightarrow> Panic ''Failed to parse destination address: invalid socket address syntax'')
                   | (Some _, None) \<Rightarrow> Panic ''Missing port while address is present''
                   | (None, Some _) \<Rightarrow> Panic ''Missing address while address is present''
                   | (None, None) \<Rightarrow> Ok None) (\<lambda>destination.
     let secret = secret_of sha224 (out_protocol outb) (out_secret outb) in
     Ok (get_or_init \<lparr>h_mode = out_mode outb, h_protocol = out_protocol outb, h_destination = destination,
                      h_tls = tls, h_secret = secret\<rparr> cell)))"

section \<open>The operations a handler calls\<close>

text \<open>
  \<open>connect\<close> is \<^verbatim>\<open>TcpStream::connect\<close>, \<open>tls_connect\<close> is \<^verbatim>\<open>TlsConnector::connect\<close>;
  \<open>out_reader\<close> and \<open>out_writer\<close> are the halves of the outbound stream, plain or over TLS.
  \<open>udp_bind\<close> is \<^verbatim>\<open>UdpSocket::bind\<close> and \<open>udp_sock\<close> the socket it binds to an address.
  \<open>copy_buf\<close> is the size of the buffer of \<^verbatim>\<open>tokio::io::copy\<close>. \<open>grpc_next\<close> is
  \<^verbatim>\<open>next\<close> of the response stream of \<^verbatim>\<open>tun\<close>, \<open>grpc_poll_next\<close> its
  \<^verbatim>\<open>poll_next\<close>, and \<open>hunk_ext\<close> is \<^verbatim>\<open>AsyncReadExt\<close> on a \<^verbatim>\<open>GrpcDataReaderStream\<close>.
\<close>

record 's outbound_io =
  connect :: "SocketAddr \<Rightarrow> ('s, unit) async"
  tls_connect :: "ClientConfig \<Rightarrow> string \<Rightarrow> ('s, unit) async"
  out_reader :: "handle \<Rightarrow> 's reader"
  out_writer :: "handle \<Rightarrow> 's writer"
  udp_bind :: "string \<Rightarrow> ('s, unit) async"
  udp_sock :: "string \<Rightarrow> 's udp_socket"
  buf_reader :: "'s reader \<Rightarrow> 's reader"
  buf_writer :: "'s writer \<Rightarrow> 's writer"
  to_socket_addrs :: resolver
  copy_buf :: nat
  schedule :: "bool list"
  grpc_connect :: "string \<Rightarrow> ('s, unit) async"
  grpc_tx :: "('s, Hunk) sender"
  grpc_tun :: "('s, unit) async"
  grpc_next :: "('s, (Status + Hunk) option) async"
  grpc_poll_next :: "'s hunk_stream"
  hunk_ext :: "'s GrpcDataReaderStream poll_reader \<Rightarrow> 's GrpcDataReaderStream reader"
  quic_client :: "('s, unit) async"
  quic_connect :: "ClientConfig \<Rightarrow> SocketAddr \<Rightarrow> string \<Rightarrow> ('s, unit) async"
  quic_open_bi :: "('s, unit) async"
  quic_reader :: "'s reader"
  quic_writer :: "'s writer"

section \<open>Serving a request\<close>

definition handle_direct_stream ::
  "'s inbound_io \<Rightarrow> 's outbound_io \<Rightarrow> InboundRequest \<Rightarrow> handle \<Rightarrow> ('s, unit) async" where
  "handle_direct_stream inb io request inbound_stream =
     (case proxy_protocol request of
        TROJAN \<Rightarrow>
          (case transport_protocol request of
             TCP \<Rightarrow>
               await (eval_outcome (into_SocketAddr (to_socket_addrs io) (addr_port request))) (\<lambda>addr.
               await (map_err (\<lambda>e. Error ConnectionRefused
                          (''failed to connect to tcp '' @ SocketAddr_fmt addr @ '': '' @ message e))
                        (connect io addr)) (\<lambda>_.
               select_run (schedule io)
                 (copy_step (copy_buf io) (stream_reader inb inbound_stream) (out_writer io (Plain ())))
                 (copy_step (copy_buf io) (out_reader io (Plain ())) (stream_writer inb inbound_stream))))
           | UDP \<Rightarrow>
               await (udp_bind io ''0.0.0.0:0'') (\<lambda>_.
               let socket = udp_sock io ''0.0.0.0:0'' in
               select_run (schedule io)
                 (body_task (client_to_udp_step (to_socket_addrs io)
                    (buf_reader io (stream_reader inb inbound_stream)) socket))
                 (body_task (udp_to_client_step socket
                    (buf_writer io (stream_writer inb inbound_stream)) (addr_port request)))))
      | SOCKS \<Rightarrow> fail (Error Unsupported ''Proxy request can't have socks as proxy protocol'')
      | DIRECT \<Rightarrow> fail (Error Unsupported ''Proxy request can't have direct as proxy protocol''))"

definition handle_tcp_stream ::
  "'s inbound_io \<Rightarrow> 's outbound_io \<Rightarrow> TcpHandler \<Rightarrow> InboundRequest \<Rightarrow> handle \<Rightarrow> ('s, unit) async" where
  "handle_tcp_stream inb io self request inbound_stream =
     await (case h_destination self of
              Some dst \<Rightarrow> connect io dst
            | None \<Rightarrow> fail (Error NotConnected ''missing address of the remote server'')) (\<lambda>_.
     await (case h_tls self of
              Some (client_config, domain) \<Rightarrow>
                await (tls_connect io client_config domain) (\<lambda>_. return (RustlsClient ()))
            | None \<Rightarrow> return (Plain ())) (\<lambda>outbound_stream.
     case h_protocol self of
       TROJAN \<Rightarrow>
         if length (h_secret self) \<noteq> HEX_SIZE
         then fail (Error InvalidInput (''Hex in trojan protocol is not '' @ dec HEX_SIZE @ '' bytes''))
         else
         await (handshake (out_writer io outbound_stream) request (h_secret self)) (\<lambda>_.
         case transport_protocol request of
           TCP \<Rightarrow>
             select_run (schedule io)
               (copy_step (copy_buf io) (stream_reader inb inbound_stream) (out_writer io outbound_stream))
               (copy_step (copy_buf io) (out_reader io outbound_stream) (stream_writer inb inbound_stream))
         | UDP \<Rightarrow>
             select_run (schedule io)
               (body_task (client_to_udp_server_step (stream_reader inb inbound_stream)
                  (buf_writer io (out_writer io outbound_stream)) request))
               (body_task (udp_server_to_client_step (to_socket_addrs io)
                  (buf_reader io (out_reader io outbound_stream)) (stream_writer inb inbound_stream))))
     | SOCKS \<Rightarrow> fail (Error Unsupported ''Unsupported protocol'')
     | DIRECT \<Rightarrow> fail (Error Unsupported ''Unsupported protocol'')))"

text \<open>The two loops of the gRPC mode; the second ends when the response stream does.\<close>

definition client_to_grpc_writer_step :: "'s reader \<Rightarrow> ('s, Hunk) sender \<Rightarrow> ('s, unit) async" where
  "client_to_grpc_writer_step client_reader server_writer =
     await (read client_reader 4096) (\<lambda>read_buf.
     map_err (\<lambda>e. Error ConnectionReset (''Failed to send back server data, '' @ message e))
       (send server_writer \<lparr>data = read_buf\<rparr>))"

definition copy_client_reader_to_server_grpc_writer ::
  "'s reader \<Rightarrow> ('s, Hunk) sender \<Rightarrow> 's \<Rightarrow> (unit outcome \<times> 's) option" where
  "copy_client_reader_to_server_grpc_writer client_reader server_writer =
     loop (client_to_grpc_writer_step client_reader server_writer)"

definition copy_server_grpc_reader_to_client_writer ::
  "('s, (Status + Hunk) option) async \<Rightarrow> 's writer \<Rightarrow> 's task" where
  "copy_server_grpc_reader_to_client_writer server_next client_writer =
     await server_next (\<lambda>item.
     case item of
       Some (Inr hunk) \<Rightarrow> await (write_all client_writer (data hunk)) (\<lambda>_. return True)
     | Some (Inl _) \<Rightarrow> fail (Error ConnectionReset ''Received error from GRPC server'')
     | None \<Rightarrow> return False)"

definition handle_grpc_stream ::
  "'s inbound_io \<Rightarrow> 's outbound_io \<Rightarrow> TcpHandler \<Rightarrow> InboundRequest \<Rightarrow> handle \<Rightarrow> ('s, unit) async" where
  "handle_grpc_stream inb io self request inbound_stream =
     (case h_destination self of
        None \<Rightarrow> fail (Error Unsupported ''Destination can not be null'')
      | Some dst \<Rightarrow>
          let endpoint = (case h_tls self of
                            None \<Rightarrow> ''http://'' @ SocketAddr_fmt dst
                          | Some _ \<Rightarrow> ''https://'' @ SocketAddr_fmt dst) in
          await (map_err (\<lambda>_. Error ConnectionRefused ''Failed to connect to remote GRPC server'')
                   (grpc_connect io endpoint)) (\<lambda>_.
          let (res, cursor) = handshake cursor_writer request (h_secret self) (Cursor_new (replicate 512 0)) in
          await (eval_outcome res) (\<lambda>_.
          await (map_err (\<lambda>_. Error ConnectionRefused ''Failed to send trojan request'')
                   (send (grpc_tx io) \<lparr>data = take (cpos cursor) (cvec cursor)\<rparr>)) (\<lambda>_.
          await (map_err (\<lambda>_. Error ConnectionRefused ''failed to write request data'') (grpc_tun io)) (\<lambda>_.
          case command request of
            Connect \<Rightarrow>
              select_run (schedule io)
                (body_task (client_to_grpc_writer_step (stream_reader inb inbound_stream) (grpc_tx io)))
                (copy_server_grpc_reader_to_client_writer (grpc_next io) (stream_writer inb inbound_stream))
          | Udp \<Rightarrow>
              over_hunks
                (select_run (schedule io)
                  (beside_hunks (body_task (client_to_grpc_step (stream_reader inb inbound_stream) (grpc_tx io) request)))
                  (body_task (grpc_to_client_step (to_socket_addrs io) (hunk_ext io (grpc_poll (grpc_poll_next io)))
                     (lift_writer reader (\<lambda>r. reader_update (\<lambda>_. r)) (stream_writer inb inbound_stream)))))
          | Bind \<Rightarrow> fail (Error Unsupported ''Bind command is not supported in Trojan protocol''))))))"

text \<open>
  The QUIC client connects to a fixed address under a fixed name and verifies no certificate; every
  failure before the handshake is a panic.
\<close>

definition handle_quic_stream ::
  "'s inbound_io \<Rightarrow> 's outbound_io \<Rightarrow> TcpHandler \<Rightarrow> InboundRequest \<Rightarrow> handle \<Rightarrow> ('s, unit) async" where
  "handle_quic_stream inb io self request inbound_stream =
     (let client_crypto = \<lparr>root_store = [], verifier = NoCertificateVerification\<rparr> in
      await (unwrap (quic_client io)) (\<lambda>_.
      await (eval_outcome (case parse_SocketAddr ''127.0.0.1:8081'' of
                             Some a \<Rightarrow> Ok a
                           | None \<Rightarrow> Panic ''invalid socket address syntax'')) (\<lambda>remote.
      await (unwrap (quic_connect io client_crypto remote ''example.com'')) (\<lambda>_.
      await (unwrap (quic_open_bi io)) (\<lambda>_.
      await (handshake (quic_writer io) request (h_secret self)) (\<lambda>_.
      select_spawned (schedule io)
        (copy_step (copy_buf io) (stream_reader inb inbound_stream) (quic_writer io))
        (copy_step (copy_buf io) (quic_reader io) (stream_writer inb inbound_stream))))))))"

definition dispatch ::
  "'s inbound_io \<Rightarrow> 's outbound_io \<Rightarrow> TcpHandler \<Rightarrow> handle \<Rightarrow> InboundRequest \<Rightarrow> ('s, unit) async" where
  "dispatch inb io self inbound_stream request =
     (case h_mode self of
        OutboundDIRECT \<Rightarrow> handle_direct_stream inb io request inbound_stream
      | OutboundTCP \<Rightarrow> handle_tcp_stream inb io self request inbound_stream
      | OutboundQUIC \<Rightarrow> handle_quic_stream inb io self request inbound_stream
      | OutboundGRPC \<Rightarrow> handle_grpc_stream inb io self request inbound_stream)"

definition quic_remote :: SocketAddr where
  "quic_remote = SocketAddr (V4 0x7F000001) 8081"

lemma await_eval_Ok: "await (eval_outcome (Ok a)) k = k a"
  by (rule ext) (simp add: await_def)

lemma parse_quic_remote: "parse_SocketAddr ''127.0.0.1:8081'' = Some quic_remote"
proof -
  have "ipv4_fmt 0x7F000001 = ''127.0.0.1''"
    by code_simp
  moreover have "dec (unat (8081 :: u16)) = ''8081''"
    by (simp add: radix_str.simps digit_char_def) code_simp
  ultimately show ?thesis
    using parse_ipv4_socket [of "0x7F000001" 8081] by (simp add: quic_remote_def)
qed

section \<open>The network a handler works on\<close>

text \<open>
  \<open>route\<close> says what a connection attempt finds: an error, or a fresh connection to the host at
  that address. A check that may fail leaves the network alone.
\<close>

definition net_connect :: "(SocketAddr \<Rightarrow> io_error + conn) \<Rightarrow> SocketAddr \<Rightarrow> ('m net, unit) async" where
  "net_connect route a n =
     (case route a of
        Inl e \<Rightarrow> (Err e, n\<lparr>dialed := dialed n @ [a]\<rparr>)
      | Inr c \<Rightarrow> (Ok (), n\<lparr>dialed := dialed n @ [a], srv := c\<rparr>))"

definition net_check :: "io_error option \<Rightarrow> ('m net, unit) async" where
  "net_check c n = (case c of None \<Rightarrow> (Ok (), n) | Some e \<Rightarrow> (Err e, n))"

lemma net_check_None: "net_check None = return ()"
  by (rule ext) (simp add: net_check_def)

definition net_next :: "('m net, (Status + Hunk) option) async" where
  "net_next n =
     (case inbox n of
        d # ds \<Rightarrow> (Ok (Some (Inr \<lparr>data = d\<rparr>)), n\<lparr>inbox := ds\<rparr>)
      | [] \<Rightarrow> (case inend n of Eof \<Rightarrow> Ok None | Broken e \<Rightarrow> Ok (Some (Inl (OtherStatus (message e)))) | Open \<Rightarrow> Hang, n))"

text \<open>
  The contract of the operations: they act on the two connections of the network, whichever of the
  streams is in use, and a connection attempt finds what \<open>route\<close> says.
\<close>

locale relay_io =
  fixes inb :: "'s inbound_io" and io :: "'s outbound_io" and view :: "'s \<Rightarrow> Hunk net"
    and route :: "SocketAddr \<Rightarrow> io_error + conn" and tls_check :: "ClientConfig \<Rightarrow> string \<Rightarrow> io_error option"
  assumes client: "\<And>h. byte_stream (stream_reader inb h) cli_reader (stream_writer inb h) cli_writer
      (\<lambda>_. True) view (\<lambda>n. n)"
    and server: "\<And>h. byte_stream (out_reader io h) srv_reader (out_writer io h) srv_writer (\<lambda>_. True) view (\<lambda>n. n)"
    and sim_connect [sim_intros]: "\<And>a. tracks view (connect io a) (net_connect route a)"
    and sim_tls [sim_intros]: "\<And>cfg name. tracks view (tls_connect io cfg name) (net_check (tls_check cfg name))"
    and copy_buf_pos: "0 < copy_buf io"
begin

abbreviation copy_both :: "(Hunk net, unit) async" where
  "copy_both \<equiv> select_run (schedule io) (copy_step (copy_buf io) cli_reader srv_writer)
     (copy_step (copy_buf io) srv_reader cli_writer)"

lemma stream_parts:
  "chunk_reader (stream_reader inb h) cli_reader (\<lambda>_. True) view (\<lambda>n. n)"
  "byte_writer (stream_writer inb h) cli_writer (\<lambda>_. True) view (\<lambda>n. n)"
  "chunk_reader (out_reader io h) srv_reader (\<lambda>_. True) view (\<lambda>n. n)"
  "byte_writer (out_writer io h) srv_writer (\<lambda>_. True) view (\<lambda>n. n)"
  using client [of h] server [of h] unfolding byte_stream_def by simp_all

lemma sim_copy_both [sim_intros]:
  "tracks view (select_run (schedule io) (copy_step (copy_buf io) (stream_reader inb h) (out_writer io h'))
     (copy_step (copy_buf io) (out_reader io h') (stream_writer inb h))) copy_both"
  by (intro sim_intros simulates_copy_step stream_parts)

lemma sim_direct:
  assumes "proxy_protocol q = TROJAN" and "transport_protocol q = TCP"
    and "into_SocketAddr (to_socket_addrs io) (addr_port q) = Ok a"
  shows "tracks view (handle_direct_stream inb io q h)
    (await (map_err (\<lambda>e. Error ConnectionRefused
       (''failed to connect to tcp '' @ SocketAddr_fmt a @ '': '' @ message e)) (net_connect route a)) (\<lambda>_. copy_both))"
proof -
  have "handle_direct_stream inb io q h =
      await (map_err (\<lambda>e. Error ConnectionRefused
         (''failed to connect to tcp '' @ SocketAddr_fmt a @ '': '' @ message e)) (connect io a)) (\<lambda>_.
        select_run (schedule io) (copy_step (copy_buf io) (stream_reader inb h) (out_writer io (Plain ())))
          (copy_step (copy_buf io) (out_reader io (Plain ())) (stream_writer inb h)))"
    using assms by (auto simp: handle_direct_stream_def await_def)
  then show ?thesis
    by (simp only:) (intro sim_intros)
qed

lemma sim_tcp:
  assumes "h_protocol self = TROJAN" and "transport_protocol q = TCP" and "h_destination self = Some a"
    and "length (h_secret self) = HEX_SIZE"
  shows "tracks view (handle_tcp_stream inb io self q h)
    (await (net_connect route a) (\<lambda>_.
     await (case h_tls self of None \<Rightarrow> return () | Some (cfg, name) \<Rightarrow> net_check (tls_check cfg name)) (\<lambda>_.
     await (handshake srv_writer q (h_secret self)) (\<lambda>_. copy_both))))"
proof (cases "h_tls self")
  case None
  then have "handle_tcp_stream inb io self q h =
      await (connect io a) (\<lambda>_. await (return ()) (\<lambda>_.
      await (handshake (out_writer io (Plain ())) q (h_secret self)) (\<lambda>_.
        select_run (schedule io) (copy_step (copy_buf io) (stream_reader inb h) (out_writer io (Plain ())))
          (copy_step (copy_buf io) (out_reader io (Plain ())) (stream_writer inb h)))))"
    using assms by (auto simp: handle_tcp_stream_def await_def fun_eq_iff split: prod.split outcome.split)
  with None show ?thesis
    by (simp only: option.case) (intro sim_intros byte_writer.sim_handshake [OF stream_parts(4)])
next
  case (Some ct)
  obtain cfg name where ct: "ct = (cfg, name)" by (cases ct)
  with Some have "handle_tcp_stream inb io self q h =
      await (connect io a) (\<lambda>_. await (tls_connect io cfg name) (\<lambda>_.
      await (handshake (out_writer io (RustlsClient ())) q (h_secret self)) (\<lambda>_.
        select_run (schedule io) (copy_step (copy_buf io) (stream_reader inb h) (out_writer io (RustlsClient ())))
          (copy_step (copy_buf io) (out_reader io (RustlsClient ())) (stream_writer inb h)))))"
    using assms by (auto simp: handle_tcp_stream_def await_def fun_eq_iff split: prod.split outcome.split)
  with Some ct show ?thesis
    by (simp only: option.case prod.case) (intro sim_intros byte_writer.sim_handshake [OF stream_parts(4)])
qed

lemma direct_run:
  assumes "proxy_protocol q = TROJAN" and "transport_protocol q = TCP"
    and "into_SocketAddr (to_socket_addrs io) (addr_port q) = Ok a" and "route a = Inr c"
    and "handle_direct_stream inb io q h s = (r, s')"
  shows "copy_both ((view s)\<lparr>dialed := dialed (view s) @ [a], srv := c\<rparr>) = (r, view s')"
  using tracksD [OF sim_direct [OF assms(1-3)] assms(5)] assms(4)
  by (simp add: await_def map_err_def net_connect_def)

lemmas copy_both_run = relay_both [OF _ copy_buf_pos]

lemma tcp_run:
  assumes "h_protocol self = TROJAN" and "transport_protocol q = TCP" and "h_destination self = Some a"
    and "length (h_secret self) = HEX_SIZE" and "route a = Inr c"
    and "\<And>cfg name. h_tls self = Some (cfg, name) \<Longrightarrow> tls_check cfg name = None"
    and "handle_tcp_stream inb io self q h s = (r, s')"
  shows "\<exists>rh d. handshake conn_writer q (h_secret self) c = (rh, d) \<and>
    (let n = (view s)\<lparr>dialed := dialed (view s) @ [a], srv := d\<rparr> in
     if is_Ok rh then copy_both n = (r, view s') else r = rh \<and> view s' = n)"
proof -
  obtain rh d where hs: "handshake conn_writer q (h_secret self) c = (rh, d)"
    by (cases "handshake conn_writer q (h_secret self) c")
  have tls: "(case h_tls self of None \<Rightarrow> return () | Some (cfg, name) \<Rightarrow> net_check (tls_check cfg name)) n = (Ok (), n)"
    for n :: "Hunk net"
    using assms(6) by (auto simp: net_check_def split: option.split)
  let ?n = "(view s)\<lparr>dialed := dialed (view s) @ [a], srv := c\<rparr>"
  have "await (handshake srv_writer q (h_secret self)) (\<lambda>_. copy_both) ?n = (r, view s')"
    using tracksD [OF sim_tcp [OF assms(1-4)] assms(7)] assms(5) tls
    by (simp add: await_def net_connect_def)
  then have "(if is_Ok rh then copy_both (?n\<lparr>srv := d\<rparr>) = (r, view s') else r = rh \<and> view s' = ?n\<lparr>srv := d\<rparr>)"
    using hs by (cases rh) (auto simp: srv.lift_handshake await_def lift_async_def)
  with hs show ?thesis by (auto simp: Let_def)
qed

text \<open>The account of TCP mode, from the handshake to the end of the copying.\<close>

lemma tcp_relayed:
  assumes "h_protocol self = TROJAN" and "transport_protocol q = TCP"
    and "h_destination self = Some a" and "length (h_secret self) = HEX_SIZE" and "route a = Inr c"
    and "\<And>cfg name. h_tls self = Some (cfg, name) \<Longrightarrow> tls_check cfg name = None"
    and "handle_tcp_stream inb io self q h s = (r, s')"
  shows "(\<forall>p. r \<noteq> Panic p) \<and> dialed (view s') = dialed (view s) @ [a] \<and>
    (\<exists>z. outp (srv (view s')) = outp c @ z \<and> prefix z (handshake_bytes q (h_secret self) @ inp (cli (view s))) \<and>
       (oend c = Accepting \<longrightarrow> prefix (handshake_bytes q (h_secret self)) z)) \<and>
    (\<exists>y. outp (cli (view s')) = outp (cli (view s)) @ y \<and> prefix y (inp c))"
proof -
  let ?hs = "handshake_bytes q (h_secret self)"
  obtain rh d where d: "handshake conn_writer q (h_secret self) c = (rh, d)"
    and run: "if is_Ok rh then select_run (schedule io) (copy_step (copy_buf io) cli_reader srv_writer)
        (copy_step (copy_buf io) srv_reader cli_writer) ((view s)\<lparr>dialed := dialed (view s) @ [a], srv := d\<rparr>) = (r, view s')
      else r = rh \<and> view s' = (view s)\<lparr>dialed := dialed (view s) @ [a], srv := d\<rparr>"
    using tcp_run [OF assms] by (auto simp: Let_def)
  note w = writesD [OF writes_handshake d]
  show ?thesis
  proof (cases "is_Ok rh")
    case True
    have "outp d = outp c @ ?hs"
      using w(1) w(6) [OF True, of "[]"] by simp
    with copy_both_run(1-4) [where r = r and n' = "view s'"] run True w(2) show ?thesis
      by fastforce
  next
    case False
    have "\<forall>p. rh \<noteq> Panic p"
      using handshake_no_panic [OF d] by blast
    with run False w(1,5) room_prefix [of "oend c" ?hs] show ?thesis
      by auto
  qed
qed

text \<open>
  Complete delivery, when the client closes its side after what it had to send, the other side
  stays open, and the schedule gives the upward direction enough steps.
\<close>

lemma copy_both_delivers:
  assumes "iend (cli n) = Eof" and "iend (srv n) = Open" and "oend (cli n) = Accepting" and "oend (srv n) = Accepting"
    and "length (inp (cli n)) < count_list (schedule io) True" and "copy_both n = (r, n')"
  shows "r = Ok () \<and> outp (srv n') = outp (srv n) @ inp (cli n)"
  using relay_delivers [OF copy_buf_pos assms(1-5)] assms(6) by auto

lemma direct_delivers:
  assumes "proxy_protocol q = TROJAN" and "transport_protocol q = TCP"
    and "into_SocketAddr (to_socket_addrs io) (addr_port q) = Ok a" and "route a = Inr c"
    and "iend (cli (view s)) = Eof" and "oend (cli (view s)) = Accepting" and "iend c = Open" and "oend c = Accepting"
    and "length (inp (cli (view s))) < count_list (schedule io) True" and "handle_direct_stream inb io q h s = (r, s')"
  shows "r = Ok () \<and> outp (srv (view s')) = outp c @ inp (cli (view s))"
  using copy_both_delivers [OF _ _ _ _ _ direct_run [OF assms(1-4,10)]] assms(5-9) by simp

lemma tcp_delivers:
  assumes "h_protocol self = TROJAN" and "transport_protocol q = TCP"
    and "h_destination self = Some a" and "length (h_secret self) = HEX_SIZE" and "route a = Inr c"
    and tls: "\<And>cfg name. h_tls self = Some (cfg, name) \<Longrightarrow> tls_check cfg name = None"
    and "iend (cli (view s)) = Eof" and "oend (cli (view s)) = Accepting" and "iend c = Open" and "oend c = Accepting"
    and "length (inp (cli (view s))) < count_list (schedule io) True" and "handle_tcp_stream inb io self q h s = (r, s')"
  shows "r = Ok () \<and> outp (srv (view s')) = outp c @ handshake_bytes q (h_secret self) @ inp (cli (view s))"
proof -
  let ?d = "c\<lparr>outp := outp c @ handshake_bytes q (h_secret self)\<rparr>"
  have "handshake conn_writer q (h_secret self) c = (Ok (), ?d)"
    by (rule writes_Ok [OF writes_handshake assms(10)])
  then have "copy_both ((view s)\<lparr>dialed := dialed (view s) @ [a], srv := ?d\<rparr>) = (r, view s')"
    using tcp_run [OF assms(1-5) tls assms(12)] by (auto simp: Let_def)
  from copy_both_delivers [OF _ _ _ _ _ this] assms(7-11) show ?thesis by simp
qed

end

text \<open>The QUIC endpoint: dialling it finds what \<open>route\<close> says, and its stream is that connection.\<close>

locale quic_io = relay_io +
  fixes client_check open_check :: "io_error option"
  assumes sim_quic_client [sim_intros]: "tracks view (quic_client io) (net_check client_check)"
    and sim_quic_connect [sim_intros]: "\<And>cfg a name. tracks view (quic_connect io cfg a name) (net_connect route a)"
    and sim_quic_open [sim_intros]: "tracks view (quic_open_bi io) (net_check open_check)"
    and quic_stream: "byte_stream (quic_reader io) srv_reader (quic_writer io) srv_writer (\<lambda>_. True) view (\<lambda>n. n)"
begin

lemma quic_parts:
  "chunk_reader (quic_reader io) srv_reader (\<lambda>_. True) view (\<lambda>n. n)"
  "byte_writer (quic_writer io) srv_writer (\<lambda>_. True) view (\<lambda>n. n)"
  using quic_stream unfolding byte_stream_def by simp_all

abbreviation copy_spawned :: "(Hunk net, unit) async" where
  "copy_spawned \<equiv> select_spawned (schedule io) (copy_step (copy_buf io) cli_reader srv_writer)
     (copy_step (copy_buf io) srv_reader cli_writer)"

lemma sim_quic:
  "tracks view (handle_quic_stream inb io self q h)
     (await (unwrap (net_check client_check)) (\<lambda>_.
      await (unwrap (net_connect route quic_remote)) (\<lambda>_.
      await (unwrap (net_check open_check)) (\<lambda>_.
      await (handshake srv_writer q (h_secret self)) (\<lambda>_. copy_spawned)))))"
proof -
  have "handle_quic_stream inb io self q h =
     await (unwrap (quic_client io)) (\<lambda>_.
     await (unwrap (quic_connect io \<lparr>root_store = [], verifier = NoCertificateVerification\<rparr> quic_remote ''example.com'')) (\<lambda>_.
     await (unwrap (quic_open_bi io)) (\<lambda>_.
     await (handshake (quic_writer io) q (h_secret self)) (\<lambda>_.
     select_spawned (schedule io)
       (copy_step (copy_buf io) (stream_reader inb h) (quic_writer io))
       (copy_step (copy_buf io) (quic_reader io) (stream_writer inb h))))))"
    unfolding handle_quic_stream_def Let_def parse_quic_remote option.case await_eval_Ok ..
  then show ?thesis
    by (simp only:)
      (intro sim_intros simulates_copy_step stream_parts quic_parts byte_writer.sim_handshake [OF quic_parts(2)])
qed

lemma copy_spawned_run:
  assumes "copy_spawned n = (r, n')"
  shows "relaying n n' \<and> (r = Hang \<or> r = Ok ())"
  by (rule select_spawned_invariant [OF relaying_start assms]) (erule (1) relaying_up, erule (1) relaying_down)

end

section \<open>The abstract network as an instance\<close>

text \<open>
  The operations of the abstract network itself, with the buffer size that \<^verbatim>\<open>tokio::io::copy\<close>
  uses, and a TLS layer that adds nothing to the bytes.
\<close>

definition net_inbound :: "'m net inbound_io" where
  "net_inbound = \<lparr>stream_reader = (\<lambda>_. cli_reader), stream_writer = (\<lambda>_. cli_writer), tls_accept = (\<lambda>_. return ())\<rparr>"

definition net_outbound ::
  "(SocketAddr \<Rightarrow> io_error + conn) \<Rightarrow> (ClientConfig \<Rightarrow> string \<Rightarrow> io_error option) \<Rightarrow> resolver \<Rightarrow> bool list \<Rightarrow>
   Hunk net outbound_io" where
  "net_outbound route tls_check dns sched =
     \<lparr>connect = net_connect route, tls_connect = (\<lambda>cfg name. net_check (tls_check cfg name)),
      out_reader = (\<lambda>_. srv_reader), out_writer = (\<lambda>_. srv_writer),
      udp_bind = (\<lambda>_. return ()),
      udp_sock = (\<lambda>_. udp_v4 (Error OtherKind ''Address family not supported by protocol'') net_socket), buf_reader = (\<lambda>R. R), buf_writer = (\<lambda>W. W),
      to_socket_addrs = dns, copy_buf = 8192, schedule = sched,
      grpc_connect = (\<lambda>_. return ()), grpc_tx = net_sender, grpc_tun = return (), grpc_next = net_next,
      grpc_poll_next = (\<lambda>n. case net_next n of (r, n') \<Rightarrow> (Ready r, n')), hunk_ext = poll_ext,
      quic_client = return (), quic_connect = (\<lambda>_ a _. net_connect route a), quic_open_bi = return (),
      quic_reader = srv_reader, quic_writer = srv_writer\<rparr>"

interpretation net_relay: relay_io net_inbound "net_outbound route tls_check dns sched" "\<lambda>n. n" route tls_check
  by unfold_locales (simp_all add: net_inbound_def net_outbound_def simulates_refl)

interpretation net_quic: quic_io net_inbound "net_outbound route tls_check dns sched" "\<lambda>n. n" route tls_check None None
  by unfold_locales (simp_all add: net_outbound_def net_check_None simulates_refl)

interpretation net_in: inbound_streams net_inbound "\<lambda>_. True" "\<lambda>_. cli"
  by unfold_locales (simp_all add: net_inbound_def cli.simulates_lens)

section \<open>Samples\<close>

definition sample_route :: "SocketAddr \<Rightarrow> io_error + conn" where
  "sample_route _ = Inr (peer [9])"

definition sample_outbound :: "bool list \<Rightarrow> Hunk net outbound_io" where
  "sample_outbound sched = net_outbound sample_route (\<lambda>_ _. None) (\<lambda>_ _. Inr []) sched"

definition sample_handler :: TcpHandler where
  "sample_handler = \<lparr>h_mode = OutboundTCP, h_protocol = TROJAN, h_destination = Some (SocketAddr (V4 1) 443),
     h_tls = None, h_secret = sample_secret\<rparr>"

lemma sample_outbound_io:
  "relay_io net_inbound (sample_outbound sched) (\<lambda>n. n) sample_route (\<lambda>_ _. None)"
  unfolding sample_outbound_def by (rule net_relay.relay_io_axioms)

lemma sample_request_tcp [simp]:
  "transport_protocol (trojan_into_request sample_request) = TCP"
  "proxy_protocol (trojan_into_request sample_request) = TROJAN"
  "addr_port (trojan_into_request sample_request) = IpAddrPort_new (from_u32 0x7F000001) 80"
  by (simp_all add: trojan_into_request_eq InboundRequest_new_def sample_request_def TrojanRequest_new_def
      transport_of_def)

lemma into_SocketAddr_ip [simp]: "ip ap = IpAddr a \<Longrightarrow> into_SocketAddr dns ap = Ok (SocketAddr a (port ap))"
  by (simp add: into_SocketAddr_def)

lemma sample_dest [simp]:
  "into_SocketAddr dns (IpAddrPort_new (from_u32 w) p) = Ok (SocketAddr (V4 w) p)"
  by (simp add: IpAddrPort_new_def from_u32_def)

section \<open>Properties\<close>

text \<open>
  C11: Direct mode. For a Trojan TCP request the handler dials exactly the destination of the
  request, and under every schedule what reaches it is a prefix of what the client sent and what
  reaches the client is a prefix of what the destination sent; there is no panic and no error once
  the connection stands, and when the relay ends by itself between well-behaved peers one of the
  two directions has been delivered completely.
\<close>

theorem direct_relay:
  assumes "relay_io inb io view route tls_check" and "proxy_protocol q = TROJAN" and "transport_protocol q = TCP"
    and "into_SocketAddr (to_socket_addrs io) (addr_port q) = Ok a" and "route a = Inr c"
    and "handle_direct_stream inb io q h s = (r, s')"
  shows "(r = Ok () \<or> r = Hang) \<and> dialed (view s') = dialed (view s) @ [a] \<and>
    (\<exists>x. outp (srv (view s')) = outp c @ x \<and> prefix x (inp (cli (view s)))) \<and>
    (\<exists>y. outp (cli (view s')) = outp (cli (view s)) @ y \<and> prefix y (inp c)) \<and>
    (r = Ok () \<longrightarrow> oend (cli (view s)) = Accepting \<longrightarrow> oend c = Accepting \<longrightarrow>
       (\<forall>e. iend (cli (view s)) \<noteq> Broken e \<and> iend c \<noteq> Broken e) \<longrightarrow>
       outp (srv (view s')) = outp c @ inp (cli (view s)) \<or> outp (cli (view s')) = outp (cli (view s)) @ inp c)"
  using relay_io.copy_both_run [OF assms(1) relay_io.direct_run [OF assms]] by simp

theorem direct_relay_witness:
  "\<exists>r s'. handle_direct_stream net_inbound (sample_outbound [True, False, True]) (trojan_into_request sample_request)
     (Plain ()) (idle_net (peer [1, 2, 3])) = (r, s') \<and> dialed s' = [SocketAddr (V4 0x7F000001) 80] \<and>
     (\<exists>x. outp (srv s') = x \<and> prefix x [1, 2, 3])"
proof -
  let ?run = "handle_direct_stream net_inbound (sample_outbound [True, False, True]) (trojan_into_request sample_request)
     (Plain ()) (idle_net (peer [1, 2, 3]))"
  have "?run = (fst ?run, snd ?run)" by simp
  from direct_relay [OF sample_outbound_io _ _ _ _ this, of "SocketAddr (V4 0x7F000001) 80" "peer [9]"]
  show ?thesis
    by (intro exI [of _ "fst ?run"] exI [of _ "snd ?run"]) (simp add: sample_route_def)
qed

text \<open>
  C18: A direct relay ends after the client has closed its side: every schedule that gives the
  upward direction one step more than there are bytes to forward makes the handler return.
\<close>

theorem direct_relay_terminates:
  assumes "relay_io inb io view route tls_check" and "proxy_protocol q = TROJAN" and "transport_protocol q = TCP"
    and "into_SocketAddr (to_socket_addrs io) (addr_port q) = Ok a" and "route a = Inr c"
    and "iend (cli (view s)) \<noteq> Open" and "oend c = Accepting"
    and "length (inp (cli (view s))) < count_list (schedule io) True"
  shows "\<exists>s'. handle_direct_stream inb io q h s = (Ok (), s')"
proof -
  obtain r s' where run: "handle_direct_stream inb io q h s = (r, s')"
    by (cases "handle_direct_stream inb io q h s")
  let ?n = "(view s)\<lparr>dialed := dialed (view s) @ [a], srv := c\<rparr>"
  have "\<exists>n'. select_run (schedule io) (copy_step (copy_buf io) cli_reader srv_writer)
      (copy_step (copy_buf io) srv_reader cli_writer) ?n = (Ok (), n')"
    using assms(6-8) relay_io.copy_buf_pos [OF assms(1)] by (intro relay_terminates) simp_all
  with relay_io.direct_run [OF assms(1-5) run] run show ?thesis by auto
qed

theorem direct_relay_terminates_witness:
  "\<exists>s'. handle_direct_stream net_inbound (sample_outbound (replicate 4 True)) (trojan_into_request sample_request)
     (Plain ()) (idle_net (peer [1, 2, 3])) = (Ok (), s')"
  by (rule direct_relay_terminates [OF sample_outbound_io, where c = "peer [9]"])
    (simp_all add: sample_route_def sample_outbound_def net_outbound_def numeral_eq_Suc)

text \<open>
  C10: TCP mode. The handler dials the configured server, and under every schedule what that server
  receives is a prefix of the Trojan header of the request followed by the bytes of the client, in
  full as far as the header goes when the server accepts data; the client receives a prefix of what
  the server sends, and there is no panic.
\<close>

theorem tcp_relay:
  assumes "relay_io inb io view route tls_check" and "h_protocol self = TROJAN" and "transport_protocol q = TCP"
    and "h_destination self = Some a" and "length (h_secret self) = HEX_SIZE" and "route a = Inr c"
    and "\<And>cfg name. h_tls self = Some (cfg, name) \<Longrightarrow> tls_check cfg name = None"
    and "handle_tcp_stream inb io self q h s = (r, s')"
  shows "(\<forall>p. r \<noteq> Panic p) \<and> dialed (view s') = dialed (view s) @ [a] \<and>
    (\<exists>z. outp (srv (view s')) = outp c @ z \<and> prefix z (handshake_bytes q (h_secret self) @ inp (cli (view s))) \<and>
       (oend c = Accepting \<longrightarrow> prefix (handshake_bytes q (h_secret self)) z)) \<and>
    (\<exists>y. outp (cli (view s')) = outp (cli (view s)) @ y \<and> prefix y (inp c))"
  by (rule relay_io.tcp_relayed [OF assms])

theorem tcp_relay_witness:
  "\<exists>r s'. handle_tcp_stream net_inbound (sample_outbound [True, False]) sample_handler (trojan_into_request sample_request)
     (Plain ()) (idle_net (peer [1, 2, 3])) = (r, s') \<and> dialed s' = [SocketAddr (V4 1) 443] \<and>
     prefix (handshake_bytes (trojan_into_request sample_request) sample_secret) (outp (srv s'))"
proof -
  let ?run = "handle_tcp_stream net_inbound (sample_outbound [True, False]) sample_handler (trojan_into_request sample_request)
     (Plain ()) (idle_net (peer [1, 2, 3]))"
  have "?run = (fst ?run, snd ?run)" by simp
  from tcp_relay [OF sample_outbound_io _ _ _ _ _ _ this, of "SocketAddr (V4 1) 443" "peer [9]"]
  show ?thesis
    by (intro exI [of _ "fst ?run"] exI [of _ "snd ?run"]) (auto simp: sample_route_def sample_handler_def)
qed

text \<open>
  TCP mode never speaks to the server without a usable secret: when the secret does not have
  the length of the header field, or the protocol is not Trojan, the handler connects and then
  fails before a byte is written to the server or taken from the client.
\<close>

lemma tcp_secret_checked:
  assumes "relay_io inb io view route tls_check" and "h_destination self = Some a" and "route a = Inr c"
    and "\<And>cfg name. h_tls self = Some (cfg, name) \<Longrightarrow> tls_check cfg name = None"
    and "h_protocol self \<noteq> TROJAN \<or> length (h_secret self) \<noteq> HEX_SIZE"
  shows "\<exists>e s'. handle_tcp_stream inb io self q h s = (Err e, s') \<and> kind e \<in> {InvalidInput, Unsupported} \<and>
    view s' = (view s)\<lparr>dialed := dialed (view s) @ [a], srv := c\<rparr>"
proof -
  let ?n = "(view s)\<lparr>dialed := dialed (view s) @ [a], srv := c\<rparr>"
  have "net_connect route a (view s) = (Ok (), ?n)"
    using assms(3) by (simp add: net_connect_def)
  then obtain s1 where s1: "connect io a s = (Ok (), s1)" "view s1 = ?n"
    using tracks_run [OF relay_io.sim_connect [OF assms(1)]] by blast
  obtain out :: handle and s2 where s2: "(case h_tls self of
        Some (client_config, domain) \<Rightarrow> await (tls_connect io client_config domain) (\<lambda>_. return (RustlsClient ()))
      | None \<Rightarrow> return (Plain ())) s1 = (Ok out, s2)" "view s2 = ?n"
  proof (cases "h_tls self")
    case (Some ct)
    obtain cfg name where ct: "ct = (cfg, name)" by (cases ct)
    then have "net_check (tls_check cfg name) (view s1) = (Ok (), ?n)"
      using assms(4) Some s1(2) by (simp add: net_check_def)
    then obtain s2 where "tls_connect io cfg name s1 = (Ok (), s2)" "view s2 = ?n"
      using tracks_run [OF relay_io.sim_tls [OF assms(1)]] by blast
    with that Some ct show thesis by (simp add: await_def)
  qed (use that s1 in simp)
  have "\<exists>e. handle_tcp_stream inb io self q h s = (Err e, s2) \<and> kind e \<in> {InvalidInput, Unsupported}"
    using assms(2,5) s1(1) s2(1) by (cases "h_protocol self") (auto simp: handle_tcp_stream_def await_def)
  with s2(2) show ?thesis by blast
qed

lemma tcp_secret_checked_witness:
  "\<exists>e s'. handle_tcp_stream net_inbound (sample_outbound [True]) (sample_handler\<lparr>h_secret := []\<rparr>)
     (trojan_into_request sample_request) (Plain ()) (idle_net (peer [1, 2, 3])) = (Err e, s') \<and>
     outp (srv s') = [] \<and> inp (cli s') = [1, 2, 3]"
  using tcp_secret_checked [OF sample_outbound_io, where self = "sample_handler\<lparr>h_secret := []\<rparr>"
      and a = "SocketAddr (V4 1) 443" and c = "peer [9]" and s = "idle_net (peer [1, 2, 3])"
      and q = "trojan_into_request sample_request" and h = "Plain ()" and sched1 = "[True]"]
  by (auto simp: sample_handler_def sample_route_def HEX_SIZE_def)

text \<open>
  What \<^verbatim>\<open>dispatch\<close> refuses without any input or output: in direct mode every request that
  did not arrive over the Trojan protocol, so a SOCKS inbound cannot be combined with a direct
  outbound, and in TCP and gRPC mode every request when no server address is configured.
\<close>

lemma dispatch_refuses_untouched:
  "dispatch inb io (self\<lparr>h_mode := OutboundDIRECT\<rparr>) h (q\<lparr>proxy_protocol := SOCKS\<rparr>) s =
     (Err (Error Unsupported ''Proxy request can't have socks as proxy protocol''), s) \<and>
   dispatch inb io (self\<lparr>h_mode := OutboundDIRECT\<rparr>) h (q\<lparr>proxy_protocol := DIRECT\<rparr>) s =
     (Err (Error Unsupported ''Proxy request can't have direct as proxy protocol''), s) \<and>
   dispatch inb io (self\<lparr>h_mode := OutboundTCP, h_destination := None\<rparr>) h q s =
     (Err (Error NotConnected ''missing address of the remote server''), s) \<and>
   dispatch inb io (self\<lparr>h_mode := OutboundGRPC, h_destination := None\<rparr>) h q s =
     (Err (Error Unsupported ''Destination can not be null''), s)"
  by (simp add: dispatch_def handle_direct_stream_def handle_tcp_stream_def handle_grpc_stream_def await_def)

text \<open>
  C37: Making the handler. An IPv4 server address and a port in the configuration become the
  destination; the program panics at start for an address that begins like a host name, although
  the configuration calls the field an address, and when only one of the two is given.
\<close>

theorem handler_init_destination:
  assumes "to_digit 10 ch = None" and "ch \<noteq> CHR ''[''" and "out_tls outb = None"
  shows "(\<exists>self. TcpHandler_init roots server_name sha224 (outb\<lparr>out_address := Some (ipv4_fmt w), out_port := Some p\<rparr>) None =
       Ok (self, Some self) \<and> h_destination self = Some (SocketAddr (V4 w) p) \<and> h_mode self = out_mode outb \<and>
       h_secret self = secret_of sha224 (out_protocol outb) (out_secret outb)) \<and>
    TcpHandler_init roots server_name sha224 (outb\<lparr>out_address := Some (ch # cs), out_port := Some p\<rparr>) None =
      Panic ''Failed to parse destination address: invalid socket address syntax'' \<and>
    TcpHandler_init roots server_name sha224 (outb\<lparr>out_address := Some addr, out_port := None\<rparr>) None =
      Panic ''Missing port while address is present'' \<and>
    TcpHandler_init roots server_name sha224 (outb\<lparr>out_address := None, out_port := Some p\<rparr>) None =
      Panic ''Missing address while address is present''"
  using assms parse_ipv4_socket [of w p] parse_SocketAddr_name [OF assms(1,2)]
  by (simp add: TcpHandler_init_def Let_def)

theorem handler_init_destination_witness:
  "TcpHandler_init [] Inr sample_digest
     \<lparr>out_mode = OutboundTCP, out_protocol = TROJAN, out_address = Some ''example.com'', out_port = Some 443,
      out_secret = Some ''pw'', out_tls = None\<rparr> None =
   Panic ''Failed to parse destination address: invalid socket address syntax''"
  using handler_init_destination [where ch = "CHR ''e''" and cs = "''xample.com''" and p = 443 and roots = "[]"
      and server_name = Inr and ?sha224.0 = sample_digest and outb = "\<lparr>out_mode = OutboundTCP,
        out_protocol = TROJAN, out_address = None, out_port = None, out_secret = Some ''pw'', out_tls = None\<rparr>"]
  by (simp add: to_digit_def)

text \<open>
  C38: QUIC mode ignores the configured server: whatever the handler was configured with, it dials
  127.0.0.1:8081 and sends it the header of the request, secret included, followed by a prefix of
  the bytes of the client; an error before that is a panic.
\<close>

theorem quic_fixed_server:
  assumes "quic_io inb io view route tls_check None None" and "handle_quic_stream inb io self q h s = (r, s')"
  shows "dialed (view s') = dialed (view s) @ [SocketAddr (V4 0x7F000001) 8081] \<and>
    (case route (SocketAddr (V4 0x7F000001) 8081) of
       Inl e \<Rightarrow> r = Panic (message e) \<and> cli (view s') = cli (view s)
     | Inr c \<Rightarrow> \<exists>z. outp (srv (view s')) = outp c @ z \<and>
         prefix z (handshake_bytes q (h_secret self) @ inp (cli (view s))))"
proof -
  let ?n = "\<lambda>c. (view s)\<lparr>dialed := dialed (view s) @ [quic_remote], srv := c\<rparr>"
  note run = tracksD [OF quic_io.sim_quic [OF assms(1)] assms(2)]
  show ?thesis
  proof (cases "route quic_remote")
    case (Inl e)
    with run have "r = Panic (message e)" "view s' = (view s)\<lparr>dialed := dialed (view s) @ [quic_remote]\<rparr>"
      by (simp_all add: net_connect_def net_check_None unwrap_def await_def)
    with Inl show ?thesis
      by (simp add: quic_remote_def)
  next
    case (Inr c)
    obtain rh d where d: "handshake conn_writer q (h_secret self) c = (rh, d)"
      by (cases "handshake conn_writer q (h_secret self) c")
    note w = writesD [OF writes_handshake d]
    have fin: "await (handshake srv_writer q (h_secret self)) (\<lambda>_.
        select_spawned (schedule io) (copy_step (copy_buf io) cli_reader srv_writer)
          (copy_step (copy_buf io) srv_reader cli_writer)) (?n c) = (r, view s')"
      using run Inr by (simp add: net_connect_def net_check_None unwrap_def await_def)
    show ?thesis
    proof (cases "is_Ok rh")
      case True
      have "outp d = outp c @ handshake_bytes q (h_secret self)"
        using w(1) w(6) [OF True, of "[]"] by simp
      moreover have "relaying (?n d) (view s')"
        using fin d True quic_io.copy_spawned_run [OF assms(1), of "?n d" r "view s'"]
        by (auto simp: srv.lift_handshake await_def lift_async_def is_Ok_iff)
      ultimately show ?thesis
        using Inr relaying_prefix(1) [of "?n d" "view s'"] relaying_dialed [of "?n d" "view s'"]
        by (auto simp: quic_remote_def)
    next
      case False
      with fin d have "view s' = ?n d"
        by (cases rh) (auto simp: srv.lift_handshake await_def lift_async_def)
      with w(1) Inr room_prefix [of "oend c" "handshake_bytes q (h_secret self)"] show ?thesis
        by (auto simp: quic_remote_def)
    qed
  qed
qed

theorem quic_fixed_server_witness:
  "\<exists>r s'. handle_quic_stream net_inbound (sample_outbound [True, True]) sample_handler
     (trojan_into_request sample_request) (Plain ()) (idle_net (peer [1, 2, 3])) = (r, s') \<and>
     dialed s' = [SocketAddr (V4 0x7F000001) 8081]"
proof -
  let ?run = "handle_quic_stream net_inbound (sample_outbound [True, True]) sample_handler
     (trojan_into_request sample_request) (Plain ()) (idle_net (peer [1, 2, 3]))"
  have "?run = (fst ?run, snd ?run)" by simp
  from quic_fixed_server [OF _ this, where view = "\<lambda>n. n" and route = sample_route and tls_check = "\<lambda>_ _. None"]
  show ?thesis
    using net_quic.quic_io_axioms
    by (intro exI [of _ "fst ?run"] exI [of _ "snd ?run"]) (simp add: sample_outbound_def)
qed

end
