(* ===== verification/Tcp_Server.thy ===== *)
theory Tcp_Server
  imports Tcp_Handler
begin

text \<open>
  The TCP server of \<^verbatim>\<open>src/proxy/tcp/server.rs\<close>: what \<^verbatim>\<open>start\<close> does before it listens, the task
  it spawns for a connection, and the server as a transition system in which connections arrive and
  the tasks of all connections move in any order. The properties are invariants of every reachable
  state.
\<close>

section \<open>Starting\<close>

text \<open>
  \<open>dns\<close> is \<^verbatim>\<open>to_socket_addrs\<close>; no address and an error of the resolver are panics of
  \<^verbatim>\<open>unwrap\<close>. \<open>bind\<close> is \<^verbatim>\<open>TcpListener::bind\<close>.
\<close>

definition listen_address :: "resolver \<Rightarrow> InboundConfig \<Rightarrow> SocketAddr outcome" where
  "listen_address dns cfg =
     (case dns (in_address cfg) (in_port cfg) of
        Inl e \<Rightarrow> Panic (message e)
      | Inr [] \<Rightarrow> Panic ''called `Option::unwrap()` on a `None` value''
      | Inr (a # _) \<Rightarrow> Ok a)"

definition tcp_start ::
  "resolver \<Rightarrow> (SocketAddr \<Rightarrow> io_error option) \<Rightarrow> file_system \<Rightarrow> pemfile \<Rightarrow>
   (bytes list \<Rightarrow> bytes \<Rightarrow> string + ServerConfig) \<Rightarrow> bytes list \<Rightarrow> (string \<Rightarrow> string + string) \<Rightarrow>
   (bytes \<Rightarrow> bytes) \<Rightarrow> InboundConfig \<Rightarrow> OutboundConfig \<Rightarrow> (TcpAcceptor \<times> TcpHandler) outcome" where
  "tcp_start dns bind fs pem single_cert roots server_name sha224 inbound_config outbound_config =
     bind_outcome (listen_address dns inbound_config) (\<lambda>address.
     bind_outcome (case bind address of None \<Rightarrow> Ok () | Some e \<Rightarrow> Err e) (\<lambda>_.
     bind_outcome (TcpAcceptor_init fs pem single_cert sha224 inbound_config None) (\<lambda>(acceptor, _).
     bind_outcome (TcpHandler_init roots server_name sha224 outbound_config None) (\<lambda>(handler, _).
     Ok (acceptor, handler)))))"

section \<open>The task of a connection\<close>

definition connection_task ::
  "'s inbound_io \<Rightarrow> 's outbound_io \<Rightarrow> TcpAcceptor \<Rightarrow> TcpHandler \<Rightarrow> ('s, unit) async" where
  "connection_task inb io acceptor handler s =
     (case TcpAcceptor_accept inb acceptor s of
        (Ok (request, inbound_stream), s') \<Rightarrow>
          (case dispatch inb io handler inbound_stream request s' of
             (Ok _, t) \<Rightarrow> (Ok (), t)
           | (Err _, t) \<Rightarrow> (Ok (), t)
           | (Panic p, t) \<Rightarrow> (Panic p, t)
           | (Hang, t) \<Rightarrow> (Hang, t))
      | (Err _, s') \<Rightarrow> (Ok (), s')
      | (Panic p, s') \<Rightarrow> (Panic p, s')
      | (Hang, s') \<Rightarrow> (Hang, s'))"

section \<open>The server as a transition system\<close>

text \<open>
  A task remembers the state its connection arrived in. A task that makes no further step,
  because it returned, panicked or waits forever, is \<open>Done\<close>. An error of the listener ends the
  server.
\<close>

datatype 's phase = Fresh 's | Serving InboundRequest handle 's | Done 's

record 's server =
  tasks :: "('s \<times> 's phase) list"
  failed :: "io_error option"

definition listening :: "'s server" where
  "listening = \<lparr>tasks = [], failed = None\<rparr>"

inductive server_step ::
  "'s inbound_io \<Rightarrow> 's outbound_io \<Rightarrow> TcpAcceptor \<Rightarrow> TcpHandler \<Rightarrow> 's server \<Rightarrow> 's server \<Rightarrow> bool"
  for inb io acceptor handler where
  arrive: "failed v = None \<Longrightarrow>
    server_step inb io acceptor handler v (v\<lparr>tasks := tasks v @ [(s, Fresh s)]\<rparr>)"
| listener_error: "failed v = None \<Longrightarrow>
    server_step inb io acceptor handler v (v\<lparr>failed := Some e\<rparr>)"
| accepted: "failed v = None \<Longrightarrow> i < length (tasks v) \<Longrightarrow> tasks v ! i = (s0, Fresh s) \<Longrightarrow>
    TcpAcceptor_accept inb acceptor s = (Ok (q, h), s') \<Longrightarrow>
    server_step inb io acceptor handler v (v\<lparr>tasks := (tasks v)[i := (s0, Serving q h s')]\<rparr>)"
| refused: "failed v = None \<Longrightarrow> i < length (tasks v) \<Longrightarrow> tasks v ! i = (s0, Fresh s) \<Longrightarrow>
    TcpAcceptor_accept inb acceptor s = (r, s') \<Longrightarrow> \<not> is_Ok r \<Longrightarrow>
    server_step inb io acceptor handler v (v\<lparr>tasks := (tasks v)[i := (s0, Done s')]\<rparr>)"
| served: "failed v = None \<Longrightarrow> i < length (tasks v) \<Longrightarrow> tasks v ! i = (s0, Serving q h s) \<Longrightarrow>
    dispatch inb (io\<lparr>schedule := sched\<rparr>) handler h q s = (r, s') \<Longrightarrow>
    server_step inb io acceptor handler v (v\<lparr>tasks := (tasks v)[i := (s0, Done s')]\<rparr>)"

abbreviation reachable ::
  "'s inbound_io \<Rightarrow> 's outbound_io \<Rightarrow> TcpAcceptor \<Rightarrow> TcpHandler \<Rightarrow> 's server \<Rightarrow> bool" where
  "reachable inb io acceptor handler v \<equiv> (server_step inb io acceptor handler)\<^sup>*\<^sup>* listening v"

text \<open>What a task may be: it went through the operations of the acceptor and the handler in order.\<close>

fun task_ok ::
  "'s inbound_io \<Rightarrow> 's outbound_io \<Rightarrow> TcpAcceptor \<Rightarrow> TcpHandler \<Rightarrow> 's \<times> 's phase \<Rightarrow> bool" where
  "task_ok inb io acceptor handler (s0, Fresh s) \<longleftrightarrow> s = s0"
| "task_ok inb io acceptor handler (s0, Serving q h s) \<longleftrightarrow> TcpAcceptor_accept inb acceptor s0 = (Ok (q, h), s)"
| "task_ok inb io acceptor handler (s0, Done s) \<longleftrightarrow>
     (\<exists>r. TcpAcceptor_accept inb acceptor s0 = (r, s) \<and> \<not> is_Ok r) \<or>
     (\<exists>q h s' sched r. TcpAcceptor_accept inb acceptor s0 = (Ok (q, h), s') \<and>
        dispatch inb (io\<lparr>schedule := sched\<rparr>) handler h q s' = (r, s))"

lemma reachable_tasks:
  assumes "reachable inb io acceptor handler v"
  shows "\<forall>t \<in> set (tasks v). task_ok inb io acceptor handler t"
  using assms
proof (induction rule: rtranclp_induct)
  case base
  then show ?case by (simp add: listening_def)
next
  case (step v v')
  note upd = ball_update [OF step.IH]
  have old: "i < length (tasks v) \<Longrightarrow> task_ok inb io acceptor handler (tasks v ! i)" for i
    using step.IH by simp
  from step.hyps(2) show ?case
  proof cases
    case (arrive s)
    with step.IH show ?thesis by auto
  next
    case (listener_error e)
    with step.IH show ?thesis by simp
  next
    case (accepted i s0 s q h s')
    with old [of i] have "task_ok inb io acceptor handler (s0, Serving q h s')" by simp
    from upd [OF this] accepted(1) show ?thesis by simp
  next
    case (refused i s0 s r s')
    with old [of i] have "task_ok inb io acceptor handler (s0, Done s')" by auto
    from upd [OF this] refused(1) show ?thesis by simp
  next
    case (served i s0 q h s sched r s')
    with old [of i] have "task_ok inb io acceptor handler (s0, Done s')" by auto
    from upd [OF this] served(1) show ?thesis by simp
  qed
qed

section \<open>Accepting on the abstract network\<close>

context lens
begin

lemma lift_socks_accept:
  "socks_accept (lift_reader get put R) (lift_writer get put W) p = lift_async get put (socks_accept R W p)"
  unfolding socks_accept_def init_ack_def write_request_ack_def socks_parse_def amap_def
  by (simp add: lift_simps Atype.case_distrib [of "lift_async get put"] if_distrib [of "lift_async get put"]
      cong: Atype.case_cong if_cong)

end

text \<open>The contract of a handler together with the TLS handshake of the acceptor.\<close>

locale server_io = relay_io +
  fixes accept_check :: "ServerConfig \<Rightarrow> io_error option"
  assumes sim_tls_accept: "\<And>cfg. tracks view (tls_accept inb cfg) (net_check (accept_check cfg))"
begin

lemma sim_trojan_accept: "tracks view (trojan_accept (stream_reader inb h) secret)
    (lift_async cli (\<lambda>c. cli_update (\<lambda>_. c)) (trojan_accept conn_reader secret))"
  using exact_reader.sim_trojan_accept [OF chunk_reader.axioms(1) [OF stream_parts(1)]]
  by (simp add: cli.lift_trojan_accept)

text \<open>
  Whatever comes of it, accepting takes bytes from the client and does nothing else; it succeeds
  only when the abstract connection is accepted.
\<close>

lemma accept_net:
  assumes "acc_protocol self = TROJAN" and "TcpAcceptor_accept inb self s = (r, s')"
  shows "\<exists>c. view s' = (view s)\<lparr>cli := c\<rparr> \<and> outp c = outp (cli (view s)) \<and>
    (\<forall>q h. r = Ok (q, h) \<longrightarrow> trojan_accept conn_reader (acc_secret self) (cli (view s)) = (Ok q, c))"
proof -
  have base: "\<exists>c. view s' = (view t)\<lparr>cli := c\<rparr> \<and> outp c = outp (cli (view t)) \<and>
      (\<forall>q. r0 = Ok q \<longrightarrow> trojan_accept conn_reader (acc_secret self) (cli (view t)) = (Ok q, c))"
    if run: "trojan_accept (stream_reader inb hd) (acc_secret self) t = (r0, s')" for hd t r0
  proof -
    obtain q c where q: "trojan_accept conn_reader (acc_secret self) (cli (view t)) = (q, c)"
      by (cases "trojan_accept conn_reader (acc_secret self) (cli (view t))")
    have "r0 = q" "view s' = (view t)\<lparr>cli := c\<rparr>"
      using tracksD [OF sim_trojan_accept run] q by (simp_all add: lift_async_def)
    with q keeps_outputD [OF keeps_trojan_accept q] show ?thesis by blast
  qed
  show ?thesis
  proof (cases "tls_acceptor self")
    case None
    obtain r0 s1 where run: "trojan_accept (stream_reader inb (Plain ())) (acc_secret self) s = (r0, s1)"
      by (cases "trojan_accept (stream_reader inb (Plain ())) (acc_secret self) s")
    then have "s1 = s' \<and> (\<forall>q h. r = Ok (q, h) \<longrightarrow> r0 = Ok q)"
      using assms None by (cases r0) (auto simp: TcpAcceptor_accept_def amap_def await_def)
    with base [of "Plain ()" s r0] run show ?thesis by blast
  next
    case (Some cfg)
    obtain rt t where tls: "tls_accept inb cfg s = (rt, t)" by (cases "tls_accept inb cfg s")
    have t: "view t = view s"
      using tracksD [OF sim_tls_accept tls] by (simp add: net_check_def split: option.splits)
    show ?thesis
    proof (cases "rt = Ok ()")
      case True
      obtain r0 s1 where run: "trojan_accept (stream_reader inb (RustlsServer ())) (acc_secret self) t = (r0, s1)"
        by (cases "trojan_accept (stream_reader inb (RustlsServer ())) (acc_secret self) t")
      then have "s1 = s' \<and> (\<forall>q h. r = Ok (q, h) \<longrightarrow> r0 = Ok q)"
        using assms Some tls True by (cases r0) (auto simp: TcpAcceptor_accept_def amap_def await_def)
      with base [of "RustlsServer ()" t r0] run t show ?thesis by auto
    next
      case False
      then have "s' = t \<and> \<not> is_Ok r"
        using assms Some tls by (cases rt) (auto simp: TcpAcceptor_accept_def await_def)
      then have "view s' = (view s)\<lparr>cli := cli (view s)\<rparr>" "\<And>q h. r \<noteq> Ok (q, h)"
        using t by auto
      then show ?thesis by (intro exI [of _ "cli (view s)"]) simp
    qed
  qed
qed

lemma accept_secret:
  assumes "acc_protocol self = TROJAN" and "TcpAcceptor_accept inb self s = (Ok (q, h), s')"
  shows "take HEX_SIZE (inp (cli (view s))) = acc_secret self \<and> acc_secret self \<noteq> []"
proof -
  obtain c where "trojan_accept conn_reader (acc_secret self) (cli (view s)) = (Ok q, c)"
    using accept_net [OF assms] by blast
  then obtain tr sep1 sep2 rest where "wf_trojan tr" "hex tr = acc_secret self"
      "inp (cli (view s)) = trojan_header sep1 sep2 tr @ rest"
    unfolding trojan_accept_Ok by blast
  then show ?thesis
    using trojan_header_hex [of tr sep1 sep2 rest] by (auto simp: wf_trojan_def HEX_SIZE_def)
qed

text \<open>The header a client side writes for an IP address is accepted, over TLS or not.\<close>

lemma accept_handshake:
  assumes "acc_protocol self = TROJAN" and "length (acc_secret self) = HEX_SIZE"
    and "wf_request q" and "ip (addr_port q) = IpAddr a"
    and "inp (cli (view s)) = handshake_bytes q (acc_secret self) @ x"
    and "\<And>cfg. tls_acceptor self = Some cfg \<Longrightarrow> accept_check cfg = None"
  shows "\<exists>h s'. TcpAcceptor_accept inb self s = (Ok (q\<lparr>proxy_protocol := TROJAN\<rparr>, h), s') \<and>
    view s' = (view s)\<lparr>cli := (cli (view s))\<lparr>inp := x\<rparr>\<rparr>"
proof -
  let ?n = "(view s)\<lparr>cli := (cli (view s))\<lparr>inp := x\<rparr>\<rparr>"
  have "trojan_accept conn_reader (acc_secret self) (cli (view s)) =
      (Ok (q\<lparr>proxy_protocol := TROJAN\<rparr>), (cli (view s))\<lparr>inp := x\<rparr>)"
    unfolding trojan_accept_Ok using handshake_bytes_ip [OF assms(4,3,2)] assms(5) by metis
  then have run: "\<exists>s'. trojan_accept (stream_reader inb h) (acc_secret self) t = (Ok (q\<lparr>proxy_protocol := TROJAN\<rparr>), s') \<and>
      view s' = ?n" if "view t = view s" for h t
    using tracks_run [OF sim_trojan_accept, where h1 = h and secret1 = "acc_secret self" and s = t] that by (simp add: lift_async_def)
  show ?thesis
  proof (cases "tls_acceptor self")
    case None
    with run [of s "Plain ()"] assms(1) show ?thesis
      by (auto simp: TcpAcceptor_accept_def amap_def await_def)
  next
    case (Some cfg)
    then obtain t where "tls_accept inb cfg s = (Ok (), t)" "view t = view s"
      using tracks_run [OF sim_tls_accept, where cfg1 = cfg and s = s and r = "Ok ()" and t = "view s"] assms(6) by (auto simp: net_check_def)
    with run [of t "RustlsServer ()"] Some assms(1) show ?thesis
      by (auto simp: TcpAcceptor_accept_def amap_def await_def)
  qed
qed

text \<open>
  A SOCKS5 client that sends a greeting and, with its payload behind it, the header of a request is
  accepted with that request, and has been sent the method selection and the success reply.
\<close>

lemma accept_socks:
  assumes "acc_protocol self = SOCKS" and "wf_socks tr" and "so_addr tr = IpAddr a"
    and "oend (cli (view s)) = Accepting" and "isizes (cli (view s)) = length hello # sizes"
    and "hello \<noteq> []" and "length hello \<le> 32" and "inp (cli (view s)) = hello @ socks_header tr @ x"
    and "\<And>cfg. tls_acceptor self = Some cfg \<Longrightarrow> accept_check cfg = None"
  shows "\<exists>h s'. TcpAcceptor_accept inb self s = (Ok (socks_into_request tr, h), s') \<and>
    view s' = (view s)\<lparr>cli := (cli (view s))\<lparr>inp := x, isizes := sizes,
      outp := outp (cli (view s)) @ greeting @ success_reply (acc_port self)\<rparr>\<rparr>"
proof -
  let ?c = "(cli (view s))\<lparr>inp := x, isizes := sizes,
      outp := outp (cli (view s)) @ greeting @ success_reply (acc_port self)\<rparr>"
  have "socks_parse conn_reader ((cli (view s))\<lparr>inp := socks_header tr @ x, isizes := sizes,
        outp := outp (cli (view s)) @ greeting\<rparr>) =
      (Ok tr, (cli (view s))\<lparr>inp := x, isizes := sizes, outp := outp (cli (view s)) @ greeting\<rparr>)"
    using socks_parse_ip [OF assms(2,3)] by simp
  then have "socks_accept conn_reader conn_writer (acc_port self) (cli (view s)) = (Ok (socks_into_request tr), ?c)"
    using socks_accept_run [OF assms(4-8), of "acc_port self"] by simp
  then have net: "socks_accept cli_reader cli_writer (acc_port self) (view s) =
      (Ok (socks_into_request tr), (view s)\<lparr>cli := ?c\<rparr>)"
    by (simp add: cli.lift_socks_accept lift_async_def)
  have run: "\<exists>s'. socks_accept (stream_reader inb h) (stream_writer inb h) (acc_port self) t =
      (Ok (socks_into_request tr), s') \<and> view s' = (view s)\<lparr>cli := ?c\<rparr>" if "view t = view s" for h t
    using tracks_run [OF sim_socks_accept [OF client [of h]]] net that by simp
  show ?thesis
  proof (cases "tls_acceptor self")
    case None
    with run [of s "Plain ()"] assms(1) show ?thesis
      by (auto simp: TcpAcceptor_accept_def amap_def await_def)
  next
    case (Some cfg)
    then obtain t where "tls_accept inb cfg s = (Ok (), t)" "view t = view s"
      using tracks_run [OF sim_tls_accept, where cfg1 = cfg and s = s and r = "Ok ()" and t = "view s"] assms(9)
      by (auto simp: net_check_def)
    with run [of t "RustlsServer ()"] Some assms(1) show ?thesis
      by (auto simp: TcpAcceptor_accept_def amap_def await_def)
  qed
qed

end

interpretation net_server: server_io net_inbound "net_outbound route tls_check dns sched" "\<lambda>n. n" route tls_check
  "\<lambda>_. None"
  by unfold_locales (simp add: net_inbound_def net_check_None simulates_refl)

section \<open>Properties\<close>

fun phase_state :: "'s phase \<Rightarrow> 's" where
  "phase_state (Fresh s) = s"
| "phase_state (Serving q h s) = s"
| "phase_state (Done s) = s"

text \<open>
  C7: No service without the secret. In every reachable state of a Trojan server, a connection that
  did not begin with the digest of the configured password has had bytes read from it and nothing
  else: no address was dialled for it, no datagram or message sent, and nothing written back; if no
  password is configured this is so for every connection.
\<close>

theorem server_unauthenticated_untouched:
  assumes "server_io inb io view route tls_check accept_check"
    and "TcpAcceptor_init fs pem single_cert sha224 cfg None = Ok (acceptor, cell)" and "in_protocol cfg = TROJAN"
    and "reachable inb io acceptor handler v" and "(s0, ph) \<in> set (tasks v)"
    and "\<And>pw. in_secret cfg = Some pw \<Longrightarrow> take HEX_SIZE (inp (cli (view s0))) \<noteq> hex_secret sha224 pw"
  shows "\<exists>c. view (phase_state ph) = (view s0)\<lparr>cli := c\<rparr> \<and> outp c = outp (cli (view s0))"
proof -
  have acc: "acc_protocol acceptor = TROJAN" "acc_secret acceptor = secret_of sha224 TROJAN (in_secret cfg)"
    using assms(2,3) by (auto simp: TcpAcceptor_init_Ok)
  have no: "TcpAcceptor_accept inb acceptor s0 \<noteq> (Ok (q, h), s)" for q h s
    using server_io.accept_secret [OF assms(1) acc(1), of s0 q h s] acc(2) assms(6)
    by (cases "in_secret cfg") (auto simp: secret_of_def)
  have ok: "task_ok inb io acceptor handler (s0, ph)"
    using reachable_tasks [OF assms(4)] assms(5) by blast
  show ?thesis
  proof (cases ph)
    case (Fresh s)
    with ok show ?thesis by (intro exI [of _ "cli (view s0)"]) simp
  next
    case (Serving q h s)
    with ok no show ?thesis by simp
  next
    case (Done s)
    with ok no obtain r where "TcpAcceptor_accept inb acceptor s0 = (r, s)" by auto
    from server_io.accept_net [OF assms(1) acc(1) this] Done show ?thesis
      by (simp only: phase_state.simps) (elim exE conjE, intro exI conjI)
  qed
qed

text \<open>A connection that begins with a Trojan header under another secret.\<close>

definition sample_intruder :: "Hunk net" where
  "sample_intruder = idle_net (peer (handshake_bytes (trojan_into_request sample_request) (replicate HEX_SIZE 0) @ [7]))"

lemma sample_intruder_digest: "take HEX_SIZE (inp (cli sample_intruder)) \<noteq> sample_secret"
  by (simp add: sample_intruder_def handshake_bytes_def HEX_SIZE_def sample_secret_def)

lemma sample_server_io: "server_io net_inbound (sample_outbound sched) (\<lambda>n. n) sample_route (\<lambda>_ _. None) (\<lambda>_. None)"
  unfolding sample_outbound_def by (rule net_server.server_io_axioms)

lemma sample_intruder_refused:
  "\<exists>s. reachable net_inbound (sample_outbound []) sample_acceptor sample_handler
     \<lparr>tasks = [(sample_intruder, Done s)], failed = None\<rparr>"
proof -
  let ?step = "server_step net_inbound (sample_outbound []) sample_acceptor sample_handler"
  let ?v = "\<lparr>tasks = [(sample_intruder, Fresh sample_intruder)], failed = None\<rparr>"
  have "?step listening ?v"
    using server_step.arrive [of listening net_inbound "sample_outbound []" sample_acceptor sample_handler sample_intruder]
    by (simp add: listening_def)
  moreover obtain r s where r: "TcpAcceptor_accept net_inbound sample_acceptor sample_intruder = (r, s)"
    by (cases "TcpAcceptor_accept net_inbound sample_acceptor sample_intruder")
  have "\<not> is_Ok r"
  proof
    assume "is_Ok r"
    then obtain q h where "TcpAcceptor_accept net_inbound sample_acceptor sample_intruder = (Ok (q, h), s)"
      using r by (auto simp: is_Ok_iff)
    from server_io.accept_secret [OF sample_server_io _ this] sample_intruder_digest
    show False by (simp add: sample_acceptor_def)
  qed
  with r have "?step ?v \<lparr>tasks = [(sample_intruder, Done s)], failed = None\<rparr>"
    using server_step.refused [of ?v 0 sample_intruder sample_intruder net_inbound sample_acceptor r s "sample_outbound []" sample_handler]
    by simp
  ultimately show ?thesis
    by (meson rtranclp.rtrancl_into_rtrancl rtranclp.rtrancl_refl)
qed

theorem server_unauthenticated_untouched_witness:
  "\<exists>s c. reachable net_inbound (sample_outbound []) sample_acceptor sample_handler
       \<lparr>tasks = [(sample_intruder, Done s)], failed = None\<rparr> \<and>
     s = sample_intruder\<lparr>cli := c\<rparr> \<and> outp c = []"
proof -
  obtain s where v: "reachable net_inbound (sample_outbound []) sample_acceptor sample_handler
      \<lparr>tasks = [(sample_intruder, Done s)], failed = None\<rparr>"
    using sample_intruder_refused by blast
  have "outp (cli sample_intruder) = []" by (simp add: sample_intruder_def)
  with server_unauthenticated_untouched [OF sample_server_io sample_acceptor_init _ v,
      where ph = "Done s" and ?s0.0 = sample_intruder] sample_intruder_digest
  have "\<exists>c. s = sample_intruder\<lparr>cli := c\<rparr> \<and> outp c = []"
    by (simp add: sample_inbound_def sample_digest_secret)
  with v show ?thesis by blast
qed

end
