(* ===== verification/Grpc_Proxy.thy ===== *)
theory Grpc_Proxy
  imports Tcp_Server
begin

text \<open>
  The gRPC server of \<^verbatim>\<open>src/proxy/grpc\<close>: the acceptor, which reads the Trojan request out of the
  incoming messages through a \<^verbatim>\<open>GrpcDataReaderStream\<close>, the handler, and the service with its start
  function. The message streams, connections and sockets of \<^verbatim>\<open>tonic\<close> and \<^verbatim>\<open>tokio\<close> are
  arguments. A task of the service works on its state together with the buffer of the reader.
\<close>

section \<open>The acceptor\<close>

record GrpcAcceptor =
  ga_protocol :: SupportedProtocols
  ga_secret :: bytes

definition GrpcAcceptor_new ::
  "(bytes \<Rightarrow> bytes) \<Rightarrow> InboundConfig \<Rightarrow> GrpcAcceptor option \<Rightarrow> GrpcAcceptor \<times> GrpcAcceptor option" where
  "GrpcAcceptor_new sha224 inbound_config cell =
     (let secret = secret_of sha224 (in_protocol inbound_config) (in_secret inbound_config) in
      get_or_init \<lparr>ga_protocol = in_protocol inbound_config, ga_secret = secret\<rparr> cell)"

text \<open>\<open>ext\<close> is \<^verbatim>\<open>AsyncReadExt\<close>, \<open>poll_next\<close> the stream of incoming messages.\<close>

definition accept_hunk ::
  "('s GrpcDataReaderStream poll_reader \<Rightarrow> 's GrpcDataReaderStream reader) \<Rightarrow> 's hunk_stream \<Rightarrow> GrpcAcceptor \<Rightarrow>
   's \<Rightarrow> InboundRequest outcome \<times> 's GrpcDataReaderStream" where
  "accept_hunk ext poll_next self s =
     (let inbound_reader = from_reader s in
      (case ga_protocol self of
         TROJAN \<Rightarrow>
           await (trojan_parse (ext (grpc_poll poll_next))) (\<lambda>trojan_request.
           if \<not> validate trojan_request (ga_secret self)
           then fail (Error InvalidData ''Incorrect trojan credentials'')
           else return (trojan_into_request trojan_request))
       | _ \<Rightarrow> fail (Error Unsupported ''Unsupported protocol'')) inbound_reader)"

section \<open>The handler\<close>

definition BUFFER_SIZE :: nat where "BUFFER_SIZE = 4096"

record GrpcHandler =
  gh_protocol :: SupportedProtocols

definition GrpcHandler_new :: "GrpcHandler option \<Rightarrow> GrpcHandler \<times> GrpcHandler option" where
  "GrpcHandler_new cell = get_or_init \<lparr>gh_protocol = TROJAN\<rparr> cell"

definition server_to_grpc_step :: "'s reader \<Rightarrow> ('s, Status + Hunk) sender \<Rightarrow> ('s, unit) async" where
  "server_to_grpc_step R writer =
     await (map_err (\<lambda>_. Error BrokenPipe ''Failed to read data from remote server'') (read_buf R BUFFER_SIZE)) (\<lambda>buf.
     map_err (\<lambda>_. Error BrokenPipe ''Failed to send data to client'') (send writer (Inr \<lparr>data = buf\<rparr>)))"

definition copy_server_reader_to_client_grpc_writer ::
  "'s reader \<Rightarrow> ('s, Status + Hunk) sender \<Rightarrow> 's \<Rightarrow> (unit outcome \<times> 's) option" where
  "copy_server_reader_to_client_grpc_writer R writer = loop (server_to_grpc_step R writer)"

definition udp_to_grpc_step ::
  "'s udp_socket \<Rightarrow> ('s, Status + Hunk) sender \<Rightarrow> InboundRequest \<Rightarrow> ('s, unit) async" where
  "udp_to_grpc_step udp_socket client_sender request =
     await (map_err (\<lambda>_. Error BrokenPipe ''Failed to read data from remote server'')
              (recv udp_socket BUFFER_SIZE)) (\<lambda>udp_buffer.
     let buf = [atype_u8 (atype request)] @
           (case ip (addr_port request) of
              IpAddr (V4 a) \<Rightarrow> octets (V4 a)
            | IpAddr (V6 a) \<Rightarrow> octets (V6 a)
            | Domain domain \<Rightarrow> [of_nat (length (as_bytes domain))] @ as_bytes domain) @
           be_bytes 2 (port (addr_port request)) @ be_bytes 2 (of_nat (length udp_buffer) :: u16) @
           be_bytes 2 CRLF @ udp_buffer in
     map_err (\<lambda>_. Error BrokenPipe ''Failed to send data to client'') (send client_sender (Inr \<lparr>data = buf\<rparr>)))"

definition copy_udp_socket_to_client_grpc_writer ::
  "'s udp_socket \<Rightarrow> ('s, Status + Hunk) sender \<Rightarrow> InboundRequest \<Rightarrow> 's \<Rightarrow> (unit outcome \<times> 's) option" where
  "copy_udp_socket_to_client_grpc_writer udp_socket client_sender request =
     loop (udp_to_grpc_step udp_socket client_sender request)"

record 's grpc_io =
  g_poll_next :: "'s hunk_stream"
  g_ext :: "'s GrpcDataReaderStream poll_reader \<Rightarrow> 's GrpcDataReaderStream reader"
  g_connect :: "SocketAddr \<Rightarrow> ('s, unit) async"
  g_reader :: "'s reader"
  g_writer :: "'s writer"
  g_udp_bind :: "string \<Rightarrow> ('s, unit) async"
  g_socket :: "string \<Rightarrow> 's udp_socket"
  g_tx :: "('s, Status + Hunk) sender"
  g_dns :: resolver
  g_copy_buf :: nat
  g_schedule :: "bool list"

definition handle_hunk ::
  "'s grpc_io \<Rightarrow> GrpcHandler \<Rightarrow> InboundRequest \<Rightarrow> ('s GrpcDataReaderStream, unit) async" where
  "handle_hunk io self request =
     (let client_reader = g_ext io (grpc_poll (g_poll_next io)) in
      case gh_protocol self of
        TROJAN \<Rightarrow>
          (case command request of
             Connect \<Rightarrow>
               await (eval_outcome (into_SocketAddr (g_dns io) (addr_port request))) (\<lambda>ip_port.
               await (beside_hunks (g_connect io ip_port)) (\<lambda>_.
               select_run (g_schedule io)
                 (copy_step (g_copy_buf io) client_reader (lift_writer reader (\<lambda>r. reader_update (\<lambda>_. r)) (g_writer io)))
                 (beside_hunks (body_task (server_to_grpc_step (g_reader io) (g_tx io))))))
           | Udp \<Rightarrow>
               await (beside_hunks (g_udp_bind io ''0.0.0.0:0'')) (\<lambda>_.
               let socket = g_socket io ''0.0.0.0:0'' in
               select_run (g_schedule io)
                 (body_task (client_to_udp_step (g_dns io) client_reader
                    (lift_udp reader (\<lambda>r. reader_update (\<lambda>_. r)) socket)))
                 (beside_hunks (body_task (udp_to_grpc_step socket (g_tx io) request))))
           | Bind \<Rightarrow> fail (Error Unsupported ''Bind command is not supported in Trojan''))
      | _ \<Rightarrow> fail (Error Unsupported ''GrpcHandler only supports Trojan for now''))"

section \<open>The service\<close>

definition CHANNEL_SIZE :: nat where "CHANNEL_SIZE = 16"

record GrpcProxyService =
  svc_acceptor :: GrpcAcceptor
  svc_handler :: GrpcHandler

definition GrpcProxyService_new :: "GrpcAcceptor \<Rightarrow> GrpcHandler \<Rightarrow> GrpcProxyService" where
  "GrpcProxyService_new a h = \<lparr>svc_acceptor = a, svc_handler = h\<rparr>"

text \<open>
  The task that \<^verbatim>\<open>tun\<close> spawns for a call; the call itself returns the receiving end of the channel
  at once.
\<close>

definition tun :: "'s grpc_io \<Rightarrow> GrpcProxyService \<Rightarrow> 's \<Rightarrow> unit outcome \<times> 's GrpcDataReaderStream" where
  "tun io self s =
     (case accept_hunk (g_ext io) (g_poll_next io) (svc_acceptor self) s of
        (Ok request, client_reader) \<Rightarrow>
          (case handle_hunk io (svc_handler self) request client_reader of
             (Ok _, t) \<Rightarrow> (Ok (), t)
           | (Err _, t) \<Rightarrow> (Ok (), t)
           | (Panic p, t) \<Rightarrow> (Panic p, t)
           | (Hang, t) \<Rightarrow> (Hang, t))
      | (Err _, t) \<Rightarrow> (Ok (), t)
      | (Panic p, t) \<Rightarrow> (Panic p, t)
      | (Hang, t) \<Rightarrow> (Hang, t))"

definition tun_multi :: "('s, unit) async" where
  "tun_multi = panic ''not yet implemented''"

text \<open>
  \<open>tls_config\<close> is \<^verbatim>\<open>Server::builder().tls_config\<close> on the certificate and the key,
  \<open>serve\<close> runs the service until it ends, with an error message if it could not start. The result
  is the service that was handed to it.
\<close>

definition grpc_start ::
  "resolver \<Rightarrow> file_system \<Rightarrow> (bytes \<Rightarrow> bytes \<Rightarrow> string option) \<Rightarrow>
   (SocketAddr \<Rightarrow> (bytes \<times> bytes) option \<Rightarrow> GrpcProxyService \<Rightarrow> string option) \<Rightarrow> (bytes \<Rightarrow> bytes) \<Rightarrow>
   InboundConfig \<Rightarrow> GrpcProxyService outcome" where
  "grpc_start dns read_file tls_config serve sha224 inbound_config =
     bind_outcome (case dns (in_address inbound_config) (in_port inbound_config) of
                     Inl e \<Rightarrow> Panic (message e)
                   | Inr [] \<Rightarrow> Err (Error AddrNotAvailable ''incorrect address in configuration'')
                   | Inr (a # _) \<Rightarrow> Ok a) (\<lambda>address.
     bind_outcome (case in_tls inbound_config of
                     Some cfg \<Rightarrow>
                       (case read_file (cert_path cfg) of
                          Inl e \<Rightarrow> Err e
                        | Inr cert \<Rightarrow>
                            (case read_file (key_path cfg) of
                               Inl e \<Rightarrow> Err e
                             | Inr key \<Rightarrow> Ok (Some (cert, key))))
                   | None \<Rightarrow> Ok None) (\<lambda>tls.
     bind_outcome (case tls of
                     Some (cert, key) \<Rightarrow>
                       (case tls_config cert key of
                          None \<Rightarrow> Ok ()
                        | Some e \<Rightarrow> Panic (''Failed to build GRPC server: '' @ e))
                   | None \<Rightarrow> Ok ()) (\<lambda>_.
     let service = GrpcProxyService_new (fst (GrpcAcceptor_new sha224 inbound_config None)) (fst (GrpcHandler_new None)) in
     case serve address tls service of
       None \<Rightarrow> Ok service
     | Some e \<Rightarrow> Err (Error Interrupted (''Failed to start grpc server: '' @ e)))))"

section \<open>Accepting a call\<close>

lemma accept_hunk_Ok:
  assumes "ga_protocol self = TROJAN"
  shows "accept_hunk ext poll_next self s = (Ok q, g) \<longleftrightarrow>
    (\<exists>r. trojan_parse (ext (grpc_poll poll_next)) (from_reader s) = (Ok r, g) \<and> hex r = ga_secret self \<and>
       q = trojan_into_request r)"
  using assms by (auto simp: accept_hunk_def await_Ok_iff validate_iff split: if_splits)

text \<open>The parsers on a source that may end early.\<close>

context feed_reader
begin

lemma follows_trojan_parse [follows_intros]:
  "follows invar rest firm (trojan_parse R) (trojan_parse conn_reader)"
  unfolding trojan_parse_def
  by (intro follows_intros) (auto intro!: follows_intros simp del: conn_reader_sel split: Atype.split)

lemma follows_parse_udp [follows_intros]:
  "follows invar rest firm (parse_udp dns R) (parse_udp dns conn_reader)"
  unfolding parse_udp_def
  by (intro follows_intros) (auto intro!: follows_intros simp del: conn_reader_sel split: Atype.split)

end

lemma from_reader_sel [simp]: "reader (from_reader r) = r" "buf (from_reader r) = []"
  by (simp_all add: from_reader_def)

text \<open>
  Reading a request through the messages is reading it from their bytes, provided that no empty
  message and no end of the stream comes within the header.
\<close>

lemma feed_conn_eqD: "feed_conn rest s = (feed_conn rest t)\<lparr>inp := x\<rparr> \<Longrightarrow> rest s = x"
  by (drule arg_cong [where f = inp]) simp

lemma accept_hunk_sound:
  assumes "feed_ext ext" and "message_source poll_next invar queue final delay" and "invar s"
    and "ga_protocol self = TROJAN" and "accept_hunk ext poll_next self s = (Ok q, g)"
  shows "\<exists>r sep1 sep2. wf_trojan r \<and> hex r = ga_secret self \<and> q = trojan_into_request r \<and>
    concat (queue s) = trojan_header sep1 sep2 r @ buf g @ concat (queue (reader g))"
proof -
  let ?rest = "\<lambda>g. buf g @ concat (queue (reader g))"
  note fol = feed_reader.follows_trojan_parse [OF feed_ext.ext_feed [OF assms(1) message_source.data_feed [OF assms(2)]]]
  have inv: "invar (reader (from_reader s))" using assms(3) by simp
  obtain r where r: "trojan_parse (ext (grpc_poll poll_next)) (from_reader s) = (Ok r, g)"
      "hex r = ga_secret self" "q = trojan_into_request r"
    using assms(5) unfolding accept_hunk_Ok [OF assms(4)] by (elim exE conjE)
  have "trojan_parse conn_reader (feed_conn ?rest (from_reader s)) = (Ok r, feed_conn ?rest g)"
    using followsD(2) [OF fol inv r(1)] by simp
  then obtain sep1 sep2 x where h: "wf_trojan r" "?rest (from_reader s) = trojan_header sep1 sep2 r @ x"
      "feed_conn ?rest g = (feed_conn ?rest (from_reader s))\<lparr>inp := x\<rparr>"
    unfolding trojan_parse_Ok by (auto simp only: inp_feed_conn)
  from h(2) feed_conn_eqD [OF h(3)] have "concat (queue s) = trojan_header sep1 sep2 r @ ?rest g" by simp
  with h(1) r(2,3) show ?thesis by (intro exI conjI)
qed

lemma accept_hunk_handshake:
  assumes "feed_ext ext" and "message_source poll_next invar queue final delay" and "invar s"
    and "ga_protocol self = TROJAN" and "length (ga_secret self) = HEX_SIZE"
    and "wf_request q" and "ip (addr_port q) = IpAddr a"
    and "queue s = hs @ ms" and "concat hs = handshake_bytes q (ga_secret self) @ x" and "[] \<notin> set hs"
    and "ms \<noteq> [] \<or> final s = Open"
  shows "\<exists>g. accept_hunk ext poll_next self s = (Ok (q\<lparr>proxy_protocol := TROJAN\<rparr>), g) \<and> invar (reader g) \<and>
    buf g @ concat (queue (reader g)) = x @ concat ms"
proof -
  let ?rest = "\<lambda>g. buf g @ concat (queue (reader g))"
  let ?firm = "\<lambda>g. if queue (reader g) = [] \<and> final (reader g) \<noteq> Open then 0
     else length (buf g) + certain (final (reader g)) (queue (reader g))"
  let ?R = "ext (grpc_poll poll_next)"
  have fol: "follows (\<lambda>g. invar (reader g)) ?rest ?firm (trojan_parse ?R) (trojan_parse conn_reader)"
    by (rule feed_reader.follows_trojan_parse [OF feed_ext.ext_feed [OF assms(1) message_source.data_feed [OF assms(2)]]])
  have inv: "invar (reader (from_reader s))" using assms(3) by simp
  obtain r where r: "wf_trojan r" "hex r = ga_secret self" "trojan_into_request r = q\<lparr>proxy_protocol := TROJAN\<rparr>"
      "handshake_bytes q (ga_secret self) = trojan_header CRLF CRLF r"
    using handshake_bytes_ip [OF assms(7,6,5)] by blast
  have rest: "?rest (from_reader s) = trojan_header CRLF CRLF r @ x @ concat ms"
    using assms(8,9) r(4) by simp
  let ?c = "(feed_conn ?rest (from_reader s))\<lparr>inp := x @ concat ms\<rparr>"
  have parse: "trojan_parse conn_reader (feed_conn ?rest (from_reader s)) = (Ok r, ?c)"
    unfolding trojan_parse_Ok using r(1) rest
    by (intro exI [of _ CRLF] exI [of _ "x @ concat ms"]) (simp only: inp_feed_conn conj_absorb simp_thms)
  have "length (trojan_header CRLF CRLF r) \<le> certain (final s) (queue s)"
    using certain_append [OF assms(10,11)] assms(8,9) r(4) by simp
  moreover have "hs \<noteq> []"
    using assms(9) by (auto simp: handshake_bytes_def)
  ultimately have firm: "length (?rest (from_reader s)) \<le> ?firm (from_reader s) + length (inp ?c)"
    using rest assms(8) by simp
  obtain q0 g where g: "trojan_parse ?R (from_reader s) = (q0, g)" by (cases "trojan_parse ?R (from_reader s)")
  from followsD(3) [OF fol inv g parse firm] have ok: "q0 = Ok r" "feed_conn ?rest g = ?c" by simp_all
  have "accept_hunk ext poll_next self s = (Ok (q\<lparr>proxy_protocol := TROJAN\<rparr>), g)"
    unfolding accept_hunk_Ok [OF assms(4)] using g ok(1) r(2,3) by (intro exI [of _ r] conjI) simp_all
  with followsD(1) [OF fol inv g] feed_conn_eqD [OF ok(2)] show ?thesis by (intro exI conjI)
qed

section \<open>A sample call\<close>

text \<open>The bytes of a header in two messages, an empty message behind it, and the rest.\<close>

definition sample_call :: "bytes \<Rightarrow> bytes \<Rightarrow> bytes option list" where
  "sample_call hdr bs = [None, Some (take 20 hdr), None, Some (drop 20 hdr), Some [], Some bs]"

lemma sample_call_queue:
  "script_queue (sample_call hdr bs) = [take 20 hdr, drop 20 hdr] @ [[], bs]"
  "20 < length hdr \<Longrightarrow> [] \<notin> set [take 20 hdr, drop 20 hdr]"
  by (auto simp: sample_call_def)

lemma sample_call_bytes: "concat (script_queue (sample_call hdr bs)) = hdr @ bs"
  by (simp add: sample_call_def flip: append_assoc)

lemma length_sample_handshake: "20 < length (handshake_bytes q sample_secret)"
  by (simp add: handshake_bytes_def HEX_SIZE_def)

section \<open>Properties\<close>

text \<open>
  C21: The gRPC acceptor made from the configuration accepts a call only when a password is
  configured and the bytes of the messages begin with a Trojan header that carries its digest; what
  follows the header is still to be read, none of it lost in the buffer. This holds for every sender
  and every sequence of messages, cut in any way, with empty messages among them and whatever
  follows them.
\<close>

theorem grpc_accept_authenticated:
  assumes "feed_ext ext" and "message_source poll_next invar queue final delay" and "invar s"
    and "in_protocol cfg = TROJAN" and "GrpcAcceptor_new sha224 cfg None = (self, cell)"
    and "accept_hunk ext poll_next self s = (Ok q, g)"
  shows "\<exists>pw r sep1 sep2. in_secret cfg = Some pw \<and> wf_trojan r \<and> hex r = hex_secret sha224 pw \<and>
    q = trojan_into_request r \<and>
    concat (queue s) = trojan_header sep1 sep2 r @ buf g @ concat (queue (reader g))"
proof -
  have self: "ga_protocol self = TROJAN" "ga_secret self = secret_of sha224 TROJAN (in_secret cfg)"
    using assms(4,5) by (auto simp: GrpcAcceptor_new_def Let_def)
  obtain r sep1 sep2 where r: "wf_trojan r" "hex r = ga_secret self" "q = trojan_into_request r"
      "concat (queue s) = trojan_header sep1 sep2 r @ buf g @ concat (queue (reader g))"
    using accept_hunk_sound [OF assms(1-3) self(1) assms(6)] by blast
  then have "ga_secret self \<noteq> []"
    by (auto simp: wf_trojan_def HEX_SIZE_def)
  then obtain pw where "in_secret cfg = Some pw" "hex_secret sha224 pw = ga_secret self"
    using self(2) by (cases "in_secret cfg") (simp_all add: secret_of_def)
  with r show ?thesis by metis
qed

theorem grpc_accept_authenticated_witness:
  "\<exists>q g. accept_hunk poll_ext (script_next Eof) \<lparr>ga_protocol = TROJAN, ga_secret = sample_secret\<rparr>
       (sample_call (handshake_bytes (trojan_into_request sample_request) sample_secret) [7]) = (Ok q, g) \<and>
     (\<exists>r sep1 sep2. wf_trojan r \<and> hex r = sample_secret \<and>
       handshake_bytes (trojan_into_request sample_request) sample_secret @ [7] =
       trojan_header sep1 sep2 r @ buf g @ concat (script_queue (reader g)))"
proof -
  let ?acc = "\<lparr>ga_protocol = TROJAN, ga_secret = sample_secret\<rparr>"
  let ?hs = "handshake_bytes (trojan_into_request sample_request) sample_secret"
  let ?q = "(trojan_into_request sample_request)\<lparr>proxy_protocol := TROJAN\<rparr>"
  have new: "GrpcAcceptor_new sample_digest sample_inbound None = (?acc, Some ?acc)"
    by (simp add: GrpcAcceptor_new_def sample_inbound_def secret_of_def sample_digest_secret)
  obtain g where g: "accept_hunk poll_ext (script_next Eof) ?acc (sample_call ?hs [7]) = (Ok ?q, g)"
    using accept_hunk_handshake [OF poll_ext_feed.feed_ext_axioms messages.message_source_axioms [where e = Eof] _ _ _ wf_sample_request
        ip_sample_request sample_call_queue(1) _ sample_call_queue(2) [OF length_sample_handshake],
        where x = "[]" and self = ?acc] by auto
  from grpc_accept_authenticated [OF poll_ext_feed.feed_ext_axioms messages.message_source_axioms _ _ new g]
  have "\<exists>r sep1 sep2. wf_trojan r \<and> hex r = sample_secret \<and>
      ?hs @ [7] = trojan_header sep1 sep2 r @ buf g @ concat (script_queue (reader g))"
    by (auto simp: sample_call_bytes sample_inbound_def sample_digest_secret)
  with g show ?thesis by blast
qed

end
