(* ===== verification/Quic_Server.thy ===== *)
theory Quic_Server
  imports Tcp_Server
begin

text \<open>
  The QUIC server of \<^verbatim>\<open>src/proxy/quic/server.rs\<close>: what it does before it listens, the task it
  spawns for a connection, and the accept loop as a transition system in which connections arrive
  and tasks run in any order. The endpoint and the streams of \<^verbatim>\<open>quinn\<close> are arguments.
\<close>

section \<open>Starting\<close>

text \<open>
  \<open>endpoint\<close> is \<^verbatim>\<open>quinn::Endpoint::server\<close>. The accept loop ends, and with it the function,
  when the endpoint yields no further connection.
\<close>

definition quic_start ::
  "resolver \<Rightarrow> file_system \<Rightarrow> pemfile \<Rightarrow> (bytes list \<Rightarrow> bytes \<Rightarrow> string + ServerConfig) \<Rightarrow>
   (ServerConfig \<Rightarrow> SocketAddr \<Rightarrow> io_error option) \<Rightarrow> InboundConfig \<Rightarrow> ServerConfig outcome" where
  "quic_start dns fs pem single_cert endpoint inbound_config =
     bind_outcome (listen_address dns inbound_config) (\<lambda>address.
     bind_outcome (case in_tls inbound_config of
                     Some tls \<Rightarrow> make_server_config fs pem single_cert tls
                   | None \<Rightarrow> Panic ''called `Option::unwrap()` on a `None` value'') (\<lambda>server_crypto.
     bind_outcome (case server_crypto of
                     Some cfg \<Rightarrow> Ok cfg
                   | None \<Rightarrow> Panic ''called `Option::unwrap()` on a `None` value'') (\<lambda>config.
     case endpoint config address of
       None \<Rightarrow> Ok config
     | Some e \<Rightarrow> Panic (message e))))"

section \<open>The task of a connection\<close>

record 's quic_server_ops =
  qs_accept :: "('s, unit) async"
  qs_next :: "('s, (io_error + unit) option) async"
  qs_reader :: "'s reader"
  qs_writer :: "'s writer"
  qs_dns :: resolver
  qs_connect :: "SocketAddr \<Rightarrow> ('s, unit) async"
  qs_out_reader :: "'s reader"
  qs_out_writer :: "'s writer"
  qs_copy_buf :: nat
  qs_schedule :: "bool list"

definition quic_serve :: "'s quic_server_ops \<Rightarrow> ('s, unit) async" where
  "quic_serve io =
     await (amap trojan_into_request (unwrap (trojan_parse (qs_reader io)))) (\<lambda>request.
     await (eval_outcome (into_SocketAddr (qs_dns io) (addr_port request))) (\<lambda>addr.
     await (unwrap (qs_connect io addr)) (\<lambda>_.
     select_run (qs_schedule io)
       (copy_step (qs_copy_buf io) (qs_reader io) (qs_out_writer io))
       (copy_step (qs_copy_buf io) (qs_out_reader io) (qs_writer io)))))"

definition quic_connection_task :: "'s quic_server_ops \<Rightarrow> ('s, unit) async" where
  "quic_connection_task io s =
     (case qs_accept io s of
        (Err _, s') \<Rightarrow> (Ok (), s')
      | (Panic p, s') \<Rightarrow> (Panic p, s')
      | (Hang, s') \<Rightarrow> (Hang, s')
      | (Ok _, s') \<Rightarrow>
          await (qs_next io) (\<lambda>next_stream.
            case next_stream of
              None \<Rightarrow> return ()
            | Some (Inl e) \<Rightarrow> panic (message e)
            | Some (Inr _) \<Rightarrow> quic_serve io) s')"

section \<open>The accept loop\<close>

text \<open>
  A connection is remembered with the state it arrived in and, once its task has run, the state that
  run led to; the schedule of a run may end while the task still goes on. The loop ends when the
  endpoint yields no further connection, and the program, and with it every task, ends then.
\<close>

record 's quic_server =
  q_tasks :: "('s \<times> 's option) list"
  q_ended :: bool

definition quic_listening :: "'s quic_server" where
  "quic_listening = \<lparr>q_tasks = [], q_ended = False\<rparr>"

inductive quic_server_step :: "'s quic_server_ops \<Rightarrow> 's quic_server \<Rightarrow> 's quic_server \<Rightarrow> bool" for io where
  arrive: "\<not> q_ended v \<Longrightarrow> quic_server_step io v (v\<lparr>q_tasks := q_tasks v @ [(s, None)]\<rparr>)"
| closed: "\<not> q_ended v \<Longrightarrow> quic_server_step io v (v\<lparr>q_ended := True\<rparr>)"
| run: "\<not> q_ended v \<Longrightarrow> i < length (q_tasks v) \<Longrightarrow> q_tasks v ! i = (s, None) \<Longrightarrow>
    quic_connection_task (io\<lparr>qs_schedule := sched\<rparr>) s = (r, s') \<Longrightarrow>
    quic_server_step io v (v\<lparr>q_tasks := (q_tasks v)[i := (s, Some s')]\<rparr>)"

abbreviation quic_reachable :: "'s quic_server_ops \<Rightarrow> 's quic_server \<Rightarrow> bool" where
  "quic_reachable io v \<equiv> (quic_server_step io)\<^sup>*\<^sup>* quic_listening v"

fun quic_task_ok :: "'s quic_server_ops \<Rightarrow> 's \<times> 's option \<Rightarrow> bool" where
  "quic_task_ok io (s, None) \<longleftrightarrow> True"
| "quic_task_ok io (s, Some s') \<longleftrightarrow> (\<exists>sched r. quic_connection_task (io\<lparr>qs_schedule := sched\<rparr>) s = (r, s'))"

lemma quic_reachable_tasks:
  assumes "quic_reachable io v"
  shows "\<forall>t \<in> set (q_tasks v). quic_task_ok io t"
  using assms
proof (induction rule: rtranclp_induct)
  case base
  then show ?case by (simp add: quic_listening_def)
next
  case (step v v')
  from step.hyps(2) show ?case
  proof cases
    case (run i s sched r s')
    then have "quic_task_ok io (s, Some s')" by auto
    from ball_update [OF step.IH this] run(1) show ?thesis by simp
  qed (use step.IH in auto)
qed

section \<open>The contract of the endpoint\<close>

locale quic_endpoint =
  fixes io :: "'s quic_server_ops" and view :: "'s \<Rightarrow> 'm net" and route :: "SocketAddr \<Rightarrow> io_error + conn"
  assumes sim_accept: "tracks view (qs_accept io) (return ())"
    and sim_next_stream: "tracks view (qs_next io) (return (Some (Inr ())))"
    and client: "byte_stream (qs_reader io) cli_reader (qs_writer io) cli_writer (\<lambda>_. True) view (\<lambda>n. n)"
    and sim_connect [sim_intros]: "\<And>a. tracks view (qs_connect io a) (net_connect route a)"
    and server: "byte_stream (qs_out_reader io) srv_reader (qs_out_writer io) srv_writer (\<lambda>_. True) view (\<lambda>n. n)"
    and copy_buf_pos: "0 < qs_copy_buf io"
begin

lemma parts:
  "chunk_reader (qs_reader io) cli_reader (\<lambda>_. True) view (\<lambda>n. n)"
  "byte_writer (qs_writer io) cli_writer (\<lambda>_. True) view (\<lambda>n. n)"
  "chunk_reader (qs_out_reader io) srv_reader (\<lambda>_. True) view (\<lambda>n. n)"
  "byte_writer (qs_out_writer io) srv_writer (\<lambda>_. True) view (\<lambda>n. n)"
  using client server unfolding byte_stream_def by simp_all

lemma sim_serve:
  "tracks view (quic_serve io)
     (await (amap trojan_into_request (unwrap (trojan_parse cli_reader))) (\<lambda>request.
      await (eval_outcome (into_SocketAddr (qs_dns io) (addr_port request))) (\<lambda>addr.
      await (unwrap (net_connect route addr)) (\<lambda>_.
      select_run (qs_schedule io) (copy_step (qs_copy_buf io) cli_reader srv_writer)
        (copy_step (qs_copy_buf io) srv_reader cli_writer)))))"
  unfolding quic_serve_def
  by (intro sim_intros simulates_copy_step parts exact_reader.sim_trojan_parse [OF chunk_reader.axioms(1) [OF parts(1)]])

lemma any_schedule: "quic_endpoint (io\<lparr>qs_schedule := sched\<rparr>) view route"
  by (rule quic_endpoint.intro) (simp_all add: sim_accept sim_next_stream client sim_connect server copy_buf_pos)

lemma task_serve:
  assumes "quic_connection_task io s = (r, s')"
  shows "\<exists>t. view t = view s \<and> quic_serve io t = (r, s')"
proof -
  obtain t where t: "qs_accept io s = (Ok (), t)" "view t = view s"
    using tracks_run [OF sim_accept, of s "Ok ()" "view s"] by auto
  obtain u where u: "qs_next io t = (Ok (Some (Inr ())), u)" "view u = view t"
    using tracks_run [OF sim_next_stream, of t "Ok (Some (Inr ()))" "view t"] by auto
  have "quic_serve io u = (r, s')"
    using assms t(1) u(1) by (simp add: quic_connection_task_def await_def)
  with t(2) u(2) show ?thesis by auto
qed

end

definition net_quic_ops :: "(SocketAddr \<Rightarrow> io_error + conn) \<Rightarrow> resolver \<Rightarrow> bool list \<Rightarrow> 'm net quic_server_ops" where
  "net_quic_ops route dns sched =
     \<lparr>qs_accept = return (), qs_next = return (Some (Inr ())), qs_reader = cli_reader, qs_writer = cli_writer,
      qs_dns = dns, qs_connect = net_connect route, qs_out_reader = srv_reader, qs_out_writer = srv_writer,
      qs_copy_buf = 8192, qs_schedule = sched\<rparr>"

interpretation net_quic_server: quic_endpoint "net_quic_ops route dns sched" "\<lambda>n. n" route
  by unfold_locales (simp_all add: net_quic_ops_def simulates_refl)

text \<open>What a task does for a connection that begins with a well-formed header.\<close>

lemma quic_task_serves:
  assumes "quic_endpoint io view route" and "wf_trojan tr"
    and "inp (cli (view s)) = trojan_header sep1 sep2 tr @ payload"
    and "into_SocketAddr (qs_dns io) (IpAddrPort_new (tr_addr tr) (tr_port tr)) = Ok a" and "route a = Inr c"
    and "quic_connection_task io s = (r, s')"
  shows "(r = Ok () \<or> r = Hang) \<and> dialed (view s') = dialed (view s) @ [a] \<and>
    (\<exists>x. outp (srv (view s')) = outp c @ x \<and> prefix x payload) \<and>
    (\<exists>y. outp (cli (view s')) = outp (cli (view s)) @ y \<and> prefix y (inp c))"
proof -
  let ?n = "(view s)\<lparr>cli := (cli (view s))\<lparr>inp := payload\<rparr>\<rparr>"
  obtain t where t: "view t = view s" "quic_serve io t = (r, s')"
    using quic_endpoint.task_serve [OF assms(1,6)] by blast
  have "trojan_parse conn_reader (cli (view s)) = (Ok tr, (cli (view s))\<lparr>inp := payload\<rparr>)"
    unfolding trojan_parse_Ok using assms(2,3) by blast
  then have "trojan_parse cli_reader (view s) = (Ok tr, ?n)"
    by (simp add: cli.lift_trojan_parse lift_async_def)
  moreover have "addr_port (trojan_into_request tr) = IpAddrPort_new (tr_addr tr) (tr_port tr)"
    by (simp add: trojan_into_request_eq InboundRequest_new_def)
  ultimately have "select_run (qs_schedule io) (copy_step (qs_copy_buf io) cli_reader srv_writer)
      (copy_step (qs_copy_buf io) srv_reader cli_writer)
      (?n\<lparr>dialed := dialed (view s) @ [a], srv := c\<rparr>) = (r, view s')"
    using tracksD [OF quic_endpoint.sim_serve [OF assms(1)] t(2)] t(1) assms(4,5)
    by (simp add: amap_def unwrap_def await_def net_connect_def)
  from relay_both(1-4) [OF this quic_endpoint.copy_buf_pos [OF assms(1)]] show ?thesis by simp
qed

section \<open>Properties\<close>

text \<open>
  C40: The QUIC server serves everyone. In every reachable state of the server, a connection that
  began with a well-formed Trojan header, whatever stands in the place of the secret, and whose task
  has run, has had the destination it names dialled and the bytes that follow relayed, both ways:
  no configured secret takes part in the decision.
\<close>

theorem quic_serves_without_secret:
  assumes "quic_endpoint io view route" and "quic_reachable io v" and "(s, Some s') \<in> set (q_tasks v)"
    and "wf_trojan tr" and "inp (cli (view s)) = trojan_header sep1 sep2 tr @ payload"
    and "into_SocketAddr (qs_dns io) (IpAddrPort_new (tr_addr tr) (tr_port tr)) = Ok a" and "route a = Inr c"
  shows "dialed (view s') = dialed (view s) @ [a] \<and>
    (\<exists>x. outp (srv (view s')) = outp c @ x \<and> prefix x payload) \<and>
    (\<exists>y. outp (cli (view s')) = outp (cli (view s)) @ y \<and> prefix y (inp c))"
proof -
  obtain sched r where run: "quic_connection_task (io\<lparr>qs_schedule := sched\<rparr>) s = (r, s')"
    using quic_reachable_tasks [OF assms(2)] assms(3) by fastforce
  show ?thesis
    using quic_task_serves [OF quic_endpoint.any_schedule [OF assms(1)] assms(4,5) _ assms(7) run] assms(6) by simp
qed

theorem quic_serves_without_secret_witness:
  "\<exists>s' v. quic_reachable (net_quic_ops sample_route (\<lambda>_ _. Inr []) [True, False]) v \<and>
     q_tasks v = [(idle_net (peer (trojan_header CRLF CRLF sample_request @ [1, 2, 3])) :: Hunk net, Some s')] \<and>
     dialed s' = [SocketAddr (V4 0x7F000001) 80]"
proof -
  let ?io = "net_quic_ops sample_route (\<lambda>_ _. Inr []) [True, False] :: Hunk net quic_server_ops"
  let ?n = "idle_net (peer (trojan_header CRLF CRLF sample_request @ [1, 2, 3])) :: Hunk net"
  let ?s = "snd (quic_connection_task ?io ?n)"
  let ?v = "\<lparr>q_tasks = [(?n, Some ?s)], q_ended = False\<rparr>"
  have tr: "tr_addr sample_request = from_u32 0x7F000001" "tr_port sample_request = 80"
    by (simp_all add: sample_request_def TrojanRequest_new_def)
  have sched: "?io\<lparr>qs_schedule := [True, False]\<rparr> = ?io"
    by (simp add: net_quic_ops_def)
  have "quic_server_step ?io quic_listening \<lparr>q_tasks = [(?n, None)], q_ended = False\<rparr>"
    using quic_server_step.arrive [of quic_listening ?io ?n] by (simp add: quic_listening_def)
  moreover have "quic_server_step ?io \<lparr>q_tasks = [(?n, None)], q_ended = False\<rparr> ?v"
    using quic_server_step.run [where v = "\<lparr>q_tasks = [(?n, None)], q_ended = False\<rparr>" and i = 0 and s = ?n and io = ?io
        and sched = "[True, False]" and r = "fst (quic_connection_task ?io ?n)" and s' = ?s] by (simp add: sched)
  ultimately have reach: "quic_reachable ?io ?v"
    by (meson rtranclp.rtrancl_into_rtrancl rtranclp.rtrancl_refl)
  have "dialed ?s = [SocketAddr (V4 0x7F000001) 80]"
    using quic_serves_without_secret [OF net_quic_server.quic_endpoint_axioms reach,
        where s = ?n and s' = ?s and tr = sample_request and ?sep1.0 = CRLF and ?sep2.0 = CRLF and payload = "[1, 2, 3]"
          and a = "SocketAddr (V4 0x7F000001) 80" and c = "peer [9]"]
    by (simp add: sample_route_def tr)
  with reach show ?thesis by (intro exI [of _ ?s] exI [of _ ?v]) simp
qed

end
