(* ===== verification/Main_Program.thy ===== *)
theory Main_Program
  imports Grpc_Proxy Quic_Server
begin

text \<open>
  The program of \<^verbatim>\<open>src/main.rs\<close>: it describes its command line, reads the configuration file and
  starts the server of the inbound mode. The environment holds what the program takes from the
  system and from libraries.
\<close>

section \<open>The command line\<close>

text \<open>What the program hands to the argument parser \<^verbatim>\<open>clap\<close>.\<close>

record arg_spec =
  arg_name :: string
  arg_short :: char
  arg_long :: string
  arg_value_name :: string
  arg_help :: string
  arg_takes_value :: bool

record command_spec =
  cmd_name :: string
  cmd_version :: string
  cmd_author :: string
  cmd_about :: string
  cmd_args :: "arg_spec list"

definition command_line :: command_spec where
  "command_line =
     \<lparr>cmd_name = ''Trojan Rust'', cmd_version = ''0.7.1'', cmd_author = ''cty123'',
      cmd_about = ''Trojan Rust is a rust implementation of the trojan protocol to circumvent GFW'',
      cmd_args =
        [\<lparr>arg_name = ''config'', arg_short = CHR ''c'', arg_long = ''config'', arg_value_name = ''FILE'',
          arg_help = ''Sets the config file, read ./config/config.json by default'', arg_takes_value = True\<rparr>]\<rparr>"

section \<open>The program\<close>

text \<open>
  \<open>env_matches\<close> gives the value of each argument, as the argument parser found it on the command
  line of the process; on a command line that does not fit the description the parser ends the
  process.
\<close>

record environment =
  env_matches :: "command_spec \<Rightarrow> string \<Rightarrow> string option"
  env_files :: file_system
  env_json :: "bytes \<Rightarrow> string + Config"
  env_dns :: resolver
  env_sha224 :: "bytes \<Rightarrow> bytes"
  env_pem :: pemfile
  env_single_cert :: "bytes list \<Rightarrow> bytes \<Rightarrow> string + ServerConfig"
  env_roots :: "bytes list"
  env_server_name :: "string \<Rightarrow> string + string"
  env_bind :: "SocketAddr \<Rightarrow> io_error option"
  env_grpc_tls :: "bytes \<Rightarrow> bytes \<Rightarrow> string option"
  env_grpc_serve :: "SocketAddr \<Rightarrow> (bytes \<times> bytes) option \<Rightarrow> GrpcProxyService \<Rightarrow> string option"
  env_quic_endpoint :: "ServerConfig \<Rightarrow> SocketAddr \<Rightarrow> io_error option"

definition ARGS :: "environment \<Rightarrow> string \<Rightarrow> string option" where
  "ARGS env = env_matches env command_line"

definition CONFIG_PATH :: "environment \<Rightarrow> string" where
  "CONFIG_PATH env = (case ARGS env ''config'' of Some path \<Rightarrow> path | None \<Rightarrow> ''./config/config.json'')"

definition CONFIG :: "environment \<Rightarrow> (InboundConfig \<times> OutboundConfig) outcome" where
  "CONFIG env =
     (case read_config (env_files env) (env_json env) (CONFIG_PATH env) of
        Inr config \<Rightarrow> Ok (inbound config, outbound config)
      | Inl e \<Rightarrow> Panic (''Error parsing the config file: '' @ message e))"

text \<open>
  What the start function of a mode has set up when it reaches its accept loop; the accept loop of
  the gRPC server lies inside \<^verbatim>\<open>serve\<close>.
\<close>

datatype service = Tcp_Service TcpAcceptor TcpHandler | Grpc_Service GrpcProxyService | Quic_Service ServerConfig

definition main_program :: "environment \<Rightarrow> service outcome" where
  "main_program env =
     bind_outcome (CONFIG env) (\<lambda>(inb, outb).
     case in_mode inb of
       InboundTCP \<Rightarrow>
         bind_outcome (tcp_start (env_dns env) (env_bind env) (env_files env) (env_pem env) (env_single_cert env)
           (env_roots env) (env_server_name env) (env_sha224 env) inb outb) (\<lambda>(acceptor, handler).
         Ok (Tcp_Service acceptor handler))
     | InboundGRPC \<Rightarrow>
         bind_outcome (grpc_start (env_dns env) (env_files env) (env_grpc_tls env) (env_grpc_serve env)
           (env_sha224 env) inb) (\<lambda>service. Ok (Grpc_Service service))
     | InboundQUIC \<Rightarrow>
         bind_outcome (quic_start (env_dns env) (env_files env) (env_pem env) (env_single_cert env)
           (env_quic_endpoint env) inb) (\<lambda>cfg. Ok (Quic_Service cfg)))"

lemma bind_outcome_Ok: "bind_outcome m f = Ok b \<longleftrightarrow> (\<exists>a. m = Ok a \<and> f a = Ok b)"
  by (cases m) auto

text \<open>A running TCP service was made from the configuration by the two initialisers.\<close>

lemma main_tcp:
  assumes "main_program env = Ok (Tcp_Service acceptor handler)"
  obtains inb outb where "CONFIG env = Ok (inb, outb)"
    "TcpAcceptor_init (env_files env) (env_pem env) (env_single_cert env) (env_sha224 env) inb None = Ok (acceptor, Some acceptor)"
    "TcpHandler_init (env_roots env) (env_server_name env) (env_sha224 env) outb None = Ok (handler, Some handler)"
proof -
  obtain inb outb where c: "CONFIG env = Ok (inb, outb)"
    using assms by (auto simp: main_program_def bind_outcome_Ok)
  have "tcp_start (env_dns env) (env_bind env) (env_files env) (env_pem env) (env_single_cert env)
      (env_roots env) (env_server_name env) (env_sha224 env) inb outb = Ok (acceptor, handler)"
    using assms c by (cases "in_mode inb") (auto simp: main_program_def bind_outcome_Ok)
  then obtain ca ch where
    "TcpAcceptor_init (env_files env) (env_pem env) (env_single_cert env) (env_sha224 env) inb None = Ok (acceptor, ca)"
    "TcpHandler_init (env_roots env) (env_server_name env) (env_sha224 env) outb None = Ok (handler, ch)"
    by (auto simp: tcp_start_def bind_outcome_Ok)
  moreover from this have "ca = Some acceptor" "ch = Some handler"
    by (auto simp: TcpAcceptor_init_Ok TcpHandler_init_def bind_outcome_Ok Let_def)
  ultimately show thesis
    using that c by simp
qed

lemma main_tcp_fields:
  assumes "main_program env = Ok (Tcp_Service acceptor handler)" and "CONFIG env = Ok (inb, outb)"
  shows "acc_protocol acceptor = in_protocol inb"
    and "acc_secret acceptor = secret_of (env_sha224 env) (in_protocol inb) (in_secret inb)"
    and "h_mode handler = out_mode outb" and "h_protocol handler = out_protocol outb"
    and "h_secret handler = secret_of (env_sha224 env) (out_protocol outb) (out_secret outb)"
    and "acc_port acceptor = in_port inb"
proof -
  have init:
    "TcpAcceptor_init (env_files env) (env_pem env) (env_single_cert env) (env_sha224 env) inb None = Ok (acceptor, Some acceptor)"
    "TcpHandler_init (env_roots env) (env_server_name env) (env_sha224 env) outb None = Ok (handler, Some handler)"
    using main_tcp [OF assms(1)] assms(2) by auto
  from init(1) show "acc_protocol acceptor = in_protocol inb" "acc_port acceptor = in_port inb"
      "acc_secret acceptor = secret_of (env_sha224 env) (in_protocol inb) (in_secret inb)"
    by (auto simp: TcpAcceptor_init_Ok)
  from init(2) show "h_mode handler = out_mode outb" "h_protocol handler = out_protocol outb"
      "h_secret handler = secret_of (env_sha224 env) (out_protocol outb) (out_secret outb)"
    by (auto simp: TcpHandler_init_def bind_outcome_Ok Let_def)
qed

text \<open>A running gRPC service knows the configured protocol and secret.\<close>

lemma main_grpc:
  assumes "main_program env = Ok (Grpc_Service service)" and "CONFIG env = Ok (inb, outb)"
  shows "service = GrpcProxyService_new (fst (GrpcAcceptor_new (env_sha224 env) inb None)) (fst (GrpcHandler_new None))"
  using assms
  by (cases "in_mode inb") (auto simp: main_program_def bind_outcome_Ok grpc_start_def Let_def split: option.splits)

section \<open>Sample environments\<close>

text \<open>A machine with one configuration file, which resolves every name to one address.\<close>

definition sample_env :: "InboundConfig \<Rightarrow> OutboundConfig \<Rightarrow> environment" where
  "sample_env inb outb =
     \<lparr>env_matches = (\<lambda>_ _. None), env_files = (\<lambda>_. Inr []), env_json = (\<lambda>_. Inr \<lparr>inbound = inb, outbound = outb\<rparr>),
      env_dns = (\<lambda>_ p. Inr [SocketAddr (V4 0) p]), env_sha224 = sample_digest, env_pem = no_pem,
      env_single_cert = (\<lambda>_ _. Inl ''no key''), env_roots = [], env_server_name = Inr,
      env_bind = (\<lambda>_. None), env_grpc_tls = (\<lambda>_ _. None), env_grpc_serve = (\<lambda>_ _ _. None),
      env_quic_endpoint = (\<lambda>_ _. None)\<rparr>"

definition sample_outbound_config :: "OutboundMode \<Rightarrow> string option \<Rightarrow> u16 option \<Rightarrow> OutboundConfig" where
  "sample_outbound_config mode addr p =
     \<lparr>out_mode = mode, out_protocol = TROJAN, out_address = addr, out_port = p, out_secret = Some ''pw'', out_tls = None\<rparr>"

lemma CONFIG_sample: "CONFIG (sample_env inb outb) = Ok (inb, outb)"
  by (simp add: CONFIG_def sample_env_def read_config_def)

lemma main_sample_client:
  "main_program (sample_env sample_inbound (sample_outbound_config OutboundTCP (Some (ipv4_fmt 1)) (Some 443))) =
     Ok (Tcp_Service sample_acceptor sample_handler)"
  using parse_ipv4_socket [of 1 443]
  by (simp add: main_program_def CONFIG_sample)
    (simp add: sample_env_def sample_inbound_def tcp_start_def listen_address_def sample_outbound_config_def
      TcpHandler_init_def TcpAcceptor_init_def secret_of_def sample_digest_secret sample_acceptor_def sample_handler_def)

lemma main_sample_server:
  "main_program (sample_env sample_inbound (sample_outbound_config OutboundDIRECT None None)) =
     Ok (Tcp_Service sample_acceptor (sample_handler\<lparr>h_mode := OutboundDIRECT, h_destination := None\<rparr>))"
  by (simp add: main_program_def CONFIG_sample)
    (simp add: sample_env_def sample_inbound_def tcp_start_def listen_address_def sample_outbound_config_def
      TcpHandler_init_def TcpAcceptor_init_def secret_of_def sample_digest_secret sample_acceptor_def sample_handler_def)

definition sample_grpc_service :: GrpcProxyService where
  "sample_grpc_service =
     GrpcProxyService_new \<lparr>ga_protocol = TROJAN, ga_secret = sample_secret\<rparr> \<lparr>gh_protocol = TROJAN\<rparr>"

lemma main_sample_grpc:
  "main_program (sample_env (sample_inbound\<lparr>in_mode := InboundGRPC\<rparr>) outb) = Ok (Grpc_Service sample_grpc_service)"
  by (simp add: main_program_def CONFIG_sample)
    (simp add: sample_env_def sample_inbound_def grpc_start_def sample_grpc_service_def GrpcAcceptor_new_def
      GrpcHandler_new_def secret_of_def sample_digest_secret Let_def)

definition sample_socks_acceptor :: TcpAcceptor where
  "sample_socks_acceptor = sample_acceptor\<lparr>acc_protocol := SOCKS, acc_secret := []\<rparr>"

lemma main_sample_socks:
  "main_program (sample_env (sample_inbound\<lparr>in_protocol := SOCKS\<rparr>)
     (sample_outbound_config OutboundTCP (Some (ipv4_fmt 1)) (Some 443))) =
     Ok (Tcp_Service sample_socks_acceptor sample_handler)"
  using parse_ipv4_socket [of 1 443]
  by (simp add: main_program_def CONFIG_sample)
    (simp add: sample_env_def sample_inbound_def tcp_start_def listen_address_def sample_outbound_config_def
      TcpHandler_init_def TcpAcceptor_init_def secret_of_def sample_digest_secret sample_acceptor_def sample_handler_def
      sample_socks_acceptor_def)

lemma main_sample_grpc_client:
  "main_program (sample_env sample_inbound (sample_outbound_config OutboundGRPC (Some (ipv4_fmt 1)) (Some 443))) =
     Ok (Tcp_Service sample_acceptor (sample_handler\<lparr>h_mode := OutboundGRPC\<rparr>))"
  using parse_ipv4_socket [of 1 443]
  by (simp add: main_program_def CONFIG_sample)
    (simp add: sample_env_def sample_inbound_def tcp_start_def listen_address_def sample_outbound_config_def
      TcpHandler_init_def TcpAcceptor_init_def secret_of_def sample_digest_secret sample_acceptor_def sample_handler_def)

end
