(* ===== verification/Grpc_Client.thy ===== *)
theory Grpc_Client
  imports Tcp_Handler
begin

text \<open>
  The gRPC mode of the TCP handler on the abstract network: the contract of the gRPC client, the
  invariant of the two loops that feed the channel and drain the response stream, and what the
  remote server and the local client receive.
\<close>

section \<open>The contract of the client\<close>

locale grpc_client_io =
  fixes inb :: "'s inbound_io" and io :: "'s outbound_io" and view :: "'s \<Rightarrow> Hunk net"
    and reach :: "string \<Rightarrow> io_error option" and tun_check :: "io_error option"
  assumes client: "\<And>h. byte_stream (stream_reader inb h) cli_reader (stream_writer inb h) cli_writer
      (\<lambda>_. True) view (\<lambda>n. n)"
    and sim_grpc_connect [sim_intros]: "\<And>uri. tracks view (grpc_connect io uri) (net_check (reach uri))"
    and tx: "msg_sender (grpc_tx io) net_sender (\<lambda>_. True) view (\<lambda>n. n)"
    and sim_tun [sim_intros]: "tracks view (grpc_tun io) (net_check tun_check)"
    and sim_next [sim_intros]: "tracks view (grpc_next io) net_next"
begin

lemma client_parts:
  "chunk_reader (stream_reader inb h) cli_reader (\<lambda>_. True) view (\<lambda>n. n)"
  "byte_writer (stream_writer inb h) cli_writer (\<lambda>_. True) view (\<lambda>n. n)"
  using client [of h] unfolding byte_stream_def by simp_all

lemma sim_up [sim_intros]:
  "tracks view (client_to_grpc_writer_step (stream_reader inb h) (grpc_tx io)) (client_to_grpc_writer_step cli_reader net_sender)"
  unfolding client_to_grpc_writer_step_def
  by (intro sim_intros chunk_reader.sim_read [OF client_parts(1)] msg_sender.sim_send [OF tx])

lemma sim_down [sim_intros]:
  "tracks view (copy_server_grpc_reader_to_client_writer (grpc_next io) (stream_writer inb h))
     (copy_server_grpc_reader_to_client_writer net_next cli_writer)"
  unfolding copy_server_grpc_reader_to_client_writer_def
  by (intro sim_intros)
    (auto intro!: sim_intros byte_writer.sim_write_all [OF client_parts(2), simplified] split: option.split sum.split)

end

section \<open>The two loops\<close>

text \<open>
  What went into the channel is what was taken from the client, or less when the channel is closed;
  what was written to the client is what was taken from the response stream, or less when the
  client has stopped accepting.
\<close>

definition tunnelling :: "Hunk net \<Rightarrow> Hunk net \<Rightarrow> bool" where
  "tunnelling s t \<longleftrightarrow>
     fed data (inp (cli s)) (msgs (chan s)) (cli t) (chan t) \<and>
     (\<exists>v y. concat (inbox s) = v @ concat (inbox t) \<and> outp (cli t) = outp (cli s) @ y \<and> prefix y v \<and>
        (y = v \<or> blocked (oend (cli t)))) \<and> dialed t = dialed s"

lemma tunnelling_start: "tunnelling s s"
  unfolding tunnelling_def by (intro conjI fed_start exI [of _ "[]"]) simp_all

lemma up_net:
  "client_to_grpc_writer_step cli_reader net_sender s =
     (case conn_read 4096 (cli s) of
        (Ok bs, a) \<Rightarrow>
          (case map_err (\<lambda>e. Error ConnectionReset (''Failed to send back server data, '' @ message e))
                  (chan_send \<lparr>data = bs\<rparr>) (chan s) of (r, c) \<Rightarrow> (r, s\<lparr>cli := a, chan := c\<rparr>))
      | (Err e, a) \<Rightarrow> (Err e, s\<lparr>cli := a\<rparr>)
      | (Panic p, a) \<Rightarrow> (Panic p, s\<lparr>cli := a\<rparr>)
      | (Hang, a) \<Rightarrow> (Hang, s\<lparr>cli := a\<rparr>))"
  by (simp add: client_to_grpc_writer_step_def await_def lift_async_def map_err_def chan_ops_def
      split: prod.split outcome.split)

lemma tunnelling_up:
  assumes "tunnelling s t" and "client_to_grpc_writer_step cli_reader net_sender t = (q, t')"
  shows "tunnelling s t' \<and> (\<forall>p. q \<noteq> Panic p)"
proof -
  obtain rr a where rd: "conn_read 4096 (cli t) = (rr, a)" by (cases "conn_read 4096 (cli t)")
  have up: "fed data (inp (cli s)) (msgs (chan s)) (cli t) (chan t)"
    using assms(1) unfolding tunnelling_def by (elim conjE)
  note keep = conn_read_keeps [OF rd]
  show ?thesis
  proof (cases rr)
    case (Ok bs)
    obtain rs c where sd: "chan_send \<lparr>data = bs\<rparr> (chan t) = (rs, c)"
      by (cases "chan_send \<lparr>data = bs\<rparr> (chan t)")
    have t': "t' = t\<lparr>cli := a, chan := c\<rparr>" "\<forall>p. q \<noteq> Panic p"
      using assms(2) rd Ok sd chan_send_split [OF sd] by (cases rs; auto simp: up_net map_err_def)+
    have "fed data (inp (cli s)) (msgs (chan s)) a c"
      by (rule fed_send [OF up rd [unfolded Ok] sd]) simp
    with assms(1) t' keep show ?thesis
      unfolding tunnelling_def by simp
  next
    case (Panic p)
    with keep(3) [of p] show ?thesis by simp
  qed (use assms rd keep fed_read [OF up rd] in \<open>auto simp: up_net tunnelling_def\<close>)
qed

lemma down_net:
  "copy_server_grpc_reader_to_client_writer net_next cli_writer s =
     (case inbox s of
        d # ds \<Rightarrow> (case conn_write_all d (cli s) of
                     (r, c) \<Rightarrow> (bind_outcome r (\<lambda>_. Ok True), s\<lparr>inbox := ds, cli := c\<rparr>))
      | [] \<Rightarrow> (case inend s of Eof \<Rightarrow> Ok False
               | Broken e \<Rightarrow> Err (Error ConnectionReset ''Received error from GRPC server'')
               | Open \<Rightarrow> Hang, s))"
  by (auto simp: copy_server_grpc_reader_to_client_writer_def await_def net_next_def lift_async_def
      split: list.split ending.split prod.split outcome.split)

lemma tunnelling_down:
  assumes "tunnelling s t" and "copy_server_grpc_reader_to_client_writer net_next cli_writer t = (q, t')"
  shows "tunnelling s t' \<and> (\<forall>p. q \<noteq> Panic p)"
proof (cases "inbox t")
  case Nil
  with assms show ?thesis
    by (auto simp: down_net split: ending.splits)
next
  case (Cons d ds)
  obtain r c where wr: "conn_write_all d (cli t) = (r, c)" by (cases "conn_write_all d (cli t)")
  have t': "t' = t\<lparr>inbox := ds, cli := c\<rparr>" "q = bind_outcome r (\<lambda>_. Ok True)"
    using assms(2) Cons wr by (simp_all add: down_net)
  obtain v y where dn: "concat (inbox s) = v @ concat (inbox t)" "outp (cli t) = outp (cli s) @ y" "prefix y v"
      "y = v \<or> blocked (oend (cli t))"
    using assms(1) unfolding tunnelling_def by (elim exE conjE)
  have "inp c = inp (cli t) \<and> (\<forall>p. r \<noteq> Panic p) \<and> (\<exists>z. outp c = outp (cli t) @ z \<and> prefix z d \<and>
      (z = d \<or> blocked (oend c)) \<and> (blocked (oend (cli t)) \<longrightarrow> z = [] \<and> blocked (oend c)))"
  proof (cases "d = []")
    case True
    with wr show ?thesis
      by (cases "oend (cli t)") (auto simp: conn_write_all_def)
  qed (use conn_write_split [OF wr] in blast)
  then obtain z where z: "inp c = inp (cli t)" "\<forall>p. r \<noteq> Panic p" "outp c = outp (cli t) @ z" "prefix z d"
      "z = d \<or> blocked (oend c)" "blocked (oend (cli t)) \<longrightarrow> z = [] \<and> blocked (oend c)"
    by (elim exE conjE)
  have "\<exists>v y. concat (inbox s) = v @ concat ds \<and> outp c = outp (cli s) @ y \<and> prefix y v \<and> (y = v \<or> blocked (oend c))"
    using dn z(3-6) Cons
    by (intro exI [of _ "v @ d"] exI [of _ "y @ z"]) (cases "y = v"; auto simp: prefix_prefix)
  moreover have "\<forall>p. q \<noteq> Panic p"
    using t'(2) z(2) by (cases r) auto
  moreover have "fed data (inp (cli s)) (msgs (chan s)) c (chan t)" "dialed t = dialed s"
    using assms(1) fed_same [OF _ z(1), of data "inp (cli s)" "msgs (chan s)" "chan t"]
    unfolding tunnelling_def by blast+
  ultimately show ?thesis
    using t'(1) unfolding tunnelling_def by simp
qed

lemma tunnel_run:
  assumes "select_run sched (body_task (client_to_grpc_writer_step cli_reader net_sender))
      (copy_server_grpc_reader_to_client_writer net_next cli_writer) s = (r, s')"
  shows "tunnelling s s' \<and> (\<forall>p. r \<noteq> Panic p)"
proof -
  have up: "tunnelling s t' \<and> (\<forall>p. q \<noteq> Panic p)"
    if "tunnelling s t" "body_task (client_to_grpc_writer_step cli_reader net_sender) t = (q, t')" for t q t'
  proof -
    obtain q0 t0 where "client_to_grpc_writer_step cli_reader net_sender t = (q0, t0)"
      by (cases "client_to_grpc_writer_step cli_reader net_sender t")
    with tunnelling_up [OF that(1) this] that(2) show ?thesis
      by (cases q0) (auto simp: body_task_def amap_def await_def)
  qed
  let ?up = "body_task (client_to_grpc_writer_step cli_reader net_sender)"
  let ?down = "copy_server_grpc_reader_to_client_writer net_next cli_writer"
  have inv: "tunnelling s s' \<and> (r = Hang \<or> (\<exists>t q. tunnelling s t \<and> (?up t = (q, s') \<or> ?down t = (q, s')) \<and>
    (r = Ok () \<and> (q = Ok False \<or> (\<exists>e. q = Err e)) \<or> (\<exists>p. r = Panic p \<and> q = Panic p))))"
    by (rule select_run_invariant [OF tunnelling_start assms])
      (erule (1) up [THEN conjunct1], erule (1) tunnelling_down [THEN conjunct1])
  have "r \<noteq> Panic p" for p
  proof
    assume "r = Panic p"
    with inv obtain t where "tunnelling s t" "?up t = (Panic p, s') \<or> ?down t = (Panic p, s')"
      by auto
    then show False
      using up [of t "Panic p" s'] tunnelling_down [of s t "Panic p" s'] by auto
  qed
  with inv show ?thesis by simp
qed

text \<open>The loop towards the server does not end with its input: it goes on sending empty messages.\<close>

lemma grpc_uplink_spins:
  assumes "iend (cli n) = Eof" and "cend (chan n) = Accepting"
  shows "copy_client_reader_to_server_grpc_writer cli_reader net_sender n = None"
  unfolding copy_client_reader_to_server_grpc_writer_def
proof (rule loop_diverges [where P = "\<lambda>n. iend (cli n) = Eof \<and> cend (chan n) = Accepting"])
  show "\<exists>t'. client_to_grpc_writer_step cli_reader net_sender t = (Ok (), t') \<and>
      iend (cli t') = Eof \<and> cend (chan t') = Accepting" if "iend (cli t) = Eof \<and> cend (chan t) = Accepting" for t :: "Hunk net"
    using that by (auto simp: up_net conn_read_def Let_def map_err_def chan_send_def)
qed (use assms in simp)

section \<open>The handler\<close>

context grpc_client_io
begin

lemma sim_grpc:
  assumes "h_destination self = Some a" and "command q = Connect"
  shows "tracks view (handle_grpc_stream inb io self q h)
    (await (map_err (\<lambda>_. Error ConnectionRefused ''Failed to connect to remote GRPC server'')
       (net_check (reach ((case h_tls self of None \<Rightarrow> ''http://'' | Some _ \<Rightarrow> ''https://'') @ SocketAddr_fmt a)))) (\<lambda>_.
     await (map_err (\<lambda>_. Error ConnectionRefused ''Failed to send trojan request'')
       (send net_sender \<lparr>data = handshake_bytes q (h_secret self)\<rparr>)) (\<lambda>_.
     await (map_err (\<lambda>_. Error ConnectionRefused ''failed to write request data'') (net_check tun_check)) (\<lambda>_.
     select_run (schedule io) (body_task (client_to_grpc_writer_step cli_reader net_sender))
       (copy_server_grpc_reader_to_client_writer net_next cli_writer)))))"
proof -
  obtain c where c: "handshake cursor_writer q (h_secret self) (Cursor_new (replicate 512 0)) = (Ok (), c)"
      "cursor_result c = handshake_bytes q (h_secret self)"
    using cursor_build [OF byte_writer.sim_handshake [OF cursor.byte_writer_axioms] writes_handshake] by blast
  have eq: "handle_grpc_stream inb io self q h =
    await (map_err (\<lambda>_. Error ConnectionRefused ''Failed to connect to remote GRPC server'')
       (grpc_connect io ((case h_tls self of None \<Rightarrow> ''http://'' | Some _ \<Rightarrow> ''https://'') @ SocketAddr_fmt a))) (\<lambda>_.
     await (map_err (\<lambda>_. Error ConnectionRefused ''Failed to send trojan request'')
       (send (grpc_tx io) \<lparr>data = handshake_bytes q (h_secret self)\<rparr>)) (\<lambda>_.
     await (map_err (\<lambda>_. Error ConnectionRefused ''failed to write request data'') (grpc_tun io)) (\<lambda>_.
     select_run (schedule io) (body_task (client_to_grpc_writer_step (stream_reader inb h) (grpc_tx io)))
       (copy_server_grpc_reader_to_client_writer (grpc_next io) (stream_writer inb h)))))"
    unfolding handle_grpc_stream_def using assms c
    by (simp add: Let_def await_eval_Ok cursor_result_def split: option.split)
  show ?thesis
    unfolding eq by (intro sim_intros simulates_body_task msg_sender.sim_send [OF tx])
qed

end

interpretation net_grpc: grpc_client_io net_inbound "net_outbound route tls_check dns sched" "\<lambda>n. n" "\<lambda>_. None" None
  by unfold_locales (simp_all add: net_inbound_def net_outbound_def net_check_None simulates_refl)

text \<open>The account of gRPC mode, from the header to the end of the two loops.\<close>

lemma grpc_relayed:
  assumes "grpc_client_io inb io view (\<lambda>_. None) None" and "h_destination self = Some a" and "command q = Connect"
    and "cend (chan (view s)) = Accepting" and "handle_grpc_stream inb io self q h s = (r, s')"
  shows "(\<forall>p. r \<noteq> Panic p) \<and>
    (\<exists>new. msgs (chan (view s')) = msgs (chan (view s)) @ \<lparr>data = handshake_bytes q (h_secret self)\<rparr> # new \<and>
       prefix (concat (map data new)) (inp (cli (view s))) \<and>
       (\<not> blocked (cend (chan (view s'))) \<longrightarrow> inp (cli (view s)) = concat (map data new) @ inp (cli (view s')))) \<and>
    (\<exists>y. outp (cli (view s')) = outp (cli (view s)) @ y \<and> prefix y (concat (inbox (view s))))"
proof -
  let ?n = "(view s)\<lparr>chan := (chan (view s))\<lparr>msgs := msgs (chan (view s)) @ [\<lparr>data = handshake_bytes q (h_secret self)\<rparr>]\<rparr>\<rparr>"
  have "select_run (schedule io) (body_task (client_to_grpc_writer_step cli_reader net_sender))
      (copy_server_grpc_reader_to_client_writer net_next cli_writer) ?n = (r, view s')"
    using tracksD [OF grpc_client_io.sim_grpc [OF assms(1-3)] assms(5)] assms(4)
    by (simp add: net_check_None map_err_def await_def lift_async_def chan_ops_def chan_send_def)
  from tunnel_run [OF this]
  obtain u new v y where t: "\<forall>p. r \<noteq> Panic p" "inp (cli (view s)) = u @ inp (cli (view s'))"
      "msgs (chan (view s')) = msgs (chan (view s)) @ \<lparr>data = handshake_bytes q (h_secret self)\<rparr> # new"
      "prefix (concat (map data new)) u" "concat (map data new) = u \<or> blocked (cend (chan (view s')))"
      "concat (inbox (view s)) = v @ concat (inbox (view s'))" "outp (cli (view s')) = outp (cli (view s)) @ y"
      "prefix y v"
    unfolding tunnelling_def fed_def by (auto simp del: concat_append)
  have "prefix (concat (map data new)) (inp (cli (view s)))" "prefix y (concat (inbox (view s)))"
    using t(2,4,6,8) by (metis prefix_prefix)+
  with t show ?thesis by auto
qed

section \<open>Properties\<close>

text \<open>
  C20: gRPC mode. Once the remote service is reached, the messages sent to it are, under every
  schedule, the header of the request in a message of its own followed by messages whose bytes are
  a prefix of what the client sent, and the client receives a prefix of the bytes of the response
  messages; nothing panics. While the channel is open nothing taken from the client is missing.
\<close>

theorem grpc_relay:
  assumes "grpc_client_io inb io view (\<lambda>_. None) None" and "h_destination self = Some a" and "command q = Connect"
    and "cend (chan (view s)) = Accepting" and "handle_grpc_stream inb io self q h s = (r, s')"
  shows "(\<forall>p. r \<noteq> Panic p) \<and>
    (\<exists>new. msgs (chan (view s')) = msgs (chan (view s)) @ \<lparr>data = handshake_bytes q (h_secret self)\<rparr> # new \<and>
       prefix (concat (map data new)) (inp (cli (view s))) \<and>
       (\<not> blocked (cend (chan (view s'))) \<longrightarrow> inp (cli (view s)) = concat (map data new) @ inp (cli (view s')))) \<and>
    (\<exists>y. outp (cli (view s')) = outp (cli (view s)) @ y \<and> prefix y (concat (inbox (view s))))"
  by (rule grpc_relayed [OF assms])

theorem grpc_relay_witness:
  "\<exists>r s' new. handle_grpc_stream net_inbound (sample_outbound [True]) sample_handler (trojan_into_request sample_request)
     (Plain ()) (idle_net (peer [1, 2, 3])) = (r, s') \<and>
     msgs (chan s') = \<lparr>data = handshake_bytes (trojan_into_request sample_request) sample_secret\<rparr> # new \<and>
     prefix (concat (map data new)) [1, 2, 3]"
proof -
  let ?run = "handle_grpc_stream net_inbound (sample_outbound [True]) sample_handler (trojan_into_request sample_request)
     (Plain ()) (idle_net (peer [1, 2, 3]))"
  have io: "grpc_client_io net_inbound (sample_outbound [True]) (\<lambda>n. n) (\<lambda>_. None) None"
    unfolding sample_outbound_def by (rule net_grpc.grpc_client_io_axioms)
  have q: "command (trojan_into_request sample_request) = Connect"
    by (simp add: trojan_into_request_eq InboundRequest_new_def sample_request_def TrojanRequest_new_def)
  have "?run = (fst ?run, snd ?run)" by simp
  from grpc_relay [OF io _ q _ this]
  obtain new where "msgs (chan (snd ?run)) = \<lparr>data = handshake_bytes (trojan_into_request sample_request) sample_secret\<rparr> # new"
      "prefix (concat (map data new)) [1, 2, 3]"
    by (auto simp: sample_handler_def)
  then show ?thesis
    by (intro exI [of _ "fst ?run"] exI [of _ "snd ?run"] exI [of _ new]) simp
qed

end
