(* ===== verification/Udp_Relay.thy ===== *)
theory Udp_Relay
  imports Tcp_Handler
begin

text \<open>
  UDP traffic through the TCP handler: the two loops that \<^verbatim>\<open>select!\<close> runs beside each other for a
  UDP request, in direct mode and in TCP mode, as invariants over every schedule, and the contracts
  of the buffered streams they work on. The last section puts the two modes together.
\<close>

section \<open>Packets\<close>

text \<open>The bytes of well-formed packets determine their payloads.\<close>

lemma encode_packet_payload:
  assumes "wf_packet k" and "packet_dest dns k = Ok d" and "wf_packet k'" and "packet_dest dns k' = Ok d'"
    and "encode_packet k @ x = encode_packet k' @ x'"
  shows "p_data k = p_data k' \<and> x = x'"
  using parse_encoded_packet [OF assms(1,2), where c = "peer []" and rest = x]
    parse_encoded_packet [OF assms(3,4), where c = "peer []" and rest = x'] assms(5)
  by (auto simp: peer_def)

lemma encode_packet_nonempty: "encode_packet k \<noteq> []"
  by (simp add: encode_packet_def udp_header_def)

lemma encode_packets_payloads:
  assumes "\<forall>k\<in>set ks. wf_packet k \<and> is_Ok (packet_dest dns k)" and "\<forall>k\<in>set ks'. wf_packet k \<and> is_Ok (packet_dest dns k)"
    and "concat (map encode_packet ks) = concat (map encode_packet ks')"
  shows "map p_data ks = map p_data ks'"
  using assms
proof (induction ks arbitrary: ks')
  case Nil
  then show ?case by (cases ks') (simp_all add: encode_packet_nonempty)
next
  case (Cons k ks)
  then obtain k' l where ks': "ks' = k' # l" by (cases ks') (simp_all add: encode_packet_nonempty)
  obtain d d' where d: "packet_dest dns k = Ok d" "packet_dest dns k' = Ok d'"
    using Cons.prems(1,2) ks' by (auto simp: is_Ok_iff)
  have "p_data k = p_data k' \<and> concat (map encode_packet ks) = concat (map encode_packet l)"
    by (rule encode_packet_payload [OF _ d(1) _ d(2)]) (use Cons.prems ks' in auto)
  with Cons.IH [of l] Cons.prems ks' show ?case by simp
qed

section \<open>Direct mode\<close>

text \<open>
  What has been sent is what has been read from the client, packet by packet, and what was written
  to the client is what came in from the socket, datagram by datagram.
\<close>

definition reply_bytes :: "IpAddrPort \<Rightarrow> (bytes \<times> SocketAddr) list \<Rightarrow> bytes" where
  "reply_bytes addr ds = concat (map (\<lambda>(d, _). encode_packet (reply_packet addr (take BUF_SIZE d))) ds)"

lemma reply_bytes_packets:
  "reply_bytes addr ds = concat (map encode_packet (map (\<lambda>x. reply_packet addr (take BUF_SIZE (fst x))) ds))"
  by (simp add: reply_bytes_def comp_def case_prod_unfold)

lemma reply_payloads:
  assumes "wf_addr t (ip addr)" and "ip addr = IpAddr d" and "\<forall>k\<in>set ks. wf_packet k \<and> is_Ok (packet_dest dns k)"
    and "concat (map encode_packet ks) = reply_bytes addr ds"
  shows "map p_data ks = map (take BUF_SIZE \<circ> fst) ds"
proof -
  let ?rp = "\<lambda>x :: bytes \<times> SocketAddr. reply_packet addr (take BUF_SIZE (fst x))"
  have "\<forall>k\<in>set (map ?rp ds). wf_packet k \<and> is_Ok (packet_dest dns k)"
    using assms(1,2) by (auto simp: reply_packet_def addr_atype_wf [OF assms(1) [unfolded assms(2)]])
  from encode_packets_payloads [OF assms(3) this] have "map p_data ks = map p_data (map ?rp ds)"
    using assms(4) by (simp add: reply_bytes_packets)
  then show ?thesis by (simp add: comp_def reply_packet_def)
qed

text \<open>
  What has been sent are the payloads of the first \<open>i\<close> packets, all of them to IPv4 addresses; and
  what has been written to the client are the answers to it so far.
\<close>

definition datagrams :: "(packet \<Rightarrow> SocketAddr) \<Rightarrow> packet list \<Rightarrow> nat \<Rightarrow> 'm net \<Rightarrow> 'm net \<Rightarrow> bool" where
  "datagrams dst ks i s t \<longleftrightarrow> i \<le> length ks \<and>
     sent (sock t) = sent (sock s) @ map (\<lambda>k. (p_data k, dst k)) (take i ks) \<and> (\<forall>k\<in>set (take i ks). v4_addr (dst k))"

definition answered :: "IpAddrPort \<Rightarrow> 'm net \<Rightarrow> 'm net \<Rightarrow> bool" where
  "answered addr s t \<longleftrightarrow>
     (\<exists>j. incoming (sock t) = drop j (incoming (sock s)) \<and>
        outp (cli t) = outp (cli s) @ reply_bytes addr (take j (incoming (sock s)))) \<and>
     uend (sock t) = Accepting \<and> oend (cli t) = Accepting \<and> dialed t = dialed s \<and> srv t = srv s"

definition forwarding :: "(packet \<Rightarrow> SocketAddr) \<Rightarrow> IpAddrPort \<Rightarrow> packet list \<Rightarrow> 'm net \<Rightarrow> 'm net \<Rightarrow> bool" where
  "forwarding dst addr ks s t \<longleftrightarrow> answered addr s t \<and>
     (\<exists>i. inp (cli t) = concat (map encode_packet (drop i ks)) \<and> datagrams dst ks i s t)"

definition forwarded :: "(packet \<Rightarrow> SocketAddr) \<Rightarrow> IpAddrPort \<Rightarrow> packet list \<Rightarrow> 'm net \<Rightarrow> 'm net \<Rightarrow> bool" where
  "forwarded dst addr ks s t \<longleftrightarrow> answered addr s t \<and> (\<exists>i. datagrams dst ks i s t)"

text \<open>All packets have been sent, or the next one is for an IPv6 address.\<close>

definition uplink_done :: "(packet \<Rightarrow> SocketAddr) \<Rightarrow> packet list \<Rightarrow> 'm net \<Rightarrow> 'm net \<Rightarrow> bool" where
  "uplink_done dst ks s t \<longleftrightarrow> (\<exists>i. datagrams dst ks i s t \<and> (i = length ks \<or> \<not> v4_addr (dst (ks ! i))))"

lemma forwarding_forwarded: "forwarding dst addr ks s t \<Longrightarrow> forwarded dst addr ks s t"
  unfolding forwarding_def forwarded_def by blast

lemma client_to_udp_step_parsed:
  assumes "wf_packet k" and "packet_dest dns k = Ok d" and "inp (cli n) = encode_packet k @ rest"
  shows "client_to_udp_step dns cli_reader U n =
    await (send_to U (p_data k) d) (\<lambda>_. return ()) (n\<lparr>cli := (cli n)\<lparr>inp := rest\<rparr>\<rparr>)"
proof -
  have cli: "cli n = (cli n)\<lparr>inp := encode_packet k @ rest\<rparr>"
    using assms(3) by (simp add: conn_inp_update)
  have "parse_udp dns cli_reader n =
      (Ok \<lparr>udp_atype = p_atype k, dest = d, payload_size = length (p_data k)\<rparr>,
       n\<lparr>cli := (cli n)\<lparr>inp := p_data k @ rest\<rparr>\<rparr>)"
    using parse_encoded_packet [OF assms(1,2), where c = "cli n" and rest = rest] cli
    by (simp add: cli.lift_parse_udp lift_async_def)
  with assms(1) show ?thesis
    by (simp add: client_to_udp_step_def await_def lift_async_def wf_packet_def)
qed

lemma client_to_udp_step_empty:
  assumes "inp (cli n) = []"
  shows "client_to_udp_step dns cli_reader U n = (short_read (iend (cli n)), n)"
proof -
  have "parse_udp dns conn_reader (cli n) = (short_read (iend (cli n)), cli n)"
    using assms by (cases "iend (cli n)") (simp_all add: parse_udp_def await_def amap_def conn_read_exact_def conn_inp_update)
  then show ?thesis
    by (cases "iend (cli n)") (simp_all add: client_to_udp_step_def await_def cli.lift_parse_udp lift_async_def)
qed

lemma drop_step: "drop i xs = y # ys \<Longrightarrow> drop (Suc i) xs = ys \<and> take (Suc i) xs = take i xs @ [y]"
  by (metis append_eq_append_conv2 append_take_drop_id drop_Suc list.sel(3) nth_via_drop take_Suc_conv_app_nth
      drop_eq_Nil leI list.distinct(1) tl_drop)

lemma datagrams_next:
  assumes "datagrams dst ks i s t" and "drop i ks = k # l" and "v4_addr (dst k)"
    and "sent (sock t') = sent (sock t) @ [(p_data k, dst k)]"
  shows "datagrams dst ks (Suc i) s t' \<and> drop (Suc i) ks = l"
proof -
  have "i < length ks" using assms(2) by (metis drop_all list.distinct(1) not_le)
  with assms drop_step [OF assms(2)] show ?thesis
    unfolding datagrams_def by auto
qed

lemma forwarding_up:
  assumes "\<forall>k\<in>set ks. wf_packet k \<and> packet_dest dns k = Ok (dst k)" and "forwarding dst addr ks s t"
    and "client_to_udp_step dns cli_reader (udp_v4 e net_socket) t = (q, t')"
  shows "forwarded dst addr ks s t' \<and> (is_Ok q \<longrightarrow> forwarding dst addr ks s t') \<and> (\<forall>p. q \<noteq> Panic p) \<and>
    (is_Ok q \<or> q = Hang \<or> uplink_done dst ks s t')"
proof -
  obtain i where i: "inp (cli t) = concat (map encode_packet (drop i ks))" "datagrams dst ks i s t"
    using assms(2) unfolding forwarding_def by (elim exE conjE)
  have ans: "answered addr s t" using assms(2) unfolding forwarding_def by simp
  then have acc: "uend (sock t) = Accepting" unfolding answered_def by simp
  show ?thesis
  proof (cases "drop i ks")
    case Nil
    then have "inp (cli t) = []" using i(1) by simp
    then have "t' = t \<and> q = short_read (iend (cli t))"
      using client_to_udp_step_empty [of t dns "udp_v4 e net_socket"] assms(3) by simp
    then have "t' = t" "q = short_read (iend (cli t))" by simp_all
    moreover from this(2) have "\<forall>p. q \<noteq> Panic p" by (cases "iend (cli t)") simp_all
    moreover have "uplink_done dst ks s t"
      using Nil i(2) unfolding uplink_done_def datagrams_def by (intro exI [of _ i]) simp
    ultimately show ?thesis using assms(2) forwarding_forwarded by blast
  next
    case (Cons k l)
    have k: "wf_packet k" "packet_dest dns k = Ok (dst k)" "k = ks ! i"
      using assms(1) in_set_dropD [of k i ks] Cons nth_via_drop [OF Cons] by simp_all
    have "inp (cli t) = encode_packet k @ concat (map encode_packet l)"
      using i(1) Cons by simp
    note step = client_to_udp_step_parsed [OF k(1,2) this, of "udp_v4 e net_socket", unfolded assms(3)]
    show ?thesis
    proof (cases "v4_addr (dst k)")
      case True
      with step acc have t': "q = Ok ()" "t' = t\<lparr>cli := (cli t)\<lparr>inp := concat (map encode_packet l)\<rparr>,
          sock := (sock t)\<lparr>sent := sent (sock t) @ [(p_data k, dst k)]\<rparr>\<rparr>"
        by (simp_all add: udp_v4_def await_def lift_async_def udp_ops_def udp_send_to_def)
      have "datagrams dst ks (Suc i) s t' \<and> drop (Suc i) ks = l"
        by (rule datagrams_next [OF i(2) Cons True]) (simp add: t'(2))
      moreover have "answered addr s t'" using ans t'(2) unfolding answered_def by simp
      ultimately have "forwarding dst addr ks s t'"
        using t'(2) unfolding forwarding_def by (intro conjI exI [of _ "Suc i"]) simp_all
      then show ?thesis using t'(1) forwarding_forwarded by simp
    next
      case False
      with step have t': "q = Err e" "t' = t\<lparr>cli := (cli t)\<lparr>inp := concat (map encode_packet l)\<rparr>\<rparr>"
        by (simp_all add: udp_v4_def await_def)
      have "datagrams dst ks i s t'" "answered addr s t'"
        using ans i(2) t'(2) unfolding answered_def datagrams_def by simp_all
      then show ?thesis using t'(1) False k(3) unfolding forwarded_def uplink_done_def by (simp, blast)
    qed
  qed
qed

lemma udp_to_client_step_one:
  assumes "incoming (sock n) = (d, a) # ds" and "oend (cli n) = Accepting"
  shows "udp_to_client_step net_socket cli_writer addr n =
    (Ok (), n\<lparr>cli := (cli n)\<lparr>outp := outp (cli n) @ encode_packet (reply_packet addr (take BUF_SIZE d))\<rparr>,
              sock := (sock n)\<lparr>incoming := ds\<rparr>\<rparr>)"
  using assms writes_Ok [OF writes_packet_write assms(2)]
  by (simp add: udp_to_client_step_eq cli.lift_packet_write await_def lift_async_def udp_ops_def
      udp_recv_from_def reply_packet_def)

lemma udp_to_client_step_v4: "udp_to_client_step (udp_v4 e U) = udp_to_client_step U"
  by (rule ext)+ (simp add: udp_to_client_step_def udp_v4_def)

lemma answered_down:
  assumes "answered addr s t" and "udp_to_client_step (udp_v4 e net_socket) cli_writer addr t = (q, t')"
  shows "answered addr s t' \<and> inp (cli t') = inp (cli t) \<and> sent (sock t') = sent (sock t) \<and> (\<forall>p. q \<noteq> Panic p) \<and>
    (is_Ok q \<or> outp (cli t') = outp (cli s) @ reply_bytes addr (incoming (sock s)))"
proof -
  obtain j where j: "incoming (sock t) = drop j (incoming (sock s))"
      "outp (cli t) = outp (cli s) @ reply_bytes addr (take j (incoming (sock s)))"
    using assms(1) unfolding answered_def by (elim exE conjE)
  have acc: "oend (cli t) = Accepting"
    using assms(1) unfolding answered_def by simp
  note run = assms(2) [unfolded udp_to_client_step_v4]
  show ?thesis
  proof (cases "incoming (sock t)")
    case Nil
    from udp_to_client_step_end [OF Nil, of addr] run
    have "t' = t" "\<forall>p. q \<noteq> Panic p" by (auto split: ending.splits)
    moreover have "take j (incoming (sock s)) = incoming (sock s)" using Nil j(1) by simp
    ultimately show ?thesis using assms(1) j(2) by simp
  next
    case (Cons x ds)
    obtain d a where x: "x = (d, a)" by (cases x)
    have dr: "drop j (incoming (sock s)) = (d, a) # ds" using Cons x j(1) by simp
    from udp_to_client_step_one [OF Cons [unfolded x] acc, of addr] run
    have step: "q = Ok ()"
        "t' = t\<lparr>cli := (cli t)\<lparr>outp := outp (cli t) @ encode_packet (reply_packet addr (take BUF_SIZE d))\<rparr>,
                sock := (sock t)\<lparr>incoming := ds\<rparr>\<rparr>" by simp_all
    have "\<exists>j. incoming (sock t') = drop j (incoming (sock s)) \<and>
        outp (cli t') = outp (cli s) @ reply_bytes addr (take j (incoming (sock s)))"
      using drop_step [OF dr] j(2) step(2) by (intro exI [of _ "Suc j"]) (simp add: reply_bytes_def)
    with step assms(1) show ?thesis unfolding answered_def by simp
  qed
qed

lemma forwarding_down:
  assumes "forwarding dst addr ks s t" and "udp_to_client_step (udp_v4 e net_socket) cli_writer addr t = (q, t')"
  shows "forwarding dst addr ks s t'"
proof -
  have "answered addr s t" using assms(1) unfolding forwarding_def by simp
  note down = answered_down [OF this assms(2)]
  obtain i where "inp (cli t) = concat (map encode_packet (drop i ks))" "datagrams dst ks i s t"
    using assms(1) unfolding forwarding_def by (elim exE conjE)
  with down show ?thesis
    unfolding forwarding_def datagrams_def by (intro conjI exI [of _ i]) simp_all
qed

lemma forwarded_down:
  assumes "forwarded dst addr ks s t" and "udp_to_client_step (udp_v4 e net_socket) cli_writer addr t = (q, t')"
  shows "forwarded dst addr ks s t' \<and> (\<forall>p. q \<noteq> Panic p) \<and>
    (is_Ok q \<or> q = Hang \<or> outp (cli t') = outp (cli s) @ reply_bytes addr (incoming (sock s)))"
proof -
  have "answered addr s t" using assms(1) unfolding forwarded_def by simp
  note down = answered_down [OF this assms(2)]
  obtain i where "datagrams dst ks i s t"
    using assms(1) unfolding forwarded_def by (elim exE conjE)
  with down have "datagrams dst ks i s t'" unfolding datagrams_def by simp
  with down show ?thesis unfolding forwarded_def by blast
qed

text \<open>Both loops under a schedule: a run without a panic, which ends by itself only when one direction is exhausted.\<close>

lemma body_task_keeps:
  assumes "\<And>t q t'. P t \<Longrightarrow> m t = (q, t') \<Longrightarrow> P t' \<and> (\<forall>p. q \<noteq> Panic p) \<and> (is_Ok q \<or> Q t')"
    and "P t" and "body_task m t = (q, t')"
  shows "P t' \<and> (\<forall>p. q \<noteq> Panic p) \<and> (q = Ok True \<or> Q t')"
proof -
  obtain q0 where "m t = (q0, t')" "q = bind_outcome q0 (\<lambda>_. Ok True)"
    using assms(3) by (cases "m t"; cases "fst (m t)") (auto simp: body_task_def amap_def await_def)
  with assms(1) [OF assms(2) this(1)] show ?thesis by (cases q0) auto
qed

lemma select_loops:
  assumes "P s" and "select_run sched (body_task m1) (body_task m2) s = (r, s')"
    and m1: "\<And>t q t'. P t \<Longrightarrow> m1 t = (q, t') \<Longrightarrow> P t' \<and> (\<forall>p. q \<noteq> Panic p) \<and> (is_Ok q \<or> Q1 t')"
    and m2: "\<And>t q t'. P t \<Longrightarrow> m2 t = (q, t') \<Longrightarrow> P t' \<and> (\<forall>p. q \<noteq> Panic p) \<and> (is_Ok q \<or> Q2 t')"
  shows "P s' \<and> (r = Hang \<or> r = Ok () \<and> (Q1 s' \<or> Q2 s'))"
proof -
  have b1: "P t' \<and> (\<forall>p. q \<noteq> Panic p) \<and> (q = Ok True \<or> Q1 t')" if "P t" "body_task m1 t = (q, t')" for t q t'
    by (rule body_task_keeps [where P = P and m = m1, OF _ that]) (erule (1) m1)
  have b2: "P t' \<and> (\<forall>p. q \<noteq> Panic p) \<and> (q = Ok True \<or> Q2 t')" if "P t" "body_task m2 t = (q, t')" for t q t'
    by (rule body_task_keeps [where P = P and m = m2, OF _ that]) (erule (1) m2)
  have "P s' \<and> (r = Hang \<or> (\<exists>t q. P t \<and> (body_task m1 t = (q, s') \<or> body_task m2 t = (q, s')) \<and>
    (r = Ok () \<and> (q = Ok False \<or> (\<exists>e. q = Err e)) \<or> (\<exists>p. r = Panic p \<and> q = Panic p))))"
    by (rule select_run_invariant [where P = P, OF assms(1,2)])
      (erule (1) b1 [THEN conjunct1], erule (1) b2 [THEN conjunct1])
  then show ?thesis
  proof (elim conjE disjE exE, goal_cases)
    case 1
    then show ?case by simp
  next
    case (2 t q)
    with b1 [of t q s'] show ?case by auto
  next
    case (3 t q e)
    with b1 [of t q s'] show ?case by auto
  next
    case (4 t q p)
    with b1 [of t q s'] show ?case by auto
  next
    case (5 t q)
    with b2 [of t q s'] show ?case by auto
  next
    case (6 t q e)
    with b2 [of t q s'] show ?case by auto
  next
    case (7 t q p)
    with b2 [of t q s'] show ?case by auto
  qed
qed

lemma body_task_run:
  assumes "body_task m t = (q, t')"
  obtains q0 where "m t = (q0, t')" "q = bind_outcome q0 (\<lambda>_. Ok True)"
  using assms by (cases "m t"; cases "fst (m t)") (auto simp: body_task_def amap_def await_def)

lemma select_loops_guarded:
  assumes "P s" and "select_run sched (body_task m1) (body_task m2) s = (r, s')" and imp: "\<And>t. P t \<Longrightarrow> Q t"
    and m1: "\<And>t q t'. P t \<Longrightarrow> m1 t = (q, t') \<Longrightarrow>
      Q t' \<and> (is_Ok q \<longrightarrow> P t') \<and> (\<forall>p. q \<noteq> Panic p) \<and> (is_Ok q \<or> q = Hang \<or> E1 t')"
    and m2: "\<And>t q t'. P t \<Longrightarrow> m2 t = (q, t') \<Longrightarrow> P t'"
    and m2': "\<And>t q t'. Q t \<Longrightarrow> m2 t = (q, t') \<Longrightarrow>
      Q t' \<and> (\<forall>p. q \<noteq> Panic p) \<and> (is_Ok q \<or> q = Hang \<or> E2 t')"
  shows "Q s' \<and> (r = Hang \<or> r = Ok () \<and> (E1 s' \<or> E2 s'))"
proof (rule select_run_guarded [where P = P and Q = Q, OF assms(1,2) imp])
  fix t q t'
  assume "P t" and "body_task m1 t = (q, t')"
  then obtain q0 where "m1 t = (q0, t')" "q = bind_outcome q0 (\<lambda>_. Ok True)" by (auto elim: body_task_run)
  with m1 [OF \<open>P t\<close> this(1)] show "Q t' \<and> (q = Ok True \<longrightarrow> P t') \<and> (\<forall>p. q \<noteq> Panic p) \<and> (q = Ok True \<or> q = Hang \<or> E1 t')"
    by (cases q0) auto
next
  fix t q t'
  assume "P t" and "body_task m2 t = (q, t')"
  with m2 show "P t'" by (auto elim!: body_task_run)
next
  fix t q t'
  assume "Q t" and "body_task m2 t = (q, t')"
  then obtain q0 where "m2 t = (q0, t')" "q = bind_outcome q0 (\<lambda>_. Ok True)" by (auto elim: body_task_run)
  with m2' [OF \<open>Q t\<close> this(1)] show "Q t' \<and> (\<forall>p. q \<noteq> Panic p) \<and> (q = Ok True \<or> q = Hang \<or> E2 t')"
    by (cases q0) auto
qed

text \<open>
  The contract for direct mode. Only the buffered halves of the client's stream are used, so the
  abstract connection counts what a buffer holds as not yet read, or as written. The socket is bound
  to \<^verbatim>\<open>0.0.0.0:0\<close>, an IPv4 address, and sends to IPv4 addresses only.
\<close>

locale udp_direct_io =
  fixes inb :: "'s inbound_io" and io :: "'s outbound_io" and view :: "'s \<Rightarrow> Hunk net" and refused :: io_error
  assumes sim_udp_bind [sim_intros]: "tracks view (udp_bind io ''0.0.0.0:0'') (return ())"
    and client_reader: "\<And>h. exact_reader (buf_reader io (stream_reader inb h)) cli_reader (\<lambda>_. True) view (\<lambda>n. n)"
    and client_writer: "\<And>h. byte_writer (buf_writer io (stream_writer inb h)) cli_writer (\<lambda>_. True) view (\<lambda>n. n)"
    and socket: "udp_io (udp_sock io ''0.0.0.0:0'') (udp_v4 refused net_socket) (\<lambda>_. True) view (\<lambda>n. n)"
begin

lemma sim_direct_udp:
  assumes "proxy_protocol q = TROJAN" and "transport_protocol q = UDP"
  shows "tracks view (handle_direct_stream inb io q h)
    (await (return ()) (\<lambda>_. select_run (schedule io)
       (body_task (client_to_udp_step (to_socket_addrs io) cli_reader (udp_v4 refused net_socket)))
       (body_task (udp_to_client_step (udp_v4 refused net_socket) cli_writer (addr_port q)))))"
  unfolding handle_direct_stream_def assms SupportedProtocols.case TransportProtocol.case Let_def
  by (intro sim_intros simulates_body_task sim_client_to_udp_step [OF client_reader socket]
      sim_udp_to_client_step [OF socket client_writer])

lemma direct_udp_relayed:
  assumes "proxy_protocol q = TROJAN" and "transport_protocol q = UDP"
    and "\<forall>k\<in>set ks. wf_packet k \<and> packet_dest (to_socket_addrs io) k = Ok (dst k)"
    and "inp (cli (view s)) = concat (map encode_packet ks)"
    and "uend (sock (view s)) = Accepting" and "oend (cli (view s)) = Accepting"
    and "handle_direct_stream inb io q h s = (r, s')"
  shows "forwarded dst (addr_port q) ks (view s) (view s') \<and>
    (r = Hang \<or> r = Ok () \<and>
      (uplink_done dst ks (view s) (view s') \<or>
       outp (cli (view s')) = outp (cli (view s)) @ reply_bytes (addr_port q) (incoming (sock (view s)))))"
proof -
  have "answered (addr_port q) (view s) (view s)"
    unfolding answered_def using assms(5,6) by (intro conjI exI [of _ 0]) (simp_all add: reply_bytes_def)
  then have start: "forwarding dst (addr_port q) ks (view s) (view s)"
    unfolding forwarding_def datagrams_def using assms(4) by (intro conjI exI [of _ 0]) simp_all
  have "select_run (schedule io) (body_task (client_to_udp_step (to_socket_addrs io) cli_reader (udp_v4 refused net_socket)))
      (body_task (udp_to_client_step (udp_v4 refused net_socket) cli_writer (addr_port q))) (view s) = (r, view s')"
    using tracksD [OF sim_direct_udp [OF assms(1,2)] assms(7)] by (simp add: await_def)
  then show ?thesis
    by (rule select_loops_guarded [where P = "forwarding dst (addr_port q) ks (view s)", OF start])
      (erule forwarding_forwarded, erule (1) forwarding_up [OF assms(3)], erule (1) forwarding_down, erule (1) forwarded_down)
qed

end

interpretation net_udp_direct: udp_direct_io net_inbound "net_outbound route tls_check dns sched" "\<lambda>n. n"
  "Error OtherKind ''Address family not supported by protocol''"
  by (rule udp_direct_io.intro)
    (simp_all add: net_inbound_def net_outbound_def simulates_refl udp_io_def
      net_cli.exact_reader_axioms net_cli.byte_writer_axioms)

section \<open>TCP mode\<close>

text \<open>
  What the server has received are packets to the destination of the request, which carry what has
  been read from the client; what was written to the client are the payloads of the packets read
  from the server.
\<close>

definition uplink_bytes :: "InboundRequest \<Rightarrow> bytes list \<Rightarrow> bytes" where
  "uplink_bytes q chunks = concat (map (\<lambda>c. encode_packet (packet_of (atype q) (addr_port q) c)) chunks)"

definition packeting :: "InboundRequest \<Rightarrow> packet list \<Rightarrow> 'm net \<Rightarrow> 'm net \<Rightarrow> bool" where
  "packeting q ks s t \<longleftrightarrow>
     (\<exists>chunks. inp (cli s) = concat chunks @ inp (cli t) \<and> (\<forall>c\<in>set chunks. length c \<le> BUF_SIZE) \<and>
        outp (srv t) = outp (srv s) @ uplink_bytes q chunks) \<and>
     (\<exists>j. inp (srv t) = concat (map encode_packet (drop j ks)) \<and>
        outp (cli t) = outp (cli s) @ concat (map p_data (take j ks))) \<and>
     oend (srv t) = Accepting \<and> oend (cli t) = Accepting \<and> dialed t = dialed s"

lemma uplink_step_net:
  assumes "oend (srv n) = Accepting" and "client_to_udp_server_step cli_reader srv_writer q n = (r, n')"
  shows "(r = Ok () \<and> (\<exists>bs. inp (cli n) = bs @ inp (cli n') \<and> length bs \<le> BUF_SIZE \<and>
      srv n' = (srv n)\<lparr>outp := outp (srv n) @ encode_packet (packet_of (atype q) (addr_port q) bs)\<rparr>) \<or>
      inp (cli n) = [] \<and> (\<forall>p. r \<noteq> Panic p) \<and> \<not> is_Ok r \<and> n' = n) \<and>
    outp (cli n') = outp (cli n) \<and> oend (cli n') = oend (cli n) \<and> dialed n' = dialed n"
proof -
  obtain rr c where rd: "conn_read BUF_SIZE (cli n) = (rr, c)" by (cases "conn_read BUF_SIZE (cli n)")
  show ?thesis
  proof (cases "is_Ok rr")
    case True
    then obtain bs where bs: "rr = Ok bs" by (auto simp: is_Ok_iff)
    have "r = Ok () \<and> n' = n\<lparr>cli := c,
        srv := (srv n)\<lparr>outp := outp (srv n) @ encode_packet (packet_of (atype q) (addr_port q) bs)\<rparr>\<rparr>"
      using assms(2) rd bs writes_Ok [OF writes_packet_write assms(1)]
      by (simp add: client_to_udp_server_step_eq srv.lift_packet_write await_def lift_async_def)
    moreover have "inp (cli n) = bs @ inp c \<and> length bs \<le> BUF_SIZE"
      using rd bs by (auto simp: conn_read_def Let_def split: if_splits ending.splits list.splits)
    ultimately show ?thesis
      using conn_read_keeps [OF rd] by simp
  next
    case False
    then have "inp (cli n) = []" "c = cli n"
      using rd by (auto simp: conn_read_def Let_def split: if_splits)
    with assms(2) rd False conn_read_keeps(3) [OF rd] show ?thesis
      by (cases rr) (auto simp: client_to_udp_server_step_eq await_def lift_async_def)
  qed
qed

lemma packeting_up:
  assumes "packeting q ks s t" and "client_to_udp_server_step cli_reader srv_writer q t = (r, t')"
  shows "packeting q ks s t' \<and> (\<forall>p. r \<noteq> Panic p) \<and> (is_Ok r \<or> inp (cli t') = [])"
proof -
  obtain chunks where ch: "inp (cli s) = concat chunks @ inp (cli t)" "\<forall>c\<in>set chunks. length c \<le> BUF_SIZE"
      "outp (srv t) = outp (srv s) @ uplink_bytes q chunks"
    using assms(1) unfolding packeting_def by (elim exE conjE)
  have acc: "oend (srv t) = Accepting"
    using assms(1) unfolding packeting_def by simp
  note step = uplink_step_net [OF acc assms(2)]
  from step show ?thesis
  proof (elim conjE disjE exE)
    fix bs
    assume bs: "r = Ok ()" "inp (cli t) = bs @ inp (cli t')" "length bs \<le> BUF_SIZE"
      "srv t' = (srv t)\<lparr>outp := outp (srv t) @ encode_packet (packet_of (atype q) (addr_port q) bs)\<rparr>"
    then have "\<exists>chunks. inp (cli s) = concat chunks @ inp (cli t') \<and> (\<forall>c\<in>set chunks. length c \<le> BUF_SIZE) \<and>
        outp (srv t') = outp (srv s) @ uplink_bytes q chunks"
      using ch by (intro exI [of _ "chunks @ [bs]"]) (simp add: uplink_bytes_def)
    with bs step assms(1) show ?thesis unfolding packeting_def by simp
  qed (use assms(1) in auto)
qed

lemma packeting_down:
  assumes "\<forall>k\<in>set ks. wf_packet k \<and> is_Ok (packet_dest dns k)" and "packeting q ks s t"
    and "udp_server_to_client_step dns srv_reader cli_writer t = (r, t')"
  shows "packeting q ks s t' \<and> (\<forall>p. r \<noteq> Panic p) \<and> (is_Ok r \<or> outp (cli t') = outp (cli s) @ concat (map p_data ks))"
proof -
  obtain j where j: "inp (srv t) = concat (map encode_packet (drop j ks))"
      "outp (cli t) = outp (cli s) @ concat (map p_data (take j ks))"
    using assms(2) unfolding packeting_def by (elim exE conjE)
  have acc: "oend (cli t) = Accepting"
    using assms(2) unfolding packeting_def by simp
  show ?thesis
  proof (cases "drop j ks")
    case Nil
    have "parse_udp dns conn_reader (srv t) = (short_read (iend (srv t)), srv t)"
      using Nil j(1) by (cases "iend (srv t)")
        (simp_all add: parse_udp_def await_def amap_def conn_read_exact_def conn_inp_update)
    then have "r = short_read (iend (srv t)) \<and> t' = t"
      using assms(3) by (cases "iend (srv t)")
        (simp_all add: udp_server_to_client_step_def await_def srv.lift_parse_udp lift_async_def)
    moreover from this have "\<forall>p. r \<noteq> Panic p" by (cases "iend (srv t)") simp_all
    moreover have "take j ks = ks" using Nil by simp
    ultimately show ?thesis using assms(2) j(2) by simp
  next
    case (Cons k l)
    then have "k \<in> set ks" using in_set_dropD [of k j ks] by simp
    then obtain d where k: "wf_packet k" "packet_dest dns k = Ok d"
      using assms(1) by (auto simp: is_Ok_iff)
    have "inp (srv t) = encode_packet k @ concat (map encode_packet l)"
      using j(1) Cons by simp
    from downlink_step_packet [OF k this acc] assms(3)
    have step: "r = Ok ()" "t' = t\<lparr>cli := (cli t)\<lparr>outp := outp (cli t) @ p_data k\<rparr>,
        srv := (srv t)\<lparr>inp := concat (map encode_packet l)\<rparr>\<rparr>" by simp_all
    have "\<exists>j. inp (srv t') = concat (map encode_packet (drop j ks)) \<and>
        outp (cli t') = outp (cli s) @ concat (map p_data (take j ks))"
      using drop_step [OF Cons] j(2) step(2) by (intro exI [of _ "Suc j"]) simp
    with step assms(2) show ?thesis unfolding packeting_def by simp
  qed
qed

text \<open>
  The contract for TCP mode. The header goes directly to the stream; while nothing is buffered
  (\<open>unbuffered\<close>) that is what the abstract connection sees. Afterwards only the buffered halves of
  that stream are used.
\<close>

locale udp_tcp_io =
  fixes inb :: "'s inbound_io" and io :: "'s outbound_io" and view :: "'s \<Rightarrow> Hunk net"
    and route :: "SocketAddr \<Rightarrow> io_error + conn" and tls_check :: "ClientConfig \<Rightarrow> string \<Rightarrow> io_error option"
    and unbuffered :: "'s \<Rightarrow> bool"
  assumes sim_connect: "\<And>a. simulates unbuffered view (\<lambda>n. n) (connect io a) (net_connect route a)"
    and sim_tls: "\<And>cfg name. simulates unbuffered view (\<lambda>n. n) (tls_connect io cfg name) (net_check (tls_check cfg name))"
    and server: "\<And>h. byte_writer (out_writer io h) srv_writer unbuffered view (\<lambda>n. n)"
    and client_reader: "\<And>h. chunk_reader (stream_reader inb h) cli_reader (\<lambda>_. True) view (\<lambda>n. n)"
    and client_writer: "\<And>h. byte_writer (stream_writer inb h) cli_writer (\<lambda>_. True) view (\<lambda>n. n)"
    and server_reader: "\<And>h. exact_reader (buf_reader io (out_reader io h)) srv_reader (\<lambda>_. True) view (\<lambda>n. n)"
    and server_writer: "\<And>h. byte_writer (buf_writer io (out_writer io h)) srv_writer (\<lambda>_. True) view (\<lambda>n. n)"
begin

abbreviation udp_loops :: "InboundRequest \<Rightarrow> (Hunk net, unit) async" where
  "udp_loops q \<equiv> select_run (schedule io) (body_task (client_to_udp_server_step cli_reader srv_writer q))
     (body_task (udp_server_to_client_step (to_socket_addrs io) srv_reader cli_writer))"

lemma sim_udp_loops:
  "tracks view (select_run (schedule io)
      (body_task (client_to_udp_server_step (stream_reader inb h) (buf_writer io (out_writer io h')) q))
      (body_task (udp_server_to_client_step (to_socket_addrs io) (buf_reader io (out_reader io h')) (stream_writer inb h))))
    (udp_loops q)"
  by (intro sim_intros simulates_body_task sim_client_to_udp_server_step [OF client_reader server_writer]
      sim_udp_server_to_client_step [OF server_reader client_writer])

lemma then_loops:
  assumes "simulates unbuffered view (\<lambda>n. n) m m0" and "unbuffered s" and "m0 (view s) = (Ok (), n)"
    and "tracks view k k0" and "await m (\<lambda>_. k) s = (r, s')"
  shows "k0 n = (r, view s')"
proof -
  obtain t where t: "m s = (Ok (), t)" "view t = n"
    using simulatesD [OF assms(1-3)] by auto
  then have "k t = (r, s')" using assms(5) by (simp add: await_def)
  from tracksD [OF assms(4) this] t(2) show ?thesis by simp
qed

lemma tcp_udp_run:
  assumes "h_protocol self = TROJAN" and "transport_protocol q = UDP" and "h_destination self = Some a"
    and "length (h_secret self) = HEX_SIZE" and "route a = Inr c" and "oend c = Accepting" and "unbuffered s"
    and "\<And>cfg name. h_tls self = Some (cfg, name) \<Longrightarrow> tls_check cfg name = None"
    and "handle_tcp_stream inb io self q h s = (r, s')"
  shows "udp_loops q ((view s)\<lparr>dialed := dialed (view s) @ [a],
    srv := c\<lparr>outp := outp c @ handshake_bytes q (h_secret self)\<rparr>\<rparr>) = (r, view s')"
proof -
  let ?hs = "\<lambda>h. handshake (out_writer io h) q (h_secret self)"
  let ?loops = "\<lambda>h'. select_run (schedule io)
      (body_task (client_to_udp_server_step (stream_reader inb h) (buf_writer io (out_writer io h')) q))
      (body_task (udp_server_to_client_step (to_socket_addrs io) (buf_reader io (out_reader io h')) (stream_writer inb h)))"
  note net = srv.lift_handshake lift_async_def writes_Ok [OF writes_handshake] assms(5,6) net_connect_def await_def
  show ?thesis
  proof (cases "h_tls self")
    case None
    have run: "await (await (connect io a) (\<lambda>_. ?hs (Plain ()))) (\<lambda>_. ?loops (Plain ())) s = (r, s')"
      using assms(1-4,9) None by (simp add: handle_tcp_stream_def await_assoc)
    show ?thesis
      by (rule then_loops [OF simulates_await [OF sim_connect byte_writer.sim_handshake [OF server]] assms(7) _ sim_udp_loops run])
        (simp add: net)
  next
    case (Some ct)
    obtain cfg name where ct: "ct = (cfg, name)" by (cases ct)
    have run: "await (await (connect io a) (\<lambda>_. await (tls_connect io cfg name) (\<lambda>_. ?hs (RustlsClient ()))))
        (\<lambda>_. ?loops (RustlsClient ())) s = (r, s')"
      using assms(1-4,9) Some ct by (simp add: handle_tcp_stream_def await_assoc)
    show ?thesis
      by (rule then_loops [OF simulates_await [OF sim_connect simulates_await [OF sim_tls byte_writer.sim_handshake [OF server]]]
            assms(7) _ sim_udp_loops run])
        (use assms(8) Some ct in \<open>simp add: net net_check_def\<close>)
  qed
qed

lemma tcp_udp_relayed:
  assumes "h_protocol self = TROJAN" and "transport_protocol q = UDP" and "h_destination self = Some a"
    and "length (h_secret self) = HEX_SIZE" and "route a = Inr c" and "oend c = Accepting" and "unbuffered s"
    and "\<And>cfg name. h_tls self = Some (cfg, name) \<Longrightarrow> tls_check cfg name = None"
    and "\<forall>k\<in>set ks. wf_packet k \<and> is_Ok (packet_dest (to_socket_addrs io) k)"
    and "inp c = concat (map encode_packet ks)" and "oend (cli (view s)) = Accepting"
    and "handle_tcp_stream inb io self q h s = (r, s')"
  shows "(r = Hang \<or> r = Ok ()) \<and> dialed (view s') = dialed (view s) @ [a] \<and>
    (\<exists>chunks. inp (cli (view s)) = concat chunks @ inp (cli (view s')) \<and> (\<forall>c\<in>set chunks. length c \<le> BUF_SIZE) \<and>
       outp (srv (view s')) = outp c @ handshake_bytes q (h_secret self) @ uplink_bytes q chunks) \<and>
    (\<exists>j. outp (cli (view s')) = outp (cli (view s)) @ concat (map p_data (take j ks)))"
proof -
  let ?n = "(view s)\<lparr>dialed := dialed (view s) @ [a], srv := c\<lparr>outp := outp c @ handshake_bytes q (h_secret self)\<rparr>\<rparr>"
  have start: "packeting q ks ?n ?n"
    unfolding packeting_def using assms(6,10,11)
    by (intro conjI exI [of _ "[]"] exI [of _ 0]) (simp_all add: uplink_bytes_def)
  have run: "udp_loops q ?n = (r, view s')"
    by (rule tcp_udp_run [OF assms(1-7) _ assms(12)]) (rule assms(8))
  have "packeting q ks ?n (view s') \<and>
      (r = Hang \<or> r = Ok () \<and> (inp (cli (view s')) = [] \<or> outp (cli (view s')) = outp (cli ?n) @ concat (map p_data ks)))"
    by (rule select_loops [where P = "packeting q ks ?n", OF start run])
      (erule (1) packeting_up, erule (1) packeting_down [OF assms(9)])
  then show ?thesis
    unfolding packeting_def by auto
qed

end

interpretation net_udp_tcp: udp_tcp_io net_inbound "net_outbound route tls_check dns sched" "\<lambda>n. n" route tls_check "\<lambda>_. True"
  by (rule udp_tcp_io.intro)
    (simp_all add: net_inbound_def net_outbound_def simulates_refl net_cli.chunk_reader_axioms net_cli.byte_writer_axioms
      net_srv.exact_reader_axioms net_srv.byte_writer_axioms)

section \<open>Properties\<close>

text \<open>
  C12: UDP in direct mode. Let a client with an accepted Trojan UDP request send a sequence of
  well-formed packets, each with at most 4096 bytes of payload and a destination that resolves, and
  let the socket and the client keep accepting data. Under every schedule of the two loops the
  datagrams sent are the payloads of an initial part of these packets, in order and each to its own
  destination, and the client receives an initial part of the datagrams that arrived, each cut at
  4096 bytes, in a packet under the address of the request. There is no panic. The socket is bound
  to an IPv4 address, so only packets for IPv4 destinations are sent: when the relay ends by itself,
  all packets have been sent, or the next one is for an IPv6 destination, or all datagrams that
  arrived have been passed on.
\<close>

theorem direct_udp_relay:
  assumes "udp_direct_io inb io view refused" and "proxy_protocol q = TROJAN" and "transport_protocol q = UDP"
    and "\<forall>k\<in>set ks. wf_packet k \<and> packet_dest (to_socket_addrs io) k = Ok (dst k)"
    and "inp (cli (view s)) = concat (map encode_packet ks)"
    and "uend (sock (view s)) = Accepting" and "oend (cli (view s)) = Accepting"
    and "handle_direct_stream inb io q h s = (r, s')"
  shows "(r = Hang \<or> r = Ok ()) \<and>
    (\<exists>i\<le>length ks. sent (sock (view s')) = sent (sock (view s)) @ map (\<lambda>k. (p_data k, dst k)) (take i ks) \<and>
       (\<forall>k\<in>set (take i ks). v4_addr (dst k)) \<and>
       (r = Ok () \<longrightarrow> i = length ks \<or> \<not> v4_addr (dst (ks ! i)) \<or>
          outp (cli (view s')) = outp (cli (view s)) @ reply_bytes (addr_port q) (incoming (sock (view s))))) \<and>
    (\<exists>j. outp (cli (view s')) = outp (cli (view s)) @ reply_bytes (addr_port q) (take j (incoming (sock (view s)))))"
proof -
  note relayed = udp_direct_io.direct_udp_relayed [OF assms]
  let ?full = "outp (cli (view s')) = outp (cli (view s)) @ reply_bytes (addr_port q) (incoming (sock (view s)))"
  have "\<exists>i. datagrams dst ks i (view s) (view s') \<and> (r = Ok () \<longrightarrow> i = length ks \<or> \<not> v4_addr (dst (ks ! i)) \<or> ?full)"
    using relayed unfolding forwarded_def uplink_done_def by blast
  then obtain i where "datagrams dst ks i (view s) (view s')" "r = Ok () \<longrightarrow> i = length ks \<or> \<not> v4_addr (dst (ks ! i)) \<or> ?full"
    by (elim exE conjE)
  moreover obtain j where "outp (cli (view s')) = outp (cli (view s)) @ reply_bytes (addr_port q) (take j (incoming (sock (view s))))"
    using relayed unfolding forwarded_def answered_def by blast
  moreover have "r = Hang \<or> r = Ok ()" using relayed by blast
  ultimately show ?thesis
    unfolding datagrams_def by (intro conjI exI [of _ i] exI [of _ j]) simp_all
qed

definition sample_udp_request :: InboundRequest where
  "sample_udp_request = InboundRequest_new IPv4 (from_u32 0x7F000001) Udp 53 UDP TROJAN"

lemma sample_udp_sel [simp]:
  "transport_protocol sample_udp_request = UDP" "proxy_protocol sample_udp_request = TROJAN"
  "atype sample_udp_request = IPv4" "command sample_udp_request = Udp"
  "addr_port sample_udp_request = IpAddrPort_new (from_u32 0x7F000001) 53" "wf_request sample_udp_request"
  by (simp_all add: sample_udp_request_def InboundRequest_new_def wf_request_def transport_of_def IpAddrPort_new_def)

lemma sample_udp_io:
  "udp_direct_io net_inbound (sample_outbound sched) (\<lambda>n. n) (Error OtherKind ''Address family not supported by protocol'')"
  "udp_tcp_io net_inbound (sample_outbound sched) (\<lambda>n. n) sample_route (\<lambda>_ _. None) (\<lambda>_. True)"
  unfolding sample_outbound_def by (rule net_udp_direct.udp_direct_io_axioms net_udp_tcp.udp_tcp_io_axioms)+

theorem direct_udp_relay_witness:
  "\<exists>r s' i. handle_direct_stream net_inbound (sample_outbound [True, False, True]) sample_udp_request (Plain ())
     (idle_net (peer (encode_packet (packet_of IPv4 (IpAddrPort_new (from_u32 8) 53) [7])))) = (r, s') \<and>
     sent (sock s') = take i [([7], SocketAddr (V4 8) 53)]"
proof -
  let ?k = "packet_of IPv4 (IpAddrPort_new (from_u32 8) 53) [7]"
  let ?run = "handle_direct_stream net_inbound (sample_outbound [True, False, True]) sample_udp_request (Plain ())
      (idle_net (peer (encode_packet ?k)))"
  have run: "?run = (fst ?run, snd ?run)" by simp
  have "wf_packet ?k" by (simp add: BUF_SIZE_def IpAddrPort_new_def)
  with direct_udp_relay [OF sample_udp_io(1) _ _ _ _ _ _ run, where ks = "[?k]" and dst = "\<lambda>_. SocketAddr (V4 8) 53"]
  obtain i where "sent (sock (snd ?run)) = map (\<lambda>k. (p_data k, SocketAddr (V4 8) 53)) (take i [?k])"
    by (auto simp del: wf_packet_of)
  then have "sent (sock (snd ?run)) = take i [([7], SocketAddr (V4 8) 53)]"
    by (cases i) simp_all
  then show ?thesis
    by (intro exI [of _ "fst ?run"] exI [of _ "snd ?run"] exI [of _ i]) simp
qed

text \<open>
  C4: A UDP association through two proxies, for a request to an IP address. A client side in TCP
  mode serves the request, and the server side, which has accepted the header of that request, serves
  it in direct mode on the bytes that follow; the client side's server and the application, and the
  socket and the connection of the server side, keep accepting data, and what the client side
  receives from its server are well-formed packets of at most 4096 bytes of payload with
  destinations that resolve there. Under every schedule of the loops on either side, the datagrams
  that the server side sends all go to the address of the request, have at most 4096 bytes each and
  carry, one after the other, a prefix of what the application sent; for an IPv6 address there are
  none. If the packets the client side receives are those the server side has written, the
  application receives the payloads of an initial part of the datagrams that arrived at the server
  side, each cut at 4096 bytes.
\<close>

theorem udp_chain_delivers:
  assumes client: "udp_tcp_io i1 o1 view1 route tls_check unbuffered" "h_protocol hdl1 = TROJAN" "h_destination hdl1 = Some a"
      "length (h_secret hdl1) = HEX_SIZE" "route a = Inr c" "unbuffered s1"
      "\<And>cfg name. h_tls hdl1 = Some (cfg, name) \<Longrightarrow> tls_check cfg name = None"
    and fresh: "outp c = []" "oend c = Accepting" "oend (cli (view1 s1)) = Accepting"
    and answer: "inp c = concat (map encode_packet ks)"
      "\<forall>k\<in>set ks. wf_packet k \<and> is_Ok (packet_dest (to_socket_addrs o1) k)"
    and request: "wf_request q" "transport_protocol q = UDP" "ip (addr_port q) = IpAddr d"
    and run1: "handle_tcp_stream i1 o1 hdl1 q h1 s1 = (r1, s1')"
    and server: "udp_direct_io i2 o2 view2 refused" "uend (sock (view2 s2)) = Accepting" "oend (cli (view2 s2)) = Accepting"
    and wire: "outp (srv (view1 s1')) = handshake_bytes q (h_secret hdl1) @ inp (cli (view2 s2))"
    and run2: "handle_direct_stream i2 o2 (q\<lparr>proxy_protocol := TROJAN\<rparr>) h2 s2 = (r2, s2')"
  shows "(\<exists>chunks. sent (sock (view2 s2')) =
        sent (sock (view2 s2)) @ map (\<lambda>c. (c, SocketAddr d (port (addr_port q)))) chunks \<and>
        prefix (concat chunks) (inp (cli (view1 s1))) \<and> (\<forall>c\<in>set chunks. length c \<le> 4096) \<and>
        (chunks \<noteq> [] \<longrightarrow> v4_addr (SocketAddr d (port (addr_port q))))) \<and>
    (outp (cli (view2 s2)) = [] \<and> inp c = outp (cli (view2 s2')) \<longrightarrow>
      (\<exists>j. outp (cli (view1 s1')) =
        outp (cli (view1 s1)) @ concat (map (\<lambda>(b, _). take 4096 b) (take j (incoming (sock (view2 s2)))))))"
proof -
  let ?pk = "packet_of (atype q) (addr_port q)"
  let ?inc = "incoming (sock (view2 s2))"
  have dest: "into_SocketAddr dns (addr_port q) = Ok (SocketAddr d (port (addr_port q)))" for dns
    using request(3) by simp
  have wf: "wf_addr (atype q) (ip (addr_port q))" using request(1) by (simp add: wf_request_def)
  have cl: "\<exists>chunks. inp (cli (view1 s1)) = concat chunks @ inp (cli (view1 s1')) \<and> (\<forall>c\<in>set chunks. length c \<le> BUF_SIZE) \<and>
       outp (srv (view1 s1')) = handshake_bytes q (h_secret hdl1) @ uplink_bytes q chunks"
      "\<exists>j. outp (cli (view1 s1')) = outp (cli (view1 s1)) @ concat (map p_data (take j ks))"
    using udp_tcp_io.tcp_udp_relayed [OF client(1,2) request(2) client(3-5) fresh(2) client(6,7) answer(2,1) fresh(3) run1] fresh(1)
    by simp_all
  then obtain chunks where ch: "inp (cli (view1 s1)) = concat chunks @ inp (cli (view1 s1'))"
      "\<forall>c\<in>set chunks. length c \<le> BUF_SIZE" "inp (cli (view2 s2)) = concat (map encode_packet (map ?pk chunks))"
    using wire by (auto simp: uplink_bytes_def comp_def)
  have "\<forall>k\<in>set (map ?pk chunks). wf_packet k \<and> packet_dest (to_socket_addrs o2) k = Ok (SocketAddr d (port (addr_port q)))"
    using ch(2) wf dest by auto
  from udp_direct_io.direct_udp_relayed [OF server(1) _ _ this ch(3) server(2,3) run2] request(2)
  obtain i j where
      i: "sent (sock (view2 s2')) = sent (sock (view2 s2)) @ map (\<lambda>k. (p_data k, SocketAddr d (port (addr_port q)))) (take i (map ?pk chunks))"
      and v4: "\<forall>k\<in>set (take i (map ?pk chunks)). v4_addr (SocketAddr d (port (addr_port q)))"
      and j: "outp (cli (view2 s2')) = outp (cli (view2 s2)) @ reply_bytes (addr_port q) (take j ?inc)"
    unfolding forwarded_def answered_def datagrams_def by auto
  have "prefix (concat (take i chunks)) (concat chunks)"
    by (metis append_take_drop_id concat_append prefixI)
  then have up: "prefix (concat (take i chunks)) (inp (cli (view1 s1)))"
    using ch(1) by (simp add: prefix_prefix)
  have down: "map p_data ks = map (take BUF_SIZE \<circ> fst) (take j ?inc)" if "outp (cli (view2 s2)) = []" "inp c = outp (cli (view2 s2'))"
    using reply_payloads [OF wf request(3) answer(2)] that answer(1) j by simp
  obtain j' where j': "outp (cli (view1 s1')) = outp (cli (view1 s1)) @ concat (take j' (map p_data ks))"
    using cl(2) by (auto simp: take_map)
  show ?thesis
  proof (intro conjI impI exI)
    show "sent (sock (view2 s2')) =
        sent (sock (view2 s2)) @ map (\<lambda>c. (c, SocketAddr d (port (addr_port q)))) (take i chunks)"
      using i by (simp add: take_map comp_def)
    show "prefix (concat (take i chunks)) (inp (cli (view1 s1)))" by (rule up)
    show "\<forall>c\<in>set (take i chunks). length c \<le> 4096"
      using ch(2) in_set_takeD [of _ i chunks] by (auto simp: BUF_SIZE_def)
    show "v4_addr (SocketAddr d (port (addr_port q)))" if "take i chunks \<noteq> []"
      using v4 that by (cases "take i chunks") (auto simp: take_map)
    show "outp (cli (view1 s1')) = outp (cli (view1 s1)) @ concat (map (\<lambda>(b, _). take 4096 b) (take (min j' j) ?inc))"
      if "outp (cli (view2 s2)) = [] \<and> inp c = outp (cli (view2 s2'))"
      using j' down that by (simp add: take_map BUF_SIZE_def comp_def case_prod_unfold)
  qed
qed

theorem udp_chain_delivers_witness:
  "\<exists>s1' s2' chunks rest.
     snd (handle_tcp_stream net_inbound (net_outbound (\<lambda>_. Inr (peer [])) (\<lambda>_ _. None) (\<lambda>_ _. Inr []) [True, False])
       sample_handler sample_udp_request (Plain ()) (idle_net (peer [1, 2, 3]))) = s1' \<and>
     outp (srv s1') = handshake_bytes sample_udp_request sample_secret @ rest \<and>
     snd (handle_direct_stream net_inbound (sample_outbound [True, True, False]) sample_udp_request (Plain ())
       (idle_net (peer rest))) = s2' \<and>
     sent (sock s2') = map (\<lambda>c. (c, SocketAddr (V4 0x7F000001) 53)) chunks \<and> prefix (concat chunks) [1, 2, 3]"
proof -
  let ?io = "net_outbound (\<lambda>_. Inr (peer [])) (\<lambda>_ _. None) (\<lambda>_ _. Inr []) [True, False]"
  let ?run1 = "handle_tcp_stream net_inbound ?io sample_handler sample_udp_request (Plain ()) (idle_net (peer [1, 2, 3]))"
  let ?hs = "handshake_bytes sample_udp_request sample_secret"
  have runs: "?run1 = (fst ?run1, snd ?run1)" by simp
  have h: "h_protocol sample_handler = TROJAN" "h_destination sample_handler = Some (SocketAddr (V4 1) 443)"
      "length (h_secret sample_handler) = HEX_SIZE" "h_secret sample_handler = sample_secret" "h_tls sample_handler = None"
    by (simp_all add: sample_handler_def)
  obtain rest where rest: "outp (srv (snd ?run1)) = ?hs @ rest"
    using net_udp_tcp.tcp_udp_relayed [OF h(1) _ h(2,3) refl _ _ _ _ _ _ runs, where ks = "[]"] h(4,5) by auto
  let ?run2 = "handle_direct_stream net_inbound (sample_outbound [True, True, False]) sample_udp_request (Plain ()) (idle_net (peer rest))"
  have q: "sample_udp_request\<lparr>proxy_protocol := TROJAN\<rparr> = sample_udp_request"
    by (simp add: sample_udp_request_def InboundRequest_new_def)
  have run2: "handle_direct_stream net_inbound (sample_outbound [True, True, False]) (sample_udp_request\<lparr>proxy_protocol := TROJAN\<rparr>)
      (Plain ()) (idle_net (peer rest)) = (fst ?run2, snd ?run2)"
    by (simp add: q)
  have ip: "ip (addr_port sample_udp_request) = IpAddr (V4 0x7F000001)" "port (addr_port sample_udp_request) = 53"
    by (simp_all add: IpAddrPort_new_def from_u32_def)
  have "\<exists>chunks. sent (sock (snd ?run2)) = map (\<lambda>c. (c, SocketAddr (V4 0x7F000001) 53)) chunks \<and> prefix (concat chunks) [1, 2, 3]"
    using udp_chain_delivers [OF net_udp_tcp.udp_tcp_io_axioms h(1-3) refl _ _ _ _ _ _ _ _ _ ip(1) runs sample_udp_io(1) _ _ _ run2,
        where ks = "[]"] rest h(4,5) ip(2) by auto
  with rest show ?thesis
    by (elim exE conjE, intro exI [of _ "snd ?run1"] exI [of _ "snd ?run2"] exI [of _ rest] exI conjI) simp_all
qed

end
