(* ===== verification/Grpc_Relay.thy ===== *)
theory Grpc_Relay
  imports Grpc_Proxy Udp_Relay
begin

text \<open>
  The relay of the gRPC server: the bytes of a call's messages are read through a
  \<^verbatim>\<open>GrpcDataReaderStream\<close> and copied to the destination, or sent as datagrams, while what the
  destination sends goes back in messages. The contract of the operations and the invariants of the
  two directions. The messages are arbitrary, empty ones included, and so is the end of the stream.
\<close>

section \<open>The contract\<close>

text \<open>
  An operation beside the message stream tracks its counterpart on the network and leaves the
  messages alone; polling the stream leaves the network alone.
\<close>

definition beside ::
  "('s \<Rightarrow> bool) \<Rightarrow> ('s \<Rightarrow> 'b) \<Rightarrow> ('s \<Rightarrow> 't) \<Rightarrow> ('s, 'a) async \<Rightarrow> ('t, 'a) async \<Rightarrow> bool" where
  "beside invar left view m m0 \<longleftrightarrow> tracks view m m0 \<and>
     (\<forall>s r s'. invar s \<longrightarrow> m s = (r, s') \<longrightarrow> invar s' \<and> left s' = left s)"

lemma besideD:
  assumes "beside invar left view m m0" and "m s = (r, s')"
  shows "m0 (view s) = (r, view s')" and "invar s \<Longrightarrow> invar s'" and "invar s \<Longrightarrow> left s' = left s"
proof -
  have tr: "tracks view m m0" and keep: "\<forall>s r s'. invar s \<longrightarrow> m s = (r, s') \<longrightarrow> invar s' \<and> left s' = left s"
    using assms(1) unfolding beside_def by (rule conjunct1, rule conjunct2)
  show "m0 (view s) = (r, view s')"
    by (rule tracksD [OF tr assms(2)])
  show "invar s'" "left s' = left s" if "invar s"
    using keep [rule_format, OF that assms(2)] by simp_all
qed

lemma beside_tracks: "beside invar left view m m0 \<Longrightarrow> tracks view m m0"
  unfolding beside_def by (rule conjunct1)

lemma beside_await:
  assumes m: "beside invar left view m m0" and k: "\<And>a. beside invar left view (k a) (k0 a)"
  shows "beside invar left view (await m k) (await m0 k0)"
  unfolding beside_def
proof (intro conjI allI impI)
  show "tracks view (await m k) (await m0 k0)"
    by (intro sim_intros beside_tracks [OF m] beside_tracks [OF k])
  fix s r s'
  assume s: "invar s" and run: "await m k s = (r, s')"
  obtain q t where q: "m s = (q, t)" by (cases "m s")
  note t = besideD(2,3) [OF m q s]
  have "invar s' \<and> left s' = left s"
  proof (cases q)
    case (Ok a)
    then have "k a t = (r, s')" using run q by (simp add: await_def)
    from besideD(2,3) [OF k this t(1)] t(2) show ?thesis by simp
  qed (use run q t in \<open>auto simp: await_def\<close>)
  then show "invar s'" "left s' = left s" by simp_all
qed

lemma beside_map_err:
  assumes "beside invar left view m m0"
  shows "beside invar left view (map_err f m) (map_err f m0)"
  unfolding beside_def
proof (intro conjI allI impI)
  show "tracks view (map_err f m) (map_err f m0)"
    by (intro sim_intros beside_tracks [OF assms])
  fix s r s'
  assume s: "invar s" and run: "map_err f m s = (r, s')"
  obtain q t where q: "m s = (q, t)" by (cases "m s")
  have "s' = t"
    using run q by (cases q) (auto simp: map_err_def)
  then show "invar s'" "left s' = left s"
    using besideD(2,3) [OF assms q s] by simp_all
qed

lemma beside_return: "beside invar left view (return a) (return a)"
  unfolding beside_def by (auto intro: sim_intros)

text \<open>The bytes a message of the response stream carries.\<close>

fun hunk_bytes :: "Status + Hunk \<Rightarrow> bytes" where
  "hunk_bytes (Inr h) = data h"
| "hunk_bytes (Inl _) = []"

text \<open>The message that answers a datagram.\<close>

definition reply_hunk :: "InboundRequest \<Rightarrow> bytes \<times> SocketAddr \<Rightarrow> Status + Hunk" where
  "reply_hunk q x = Inr \<lparr>data = encode_packet (packet_of (atype q) (addr_port q) (take BUFFER_SIZE (fst x)))\<rparr>"

lemma udp_to_grpc_net:
  assumes "incoming (sock n) = (d, a) # ds" and "cend (chan n) = Accepting"
  shows "udp_to_grpc_step net_socket net_sender q n =
    (Ok (), n\<lparr>sock := (sock n)\<lparr>incoming := ds\<rparr>, chan := (chan n)\<lparr>msgs := msgs (chan n) @ [reply_hunk q (d, a)]\<rparr>\<rparr>)"
proof -
  have "[atype_u8 (atype q)] @
      (case ip (addr_port q) of
         IpAddr (V4 a) \<Rightarrow> octets (V4 a)
       | IpAddr (V6 a) \<Rightarrow> octets (V6 a)
       | Domain domain \<Rightarrow> [of_nat (length (as_bytes domain))] @ as_bytes domain) @
      be_bytes 2 (port (addr_port q)) @ be_bytes 2 (of_nat (length bs) :: u16) @ be_bytes 2 CRLF @ bs =
    encode_packet (packet_of (atype q) (addr_port q) bs)" for bs
    by (simp add: encode_packet_def packet_of_def udp_header_def as_bytes_def split: IpAddress.split IpAddr.split)
  with assms show ?thesis
    by (simp add: udp_to_grpc_step_def reply_hunk_def await_def map_err_def lift_async_def udp_ops_def udp_recv_from_def
        amap_def chan_ops_def chan_send_def)
qed

locale grpc_server_io =
  fixes io :: "'s grpc_io" and view :: "'s \<Rightarrow> (Status + Hunk) net" and invar :: "'s \<Rightarrow> bool"
    and queue :: "'s \<Rightarrow> bytes list" and final :: "'s \<Rightarrow> ending" and delay :: "'s \<Rightarrow> nat"
    and route :: "SocketAddr \<Rightarrow> io_error + conn" and refused :: io_error
  assumes ext: "feed_ext (g_ext io)"
    and source: "\<And>v. message_source (g_poll_next io) (\<lambda>s. invar s \<and> view s = v) queue final delay"
    and connect: "\<And>a. beside invar queue view (g_connect io a) (net_connect route a)"
    and rd: "\<And>n. beside invar queue view (read_buf (g_reader io) n) (read_buf srv_reader n)"
    and wr: "\<And>bs. beside invar queue view (write_all (g_writer io) bs) (write_all srv_writer bs)"
    and fl: "beside invar queue view (flush (g_writer io)) (flush srv_writer)"
    and tx: "\<And>m. beside invar queue view (send (g_tx io) m) (send net_sender m)"
    and ubind: "beside invar queue view (g_udp_bind io ''0.0.0.0:0'') (return ())"
    and udp_to: "\<And>bs d. beside invar queue view (send_to (g_socket io ''0.0.0.0:0'') bs d)
      (send_to (udp_v4 refused net_socket) bs d)"
    and udp_from: "\<And>n. beside invar queue view (recv (g_socket io ''0.0.0.0:0'') n) (recv net_socket n)"
    and copy_buf_pos: "0 < g_copy_buf io"
begin

abbreviation rest :: "'s GrpcDataReaderStream \<Rightarrow> bytes" where
  "rest g \<equiv> buf g @ concat (queue (reader g))"

abbreviation netof :: "'s GrpcDataReaderStream \<Rightarrow> (Status + Hunk) net" where
  "netof g \<equiv> view (reader g)"

abbreviation hunk_reader :: "'s GrpcDataReaderStream reader" where
  "hunk_reader \<equiv> g_ext io (grpc_poll (g_poll_next io))"

text \<open>One read through the messages: the next bytes, perhaps none, or no result.\<close>

lemma hunk_read:
  assumes "invar (reader g)" and "read hunk_reader (g_copy_buf io) g = (r, g')"
  shows "invar (reader g') \<and> netof g' = netof g \<and> (\<forall>p. r \<noteq> Panic p) \<and> (\<forall>bs. r = Ok bs \<longrightarrow> rest g = bs @ rest g')"
  using feed_ext.ext_read [OF ext message_source.data_feed [OF source, where v1 = "netof g"] _ copy_buf_pos assms(2)]
    assms(1) by auto

text \<open>A parser on the messages: when it succeeds, it has read what it would read from their bytes.\<close>

lemma hunk_follows:
  assumes "\<And>invar' firm. feed_reader hunk_reader invar' rest firm \<Longrightarrow> follows invar' rest firm m m0"
    and "invar (reader g)" and "m g = (r, g')"
  shows "invar (reader g') \<and> netof g' = netof g \<and>
    (is_Ok r \<longrightarrow> m0 (feed_conn rest g) = (r, feed_conn rest g')) \<and>
    (\<forall>p. r = Panic p \<longrightarrow> fst (m0 (feed_conn rest g)) = Panic p)"
proof -
  note fol = assms(1) [OF feed_ext.ext_feed [OF ext message_source.data_feed [OF source, where v1 = "netof g"]]]
  have "invar (reader g) \<and> netof g = netof g" using assms(2) by simp
  from followsD(1,2,4) [OF fol this assms(3)] show ?thesis by auto
qed

text \<open>An operation beside the reader, on the state with the reader's buffer.\<close>

lemma beside_run:
  assumes "beside invar queue view m m0" and "invar (reader g)" and "beside_hunks m g = (r, g')"
  shows "m0 (netof g) = (r, netof g') \<and> invar (reader g') \<and> rest g' = rest g"
proof -
  obtain t where t: "m (reader g) = (r, t)" "g' = g\<lparr>reader := t\<rparr>"
    using assms(3) by (auto simp: beside_hunks_def lift_async_def split: prod.splits)
  with besideD [OF assms(1) t(1)] assms(2) show ?thesis by simp
qed

text \<open>\<^bold>\<open>Connections.\<close>\<close>

text \<open>
  The account of both directions since the state \<open>g0\<close>: the destination received what was taken from
  the messages, or less once it stopped accepting, and the channel what was taken from it. When the
  reader has failed, only what was delivered before is accounted for.
\<close>

definition answering :: "'s GrpcDataReaderStream \<Rightarrow> 's GrpcDataReaderStream \<Rightarrow> bool" where
  "answering g0 g \<longleftrightarrow> invar (reader g) \<and>
     fed hunk_bytes (inp (srv (netof g0))) (msgs (chan (netof g0))) (srv (netof g)) (chan (netof g)) \<and>
     dialed (netof g) = dialed (netof g0)"

definition carrying :: "'s GrpcDataReaderStream \<Rightarrow> 's GrpcDataReaderStream \<Rightarrow> bool" where
  "carrying g0 g \<longleftrightarrow> answering g0 g \<and> copied (rest g0) (outp (srv (netof g0))) (peer (rest g)) (srv (netof g))"

definition carried :: "'s GrpcDataReaderStream \<Rightarrow> 's GrpcDataReaderStream \<Rightarrow> bool" where
  "carried g0 g \<longleftrightarrow> answering g0 g \<and> (\<exists>x. outp (srv (netof g)) = outp (srv (netof g0)) @ x \<and> prefix x (rest g0))"

lemma carrying_start: "invar (reader g) \<Longrightarrow> carrying g g"
  unfolding carrying_def answering_def using copied_start [of "peer (rest g)" "srv (netof g)"] by (simp add: fed_start)

lemma carrying_carried: "carrying g0 g \<Longrightarrow> carried g0 g"
  unfolding carrying_def carried_def using copied_prefix by blast

lemma carrying_write:
  assumes "carrying g0 g" and "rest g = bs @ rest h" and "bs \<noteq> []" and "invar (reader h)" and "netof h = netof g"
    and "beside_hunks (write_all (g_writer io) bs) h = (q, k)"
  shows "carrying g0 k \<and> (\<forall>p. q \<noteq> Panic p)"
proof -
  obtain b where b: "conn_write_all bs (srv (netof g)) = (q, b)" "netof k = (netof g)\<lparr>srv := b\<rparr>"
      "invar (reader k)" "rest k = rest h"
    using beside_run [OF wr assms(4,6)] assms(5) by (auto simp: lift_async_def split: prod.splits)
  obtain y where y: "outp b = outp (srv (netof g)) @ y" "prefix y bs" "y = bs \<or> blocked (oend b)"
      "blocked (oend (srv (netof g))) \<longrightarrow> y = [] \<and> blocked (oend b)" "inp b = inp (srv (netof g))" "\<forall>p. q \<noteq> Panic p"
    using conn_write_split [OF b(1) assms(3)] by (elim exE conjE)
  have "copied (rest g0) (outp (srv (netof g0))) (peer (rest k)) b"
    by (rule copied_extend [OF _ _ y(1-4), where a = "peer (rest g)"])
      (use assms(1,2) b(4) in \<open>simp_all add: carrying_def\<close>)
  moreover have "fed hunk_bytes (inp (srv (netof g0))) (msgs (chan (netof g0))) b (chan (netof g))"
    by (rule fed_same [OF _ y(5)]) (use assms(1) in \<open>simp add: carrying_def answering_def\<close>)
  ultimately show ?thesis
    using y(6) b(2,3) assms(1) unfolding carrying_def answering_def by simp
qed

lemma carrying_flush:
  assumes "carrying g0 g" and "rest g = rest h" and "invar (reader h)" and "netof h = netof g"
    and "beside_hunks (flush (g_writer io)) h = (q, k)"
  shows "carrying g0 k \<and> (\<forall>p. q \<noteq> Panic p)"
proof -
  obtain b where b: "conn_flush (srv (netof g)) = (q, b)" "netof k = (netof g)\<lparr>srv := b\<rparr>"
      "invar (reader k)" "rest k = rest h"
    using beside_run [OF fl assms(3,5)] assms(4) by (auto simp: lift_async_def split: prod.splits)
  with conn_flush_same [OF b(1)] assms(1,2) show ?thesis
    unfolding carrying_def answering_def by simp
qed

lemma carrying_up:
  assumes "carrying g0 g"
    and "copy_step (g_copy_buf io) hunk_reader (lift_writer reader (\<lambda>r. reader_update (\<lambda>_. r)) (g_writer io)) g = (q, g')"
  shows "carried g0 g' \<and> (q = Ok True \<longrightarrow> carrying g0 g') \<and> (\<forall>p. q \<noteq> Panic p)"
proof -
  have inv: "invar (reader g)" using assms(1) unfolding carrying_def answering_def by simp
  obtain rr h where rr: "read hunk_reader (g_copy_buf io) g = (rr, h)" by (cases "read hunk_reader (g_copy_buf io) g")
  note hr = hunk_read [OF inv rr]
  have lost: "carried g0 h"
    using carrying_carried [OF assms(1)] hr unfolding carried_def answering_def by simp
  show ?thesis
  proof (cases rr)
    case (Ok bs)
    with hr have bs: "rest g = bs @ rest h" "invar (reader h)" "netof h = netof g" by auto
    have "carrying g0 g' \<and> (\<forall>p. q \<noteq> Panic p)"
    proof (cases "bs = []")
      case True
      obtain rf k where rf: "beside_hunks (flush (g_writer io)) h = (rf, k)" by (cases "beside_hunks (flush (g_writer io)) h")
      have "g' = k \<and> ((\<forall>p. rf \<noteq> Panic p) \<longrightarrow> (\<forall>p. q \<noteq> Panic p))"
        using assms(2) rr Ok True rf by (cases rf) (auto simp: copy_step_def await_def beside_hunks_def)
      with carrying_flush [OF assms(1) _ bs(2,3) rf] bs(1) True show ?thesis by simp
    next
      case False
      obtain rw k where rw: "beside_hunks (write_all (g_writer io) bs) h = (rw, k)"
        by (cases "beside_hunks (write_all (g_writer io) bs) h")
      have "g' = k \<and> ((\<forall>p. rw \<noteq> Panic p) \<longrightarrow> (\<forall>p. q \<noteq> Panic p))"
        using assms(2) rr Ok False rw by (cases rw) (auto simp: copy_step_def await_def beside_hunks_def)
      with carrying_write [OF assms(1) bs(1) False bs(2,3) rw] show ?thesis by simp
    qed
    then show ?thesis using carrying_carried by blast
  qed (use assms(2) rr hr lost in \<open>auto simp: copy_step_def await_def\<close>)
qed

lemma answering_down:
  assumes "answering g0 g" and "beside_hunks (body_task (server_to_grpc_step (g_reader io) (g_tx io))) g = (q, g')"
  shows "answering g0 g' \<and> rest g' = rest g \<and> outp (srv (netof g')) = outp (srv (netof g)) \<and>
    oend (srv (netof g')) = oend (srv (netof g)) \<and> (\<forall>p. q \<noteq> Panic p)"
proof -
  have inv: "invar (reader g)" using assms(1) unfolding answering_def by simp
  have step: "beside invar queue view (body_task (server_to_grpc_step (g_reader io) (g_tx io)))
      (body_task (server_to_grpc_step srv_reader net_sender))"
    unfolding body_task_def amap_def server_to_grpc_step_def
    by (intro beside_await beside_map_err rd tx beside_return)
  note run = beside_run [OF step inv assms(2)]
  obtain rr a where rr: "conn_read BUFFER_SIZE (srv (netof g)) = (rr, a)"
    by (cases "conn_read BUFFER_SIZE (srv (netof g))")
  note keep = conn_read_keeps [OF rr]
  have fd: "fed hunk_bytes (inp (srv (netof g0))) (msgs (chan (netof g0))) (srv (netof g)) (chan (netof g))"
    using assms(1) unfolding answering_def by simp
  show ?thesis
  proof (cases "is_Ok rr")
    case True
    then obtain bs where Ok: "rr = Ok bs" by (auto simp: is_Ok_iff)
    obtain rs c where sd: "chan_send (Inr \<lparr>data = bs\<rparr>) (chan (netof g)) = (rs, c)"
      by (cases "chan_send (Inr \<lparr>data = bs\<rparr> :: Status + Hunk) (chan (netof g))")
    have res: "netof g' = (netof g)\<lparr>srv := a, chan := c\<rparr> \<and> (\<forall>p. q \<noteq> Panic p)"
      using run rr Ok sd chan_send_split [OF sd]
      by (cases rs) (auto simp: body_task_def amap_def server_to_grpc_step_def await_def map_err_def lift_async_def chan_ops_def)
    have "fed hunk_bytes (inp (srv (netof g0))) (msgs (chan (netof g0))) a c"
      by (rule fed_send [OF fd rr [unfolded Ok] sd]) simp
    with res run keep assms(1) show ?thesis unfolding answering_def by simp
  next
    case False
    then have "netof g' = (netof g)\<lparr>srv := a\<rparr> \<and> (\<forall>p. q \<noteq> Panic p)"
      using run rr keep(3)
      by (cases rr) (auto simp: body_task_def amap_def server_to_grpc_step_def await_def map_err_def lift_async_def)
    with run keep fed_read [OF fd rr False] assms(1) show ?thesis unfolding answering_def by simp
  qed
qed

lemma carrying_down:
  assumes "carrying g0 g" and "beside_hunks (body_task (server_to_grpc_step (g_reader io) (g_tx io))) g = (q, g')"
  shows "carrying g0 g'"
proof -
  have "answering g0 g" and cp: "copied (rest g0) (outp (srv (netof g0))) (peer (rest g)) (srv (netof g))"
    using assms(1) unfolding carrying_def by simp_all
  note down = answering_down [OF this(1) assms(2)]
  have "copied (rest g0) (outp (srv (netof g0))) (peer (rest g')) (srv (netof g'))"
    by (rule copied_same [OF cp]) (use down in simp_all)
  with down show ?thesis unfolding carrying_def by simp
qed

lemma carried_down:
  assumes "carried g0 g" and "beside_hunks (body_task (server_to_grpc_step (g_reader io) (g_tx io))) g = (q, g')"
  shows "carried g0 g' \<and> (\<forall>p. q \<noteq> Panic p)"
  using answering_down [OF _ assms(2), of g0] assms(1) unfolding carried_def by simp

lemma carry_run:
  assumes "invar (reader g)" and "select_run (g_schedule io)
      (copy_step (g_copy_buf io) hunk_reader (lift_writer reader (\<lambda>r. reader_update (\<lambda>_. r)) (g_writer io)))
      (beside_hunks (body_task (server_to_grpc_step (g_reader io) (g_tx io)))) g = (r, g')"
  shows "carried g g' \<and> (r = Ok () \<or> r = Hang)"
proof -
  have "carried g g' \<and> (r = Hang \<or> r = Ok () \<and> (True \<or> True))"
    by (rule select_run_guarded [where P = "carrying g", OF carrying_start [OF assms(1)] assms(2)])
      (erule carrying_carried, use carrying_up in blast, erule (1) carrying_down, use carried_down in blast)
  then show ?thesis by blast
qed

lemma handle_connect:
  assumes "gh_protocol self = TROJAN" and "command q = Connect"
    and "into_SocketAddr (g_dns io) (addr_port q) = Ok a" and "route a = Inr c" and "invar (reader g)"
    and "handle_hunk io self q g = (r, g')"
  shows "(r = Ok () \<or> r = Hang) \<and> dialed (netof g') = dialed (netof g) @ [a] \<and>
    (\<exists>x. outp (srv (netof g')) = outp c @ x \<and> prefix x (rest g)) \<and>
    (\<exists>new. msgs (chan (netof g')) = msgs (chan (netof g)) @ new \<and> prefix (concat (map hunk_bytes new)) (inp c))"
proof -
  obtain rc h where h: "beside_hunks (g_connect io a) g = (rc, h)" by (cases "beside_hunks (g_connect io a) g")
  have n: "rc = Ok ()" "netof h = (netof g)\<lparr>dialed := dialed (netof g) @ [a], srv := c\<rparr>" "invar (reader h)" "rest h = rest g"
    using beside_run [OF connect assms(5) h] assms(4) by (auto simp: net_connect_def)
  have "select_run (g_schedule io)
      (copy_step (g_copy_buf io) hunk_reader (lift_writer reader (\<lambda>r. reader_update (\<lambda>_. r)) (g_writer io)))
      (beside_hunks (body_task (server_to_grpc_step (g_reader io) (g_tx io)))) h = (r, g')"
    using assms(1-3,6) h n(1) by (simp add: handle_hunk_def await_def)
  from carry_run [OF n(3) this] n(2,4) show ?thesis
    using fed_prefix [of hunk_bytes "inp c" "msgs (chan (netof g))" "srv (netof g')" "chan (netof g')"]
    unfolding carried_def answering_def by simp
qed

text \<open>\<^bold>\<open>Datagrams.\<close>\<close>

text \<open>
  What has been sent are the payloads of an initial part of the packets in the messages, and what
  has gone into the channel are the answers so far, each in one message.
\<close>

definition replying :: "InboundRequest \<Rightarrow> 's GrpcDataReaderStream \<Rightarrow> 's GrpcDataReaderStream \<Rightarrow> bool" where
  "replying q g0 g \<longleftrightarrow> invar (reader g) \<and>
     (\<exists>j. incoming (sock (netof g)) = drop j (incoming (sock (netof g0))) \<and>
        msgs (chan (netof g)) = msgs (chan (netof g0)) @ map (reply_hunk q) (take j (incoming (sock (netof g0))))) \<and>
     uend (sock (netof g)) = Accepting \<and> cend (chan (netof g)) = Accepting \<and> dialed (netof g) = dialed (netof g0)"

definition sending ::
  "(packet \<Rightarrow> SocketAddr) \<Rightarrow> InboundRequest \<Rightarrow> packet list \<Rightarrow> 's GrpcDataReaderStream \<Rightarrow> 's GrpcDataReaderStream \<Rightarrow> bool" where
  "sending dst q ks g0 g \<longleftrightarrow> replying q g0 g \<and>
     (\<exists>i. rest g = concat (map encode_packet (drop i ks)) \<and> datagrams dst ks i (netof g0) (netof g))"

definition sent_some ::
  "(packet \<Rightarrow> SocketAddr) \<Rightarrow> InboundRequest \<Rightarrow> packet list \<Rightarrow> 's GrpcDataReaderStream \<Rightarrow> 's GrpcDataReaderStream \<Rightarrow> bool" where
  "sent_some dst q ks g0 g \<longleftrightarrow> replying q g0 g \<and> (\<exists>i. datagrams dst ks i (netof g0) (netof g))"

lemma sending_sent: "sending dst q ks g0 g \<Longrightarrow> sent_some dst q ks g0 g"
  unfolding sending_def sent_some_def by blast

text \<open>Reading the next packet out of the messages: it is the next of the sequence, or there is no result.\<close>

abbreviation next_packet :: "('s GrpcDataReaderStream, bytes \<times> SocketAddr) async" where
  "next_packet \<equiv>
     await (parse_udp (g_dns io) hunk_reader) (\<lambda>header.
     if \<not> payload_size header \<le> BUF_SIZE then panic ''Payload size exceeds read buffer size''
     else
     await (read_exact hunk_reader (payload_size header)) (\<lambda>read_buf.
     if \<not> length read_buf = payload_size header then panic ''Failed to read the entire trojan udp packet''
     else return (read_buf, dest header)))"

abbreviation next_packet0 :: "(conn, bytes \<times> SocketAddr) async" where
  "next_packet0 \<equiv>
     await (parse_udp (g_dns io) conn_reader) (\<lambda>header.
     if \<not> payload_size header \<le> BUF_SIZE then panic ''Payload size exceeds read buffer size''
     else
     await (read_exact conn_reader (payload_size header)) (\<lambda>read_buf.
     if \<not> length read_buf = payload_size header then panic ''Failed to read the entire trojan udp packet''
     else return (read_buf, dest header)))"

lemma follows_panic: "follows iv rs firm (panic p) (panic p)"
  by (rule followsI) (auto simp: shrinks_def)

lemma next_packet_run:
  assumes "\<forall>k\<in>set ks. wf_packet k \<and> packet_dest (g_dns io) k = Ok (dst k)" and "invar (reader g)"
    and "rest g = concat (map encode_packet ks)" and "next_packet g = (r, h)"
  shows "invar (reader h) \<and> netof h = netof g \<and> (\<forall>p. r \<noteq> Panic p) \<and>
    (is_Ok r \<longrightarrow> (\<exists>k l. ks = k # l \<and> r = Ok (p_data k, dst k) \<and> rest h = concat (map encode_packet l)))"
proof -
  have "follows iv rest firm next_packet next_packet0" if "feed_reader hunk_reader iv rest firm" for iv firm
    by (intro follows_await feed_reader.follows_parse_udp [OF that] feed_reader.follows_read_exact [OF that])
      (auto intro!: follows_await follows_panic follows_return feed_reader.follows_read_exact [OF that]
        simp del: conn_reader_sel)
  note run = hunk_follows [OF this assms(2,4)]
  show ?thesis
  proof (cases ks)
    case Nil
    with assms(3) have "inp (feed_conn rest g) = []" by simp
    from parse_udp_at_end [OF this] have "fst (parse_udp (g_dns io) conn_reader (feed_conn rest g)) = Hang"
      by (simp add: source_conn_def)
    then have "fst (next_packet0 (feed_conn rest g)) = Hang"
      by (auto simp: await_def split: prod.splits)
    with run show ?thesis by auto
  next
    case (Cons k l)
    have k: "wf_packet k" "packet_dest (g_dns io) k = Ok (dst k)" using assms(1) Cons by simp_all
    let ?c = "feed_conn rest g"
    have "?c = ?c\<lparr>inp := encode_packet k @ concat (map encode_packet l)\<rparr>"
      using assms(3) Cons by (simp add: source_conn_def)
    from parse_encoded_packet [OF k, where c = ?c and rest = "concat (map encode_packet l)", folded this]
    have p0: "next_packet0 ?c = (Ok (p_data k, dst k), ?c\<lparr>inp := concat (map encode_packet l)\<rparr>)"
      using k(1) by (simp add: await_def wf_packet_def)
    with run have "is_Ok r \<longrightarrow> r = Ok (p_data k, dst k) \<and> feed_conn rest h = ?c\<lparr>inp := concat (map encode_packet l)\<rparr>"
      by simp
    with p0 run Cons show ?thesis using feed_conn_eqD by fastforce
  qed
qed

lemma client_to_udp_step_split:
  "client_to_udp_step (g_dns io) hunk_reader (lift_udp reader (\<lambda>r. reader_update (\<lambda>_. r)) U) =
     await next_packet (\<lambda>(bs, d). await (beside_hunks (send_to U bs d)) (\<lambda>_. return ()))"
proof -
  have panics: "await (panic p) k = panic p" for p and k :: "'x \<Rightarrow> ('s GrpcDataReaderStream, 'y) async"
    by (rule HOL.ext) (simp add: await_def)
  show ?thesis
    by (simp add: client_to_udp_step_def beside_hunks_def await_assoc if_distrib [of "\<lambda>m. await m _"] panics cong: if_cong)
qed

lemma sending_up:
  assumes "\<forall>k\<in>set ks. wf_packet k \<and> packet_dest (g_dns io) k = Ok (dst k)" and "sending dst q ks g0 g"
    and "client_to_udp_step (g_dns io) hunk_reader
      (lift_udp reader (\<lambda>r. reader_update (\<lambda>_. r)) (g_socket io ''0.0.0.0:0'')) g = (p, g')"
  shows "sent_some dst q ks g0 g' \<and> (is_Ok p \<longrightarrow> sending dst q ks g0 g') \<and> (\<forall>x. p \<noteq> Panic x)"
proof -
  obtain i where i: "rest g = concat (map encode_packet (drop i ks))" "datagrams dst ks i (netof g0) (netof g)"
    using assms(2) unfolding sending_def by (elim exE conjE)
  have rp: "replying q g0 g" "invar (reader g)" "uend (sock (netof g)) = Accepting"
    using assms(2) unfolding sending_def replying_def by simp_all
  obtain r h where r: "next_packet g = (r, h)" by (cases "next_packet g")
  have wf: "\<forall>k\<in>set (drop i ks). wf_packet k \<and> packet_dest (g_dns io) k = Ok (dst k)"
    using assms(1) in_set_dropD by fast
  note np = next_packet_run [OF wf rp(2) i(1) r]
  have keep: "replying q g0 h" "datagrams dst ks i (netof g0) (netof h)"
    using np rp(1) i(2) unfolding replying_def by simp_all
  show ?thesis
  proof (cases "is_Ok r")
    case False
    then have "g' = h \<and> \<not> is_Ok p \<and> (\<forall>x. p \<noteq> Panic x)"
      using assms(3) r np unfolding client_to_udp_step_split by (cases r) (auto simp: await_def)
    with keep show ?thesis unfolding sent_some_def by blast
  next
    case True
    with np obtain k l where k: "drop i ks = k # l" "r = Ok (p_data k, dst k)" "rest h = concat (map encode_packet l)"
      by blast
    obtain rs t where rs: "beside_hunks (send_to (g_socket io ''0.0.0.0:0'') (p_data k) (dst k)) h = (rs, t)"
      by (cases "beside_hunks (send_to (g_socket io ''0.0.0.0:0'') (p_data k) (dst k)) h")
    have "invar (reader h)" using np by simp
    note snd = beside_run [OF udp_to this rs]
    have p: "g' = t" "p = bind_outcome rs (\<lambda>_. Ok ())"
      using assms(3) r k(2) rs unfolding client_to_udp_step_split by (cases rs; simp add: await_def)+
    show ?thesis
    proof (cases "v4_addr (dst k)")
      case True
      then have t: "rs = Ok (length (p_data k))"
          "netof t = (netof g)\<lparr>sock := (sock (netof g))\<lparr>sent := sent (sock (netof g)) @ [(p_data k, dst k)]\<rparr>\<rparr>"
        using snd np rp(3) by (simp_all add: udp_v4_def lift_async_def udp_ops_def udp_send_to_def)
      have "datagrams dst ks (Suc i) (netof g0) (netof t) \<and> drop (Suc i) ks = l"
        by (rule datagrams_next [OF i(2) k(1) True]) (simp add: t(2))
      moreover have "replying q g0 t" using rp(1) t(2) snd unfolding replying_def by simp
      ultimately have "sending dst q ks g0 t"
        using snd k(3) unfolding sending_def by (intro conjI exI [of _ "Suc i"]) simp_all
      with p t(1) sending_sent show ?thesis by simp
    next
      case False
      then have "rs = Err refused" "netof t = netof g"
        using snd np by (simp_all add: udp_v4_def)
      moreover from this have "replying q g0 t" "datagrams dst ks i (netof g0) (netof t)"
        using rp(1) i(2) snd unfolding replying_def by simp_all
      ultimately show ?thesis using p unfolding sent_some_def by auto
    qed
  qed
qed

lemma replying_down:
  assumes "replying q g0 g" and "beside_hunks (body_task (udp_to_grpc_step (g_socket io ''0.0.0.0:0'') (g_tx io) q)) g = (p, g')"
  shows "replying q g0 g' \<and> rest g' = rest g \<and> sent (sock (netof g')) = sent (sock (netof g)) \<and> (\<forall>x. p \<noteq> Panic x)"
proof -
  obtain j where j: "incoming (sock (netof g)) = drop j (incoming (sock (netof g0)))"
      "msgs (chan (netof g)) = msgs (chan (netof g0)) @ map (reply_hunk q) (take j (incoming (sock (netof g0))))"
    using assms(1) unfolding replying_def by (elim exE conjE)
  have inv: "invar (reader g)" and acc: "cend (chan (netof g)) = Accepting"
    using assms(1) unfolding replying_def by simp_all
  have "beside invar queue view (body_task (udp_to_grpc_step (g_socket io ''0.0.0.0:0'') (g_tx io) q))
      (body_task (udp_to_grpc_step net_socket net_sender q))"
    unfolding body_task_def amap_def udp_to_grpc_step_def Let_def
    by (intro beside_await beside_map_err udp_from tx beside_return)
  note run = beside_run [OF this inv assms(2)]
  show ?thesis
  proof (cases "incoming (sock (netof g))")
    case Nil
    with run have "netof g' = netof g \<and> (\<forall>x. p \<noteq> Panic x)"
      by (cases "udend (sock (netof g))")
        (auto simp: body_task_def amap_def udp_to_grpc_step_def await_def map_err_def lift_async_def udp_ops_def udp_recv_from_def)
    with run assms(1) show ?thesis unfolding replying_def by simp
  next
    case (Cons x ds)
    obtain d a where x: "x = (d, a)" by (cases x)
    have dr: "drop j (incoming (sock (netof g0))) = (d, a) # ds" using Cons x j(1) by simp
    have g': "netof g' = (netof g)\<lparr>sock := (sock (netof g))\<lparr>incoming := ds\<rparr>,
        chan := (chan (netof g))\<lparr>msgs := msgs (chan (netof g)) @ [reply_hunk q (d, a)]\<rparr>\<rparr>" "p = Ok True"
      using run Cons x acc udp_to_grpc_net [of "netof g" d a ds q] by (simp_all add: body_task_def amap_def await_def)
    have "\<exists>j. incoming (sock (netof g')) = drop j (incoming (sock (netof g0))) \<and>
        msgs (chan (netof g')) = msgs (chan (netof g0)) @ map (reply_hunk q) (take j (incoming (sock (netof g0))))"
      using drop_step [OF dr] j(2) g'(1) by (intro exI [of _ "Suc j"]) simp
    with g' run assms(1) show ?thesis unfolding replying_def by simp
  qed
qed

lemma handle_udp:
  assumes "gh_protocol self = TROJAN" and "command q = Udp" and "invar (reader g)"
    and "\<forall>k\<in>set ks. wf_packet k \<and> packet_dest (g_dns io) k = Ok (dst k)"
    and "rest g = concat (map encode_packet ks)"
    and "uend (sock (netof g)) = Accepting" and "cend (chan (netof g)) = Accepting"
    and "handle_hunk io self q g = (r, g')"
  shows "(r = Ok () \<or> r = Hang) \<and> sent_some dst q ks g g'"
proof -
  obtain rb h where h: "beside_hunks (g_udp_bind io ''0.0.0.0:0'') g = (rb, h)"
    by (cases "beside_hunks (g_udp_bind io ''0.0.0.0:0'') g")
  have n: "rb = Ok ()" "netof h = netof g" "invar (reader h)" "rest h = rest g"
    using beside_run [OF ubind assms(3) h] by auto
  let ?up = "client_to_udp_step (g_dns io) hunk_reader (lift_udp reader (\<lambda>r. reader_update (\<lambda>_. r)) (g_socket io ''0.0.0.0:0''))"
  let ?down = "beside_hunks (body_task (udp_to_grpc_step (g_socket io ''0.0.0.0:0'') (g_tx io) q))"
  have run: "select_run (g_schedule io) (body_task ?up) ?down h = (r, g')"
    using assms(1,2,8) h n(1) by (simp add: handle_hunk_def await_def Let_def)
  have "replying q g h"
    unfolding replying_def using n assms(6,7) by (intro conjI exI [of _ 0]) simp_all
  then have start: "sending dst q ks g h"
    unfolding sending_def datagrams_def using assms(5) n by (intro conjI exI [of _ 0]) simp_all
  have "sent_some dst q ks g g' \<and> (r = Hang \<or> r = Ok () \<and> (True \<or> True))"
  proof (rule select_run_guarded [where P = "sending dst q ks g", OF start run])
    fix t p t'
    assume "sending dst q ks g t" and "body_task ?up t = (p, t')"
    then obtain p0 where "?up t = (p0, t')" "p = bind_outcome p0 (\<lambda>_. Ok True)" by (auto elim: body_task_run)
    with sending_up [OF assms(4) \<open>sending dst q ks g t\<close> this(1)]
    show "sent_some dst q ks g t' \<and> (p = Ok True \<longrightarrow> sending dst q ks g t') \<and> (\<forall>x. p \<noteq> Panic x) \<and> (p = Ok True \<or> p = Hang \<or> True)"
      by (cases p0) auto
  next
    fix t p t'
    assume st: "sending dst q ks g t" and "?down t = (p, t')"
    then have "replying q g t'" "rest t' = rest t" "sent (sock (netof t')) = sent (sock (netof t))"
      using replying_down [of q g t p t'] unfolding sending_def by blast+
    with st show "sending dst q ks g t'"
      unfolding sending_def datagrams_def by simp
  next
    fix t p t'
    assume st: "sent_some dst q ks g t" and "?down t = (p, t')"
    then have "replying q g t'" "sent (sock (netof t')) = sent (sock (netof t))" "\<forall>x. p \<noteq> Panic x"
      using replying_down [of q g t p t'] unfolding sent_some_def by blast+
    with st show "sent_some dst q ks g t' \<and> (\<forall>x. p \<noteq> Panic x) \<and> (p = Ok True \<or> p = Hang \<or> True)"
      unfolding sent_some_def datagrams_def by simp
  qed (rule sending_sent)
  then show ?thesis by blast
qed

end

text \<open>The loop towards the client does not end with its input either.\<close>

lemma grpc_downlink_spins:
  assumes "iend (srv n) = Eof" and "cend (chan n) = Accepting"
  shows "copy_server_reader_to_client_grpc_writer srv_reader net_sender n = None"
  unfolding copy_server_reader_to_client_grpc_writer_def
proof (rule loop_diverges [where P = "\<lambda>n. iend (srv n) = Eof \<and> cend (chan n) = Accepting"])
  show "\<exists>t'. server_to_grpc_step srv_reader net_sender t = (Ok (), t') \<and>
      iend (srv t') = Eof \<and> cend (chan t') = Accepting" if "iend (srv t) = Eof \<and> cend (chan t) = Accepting"
    for t :: "(Status + Hunk) net"
    using that
    by (auto simp: server_to_grpc_step_def await_def lift_async_def chan_ops_def conn_read_def Let_def map_err_def chan_send_def)
qed (use assms in simp)

section \<open>A call over the abstract network\<close>

text \<open>The messages of a call as a script, beside the network of the task.\<close>

type_synonym call = "bytes option list \<times> (Status + Hunk) net"

definition call_next :: "ending \<Rightarrow> call hunk_stream" where
  "call_next e s = (case script_next e (fst s) of (p, c) \<Rightarrow> (p, (c, snd s)))"

definition on_net :: "((Status + Hunk) net, 'a) async \<Rightarrow> (call, 'a) async" where
  "on_net = lift_async snd (\<lambda>n s. (fst s, n))"

definition v4_refused :: io_error where
  "v4_refused = Error OtherKind ''Address family not supported by protocol''"

definition call_io :: "ending \<Rightarrow> (SocketAddr \<Rightarrow> io_error + conn) \<Rightarrow> resolver \<Rightarrow> bool list \<Rightarrow> call grpc_io" where
  "call_io e route dns sched =
     \<lparr>g_poll_next = call_next e, g_ext = poll_ext, g_connect = (\<lambda>a. on_net (net_connect route a)),
      g_reader = lift_reader snd (\<lambda>n s. (fst s, n)) srv_reader, g_writer = lift_writer snd (\<lambda>n s. (fst s, n)) srv_writer,
      g_udp_bind = (\<lambda>_. return ()), g_socket = (\<lambda>_. lift_udp snd (\<lambda>n s. (fst s, n)) (udp_v4 v4_refused net_socket)),
      g_tx = lift_sender snd (\<lambda>n s. (fst s, n)) net_sender, g_dns = dns, g_copy_buf = 8192, g_schedule = sched\<rparr>"

abbreviation call_queue :: "call \<Rightarrow> bytes list" where
  "call_queue s \<equiv> script_queue (fst s)"

lemma beside_lift: "beside (\<lambda>_. True) call_queue snd (lift_async snd (\<lambda>n s. (fst s, n)) m) m"
  unfolding beside_def
  by (auto simp: tracks_iff lift_async_def split: prod.splits)

lemma call_source:
  "message_source (call_next e) (\<lambda>s. True \<and> snd s = v) call_queue (\<lambda>_. e) (\<lambda>s. length (fst s))"
proof (unfold_locales, goal_cases)
  case (1 r h r')
  then show ?case
    using messages.next_Hunk [of e] by (auto simp: call_next_def split: prod.splits)
next
  case (2 r st r')
  then show ?case
    using messages.next_Status [of e] by (auto simp: call_next_def split: prod.splits)
next
  case (3 r r')
  then show ?case
    using messages.next_None [of e] by (auto simp: call_next_def split: prod.splits)
next
  case (4 r r')
  then show ?case
    using messages.next_Pending [of e "fst r"] by (auto simp: call_next_def split: prod.splits)
next
  case (5 r q r')
  then show ?case
    using messages.next_Ok [of e] by (auto simp: call_next_def split: prod.splits)
qed

interpretation net_call: grpc_server_io "call_io e route dns sched" snd "\<lambda>_. True" call_queue "\<lambda>_. e"
  "\<lambda>s. length (fst s)" route v4_refused
  by (rule grpc_server_io.intro)
    (simp_all add: call_io_def on_net_def beside_lift beside_return poll_ext_feed.feed_ext_axioms call_source [simplified]
      udp_v4_def)

text \<open>
  A call up to its acceptance: the header lies in non-empty messages, more of the call follows, and
  the handler is left with the bytes behind the header.
\<close>

lemma call_accepted:
  assumes "grpc_server_io io view invar queue final delay route refused" and "invar s"
    and "GrpcAcceptor_new sha224 cfg None = (acceptor, cell1)" and "GrpcHandler_new None = (handler, cell2)"
    and "in_protocol cfg = TROJAN" and "in_secret cfg = Some pw" and "length (sha224 (bytes_of_str pw)) = 28"
    and "wf_request q" and "ip (addr_port q) = IpAddr d"
    and "queue s = hs @ ms" and "concat hs = handshake_bytes q (hex_secret sha224 pw) @ x" and "[] \<notin> set hs"
    and "ms \<noteq> [] \<or> final s = Open"
  obtains h where "invar (reader h)" "view (reader h) = view s" "buf h @ concat (queue (reader h)) = x @ concat ms"
    "gh_protocol handler = TROJAN"
    "\<forall>r g. handle_hunk io handler (q\<lparr>proxy_protocol := TROJAN\<rparr>) h = (r, g) \<longrightarrow> r = Ok () \<or> r = Hang \<longrightarrow>
       tun io (GrpcProxyService_new acceptor handler) s = (r, g)"
proof -
  have acc: "ga_protocol acceptor = TROJAN" "ga_secret acceptor = hex_secret sha224 pw" "gh_protocol handler = TROJAN"
    using assms(3-6) by (auto simp: GrpcAcceptor_new_def GrpcHandler_new_def Let_def secret_of_def)
  have len: "length (ga_secret acceptor) = HEX_SIZE"
    using acc(2) assms(7) by (simp add: length_hex_secret HEX_SIZE_def)
  have inv: "invar s \<and> view s = view s" using assms(2) by simp
  obtain h where h: "accept_hunk (g_ext io) (g_poll_next io) acceptor s = (Ok (q\<lparr>proxy_protocol := TROJAN\<rparr>), h)"
      "invar (reader h) \<and> view (reader h) = view s" "buf h @ concat (queue (reader h)) = x @ concat ms"
    using accept_hunk_handshake [OF grpc_server_io.ext [OF assms(1)] grpc_server_io.source [OF assms(1)] inv acc(1) len
        assms(8,9,10) _ assms(12,13), where x = x] assms(11) acc(2) by auto
  show ?thesis
    by (rule that [of h]) (use h acc(3) in \<open>auto simp: tun_def GrpcProxyService_new_def\<close>)
qed

lemma call_relayed:
  assumes "grpc_server_io io view invar queue final delay route refused" and "invar s"
    and "GrpcAcceptor_new sha224 cfg None = (acceptor, cell1)" and "GrpcHandler_new None = (handler, cell2)"
    and "in_protocol cfg = TROJAN" and "in_secret cfg = Some pw" and "length (sha224 (bytes_of_str pw)) = 28"
    and "wf_request q" and "command q = Connect" and "ip (addr_port q) = IpAddr d"
    and "route (SocketAddr d (port (addr_port q))) = Inr c"
    and "queue s = hs @ ms" and "concat hs = handshake_bytes q (hex_secret sha224 pw) @ x" and "[] \<notin> set hs"
    and "ms \<noteq> [] \<or> final s = Open"
    and "tun io (GrpcProxyService_new acceptor handler) s = (r, g)"
  shows "(r = Ok () \<or> r = Hang) \<and> dialed (view (reader g)) = dialed (view s) @ [SocketAddr d (port (addr_port q))] \<and>
    (\<exists>y. outp (srv (view (reader g))) = outp c @ y \<and> prefix y (x @ concat ms)) \<and>
    (\<exists>new. msgs (chan (view (reader g))) = msgs (chan (view s)) @ new \<and> prefix (concat (map hunk_bytes new)) (inp c))"
proof -
  let ?q = "q\<lparr>proxy_protocol := TROJAN\<rparr>"
  obtain h where h: "invar (reader h)" "view (reader h) = view s" "buf h @ concat (queue (reader h)) = x @ concat ms"
      "gh_protocol handler = TROJAN"
      "\<forall>r g. handle_hunk io handler ?q h = (r, g) \<longrightarrow> r = Ok () \<or> r = Hang \<longrightarrow>
         tun io (GrpcProxyService_new acceptor handler) s = (r, g)"
    by (rule call_accepted [OF assms(1-8,10,12-15)]) (rule that)
  obtain r0 k where run: "handle_hunk io handler ?q h = (r0, k)" by (cases "handle_hunk io handler ?q h")
  have dest: "into_SocketAddr (g_dns io) (addr_port ?q) = Ok (SocketAddr d (port (addr_port q)))"
    using assms(10) by simp
  have cmd: "command ?q = Connect" using assms(9) by simp
  note res = grpc_server_io.handle_connect [OF assms(1) h(4) cmd dest assms(11) h(1) run]
  then have "r = r0" "g = k" using h(5) run assms(16) by auto
  with res h(2,3) show ?thesis by simp
qed

definition sample_grpc_acceptor :: GrpcAcceptor where
  "sample_grpc_acceptor = \<lparr>ga_protocol = TROJAN, ga_secret = sample_secret\<rparr>"

definition sample_grpc_handler :: GrpcHandler where
  "sample_grpc_handler = \<lparr>gh_protocol = TROJAN\<rparr>"

lemma sample_service:
  "GrpcAcceptor_new sample_digest sample_inbound None = (sample_grpc_acceptor, Some sample_grpc_acceptor)"
  "GrpcHandler_new None = (sample_grpc_handler, Some sample_grpc_handler)"
  by (simp_all add: GrpcAcceptor_new_def GrpcHandler_new_def sample_inbound_def secret_of_def sample_digest_secret
      sample_grpc_acceptor_def sample_grpc_handler_def)

section \<open>Properties\<close>

text \<open>
  C9: A gRPC call to an IP address, from its messages to the destination. Let the first messages of
  a call, none of them empty, carry the header that the client side writes under the configured
  password and perhaps the begin of the payload, cut in any way, let the call go on after them, and
  let the destination accept the connection. The task that \<^verbatim>\<open>tun\<close> spawns dials exactly that
  address, sends it a prefix of the bytes that follow the header, and answers with messages whose
  bytes are a prefix of what the address sent, under every schedule and without a panic. The messages
  after the header are arbitrary: an empty one among them ends what is sent, and then the prefix
  stops there.
\<close>

theorem grpc_call_relayed:
  assumes "grpc_server_io io view invar queue final delay route refused" and "invar s"
    and "GrpcAcceptor_new sha224 cfg None = (acceptor, cell1)" and "GrpcHandler_new None = (handler, cell2)"
    and "in_protocol cfg = TROJAN" and "in_secret cfg = Some pw" and "length (sha224 (bytes_of_str pw)) = 28"
    and "wf_request q" and "command q = Connect" and "ip (addr_port q) = IpAddr d"
    and "route (SocketAddr d (port (addr_port q))) = Inr c"
    and "queue s = hs @ ms" and "concat hs = handshake_bytes q (hex_secret sha224 pw) @ x" and "[] \<notin> set hs"
    and "ms \<noteq> [] \<or> final s = Open"
    and "tun io (GrpcProxyService_new acceptor handler) s = (r, g)"
  shows "(r = Ok () \<or> r = Hang) \<and> dialed (view (reader g)) = dialed (view s) @ [SocketAddr d (port (addr_port q))] \<and>
    (\<exists>y. outp (srv (view (reader g))) = outp c @ y \<and> prefix y (x @ concat ms)) \<and>
    (\<exists>new. msgs (chan (view (reader g))) = msgs (chan (view s)) @ new \<and> prefix (concat (map hunk_bytes new)) (inp c))"
  by (rule call_relayed [OF assms])

theorem grpc_call_relayed_witness:
  "\<exists>r g. tun (call_io Eof sample_route (\<lambda>_ _. Inr []) [True, False, True])
     (GrpcProxyService_new sample_grpc_acceptor sample_grpc_handler)
     (sample_call (handshake_bytes (trojan_into_request sample_request) sample_secret) [7], idle_net (peer [])) = (r, g) \<and>
     dialed (snd (reader g)) = [SocketAddr (V4 0x7F000001) 80]"
proof -
  let ?bs = "handshake_bytes (trojan_into_request sample_request) sample_secret"
  let ?run = "tun (call_io Eof sample_route (\<lambda>_ _. Inr []) [True, False, True]) (GrpcProxyService_new sample_grpc_acceptor sample_grpc_handler)
      (sample_call ?bs [7], idle_net (peer []))"
  have q: "command (trojan_into_request sample_request) = Connect"
    by (simp add: trojan_into_request_eq InboundRequest_new_def sample_request_def TrojanRequest_new_def)
  have "?run = (fst ?run, snd ?run)" by simp
  from grpc_call_relayed [OF net_call.grpc_server_io_axioms _ sample_service _ _ _ wf_sample_request q ip_sample_request _ _ _
      sample_call_queue(2) [OF length_sample_handshake] _ this, where pw = "''pw''" and x = "[]" and c = "peer [9]" and ms = "[[], [7]]"]
  show ?thesis
    by (intro exI [of _ "fst ?run"] exI [of _ "snd ?run"])
      (simp add: sample_call_queue(1) sample_inbound_def sample_digest_secret sample_digest_def sample_route_def IpAddrPort_new_def)
qed

text \<open>
  C36: UDP over a gRPC call, for a request to an IP address. Let the first messages of a call, none
  of them empty, carry the header of a UDP request under the configured password, let the call go on
  after them, and let the bytes that follow the header, however they are cut into messages, be a
  sequence of well-formed packets, each with at most 4096 bytes of payload and a destination that
  resolves; let the socket and the channel to the client keep accepting data. Under every schedule
  of the two loops there is no panic and no connection is opened, the datagrams sent are the payloads
  of an initial part of these packets, in order and each to its own destination, all of them IPv4
  because of the address the socket is bound to, and the client is answered with an initial part
  of the datagrams that arrived, each cut at the size of the buffer and alone in a message, as a
  packet under the address of the request.
\<close>

theorem grpc_udp_relayed:
  assumes "grpc_server_io io view invar queue final delay route refused" and "invar s"
    and "GrpcAcceptor_new sha224 cfg None = (acceptor, cell1)" and "GrpcHandler_new None = (handler, cell2)"
    and "in_protocol cfg = TROJAN" and "in_secret cfg = Some pw" and "length (sha224 (bytes_of_str pw)) = 28"
    and "wf_request q" and "command q = Udp" and "ip (addr_port q) = IpAddr d"
    and "queue s = hs @ ms" and "concat hs = handshake_bytes q (hex_secret sha224 pw) @ x" and "[] \<notin> set hs"
    and "ms \<noteq> [] \<or> final s = Open"
    and "x @ concat ms = concat (map encode_packet ks)"
    and "\<forall>k\<in>set ks. wf_packet k \<and> packet_dest (g_dns io) k = Ok (dst k)"
    and "uend (sock (view s)) = Accepting" and "cend (chan (view s)) = Accepting"
    and "tun io (GrpcProxyService_new acceptor handler) s = (r, g)"
  shows "(r = Ok () \<or> r = Hang) \<and> dialed (view (reader g)) = dialed (view s) \<and>
    (\<exists>i\<le>length ks. sent (sock (view (reader g))) = sent (sock (view s)) @ map (\<lambda>k. (p_data k, dst k)) (take i ks) \<and>
       (\<forall>k\<in>set (take i ks). v4_addr (dst k))) \<and>
    (\<exists>j. msgs (chan (view (reader g))) = msgs (chan (view s)) @ map (\<lambda>(dgram, _).
       Inr \<lparr>data = encode_packet (packet_of (atype q) (addr_port q) (take BUFFER_SIZE dgram))\<rparr>)
       (take j (incoming (sock (view s)))))"
proof -
  let ?q = "q\<lparr>proxy_protocol := TROJAN\<rparr>"
  obtain h where h: "invar (reader h)" "view (reader h) = view s" "buf h @ concat (queue (reader h)) = x @ concat ms"
      "gh_protocol handler = TROJAN"
      "\<forall>r g. handle_hunk io handler ?q h = (r, g) \<longrightarrow> r = Ok () \<or> r = Hang \<longrightarrow>
         tun io (GrpcProxyService_new acceptor handler) s = (r, g)"
    by (rule call_accepted [OF assms(1-8,10-14)]) (rule that)
  obtain r0 k where run: "handle_hunk io handler ?q h = (r0, k)" by (cases "handle_hunk io handler ?q h")
  have "(r0 = Ok () \<or> r0 = Hang) \<and> grpc_server_io.sent_some view invar dst ?q ks h k"
    by (rule grpc_server_io.handle_udp [OF assms(1) h(4) _ h(1) assms(16) _ _ _ run]) (use assms(9,15,17,18) h(2,3) in simp_all)
  moreover from this have "r = r0" "g = k" using h(5) run assms(19) by auto
  moreover have "reply_hunk ?q = (\<lambda>(dgram, _). Inr \<lparr>data = encode_packet (packet_of (atype q) (addr_port q) (take BUFFER_SIZE dgram))\<rparr>)"
    by (rule ext) (simp add: reply_hunk_def split: prod.split)
  ultimately show ?thesis
    using h(2) unfolding grpc_server_io.sent_some_def [OF assms(1)] grpc_server_io.replying_def [OF assms(1)] datagrams_def
    by auto
qed

theorem grpc_udp_relayed_witness:
  "\<exists>r g i. tun (call_io Eof sample_route (\<lambda>_ _. Inr []) [True, False, True])
     (GrpcProxyService_new sample_grpc_acceptor sample_grpc_handler)
     (sample_call (handshake_bytes Udp_Relay.sample_udp_request sample_secret)
        (encode_packet (packet_of IPv4 (IpAddrPort_new (from_u32 8) 53) [7])), idle_net (peer [])) = (r, g) \<and>
     sent (sock (snd (reader g))) = take i [([7], SocketAddr (V4 8) 53)]"
proof -
  let ?k = "packet_of IPv4 (IpAddrPort_new (from_u32 8) 53) [7]"
  let ?bs = "handshake_bytes Udp_Relay.sample_udp_request sample_secret"
  let ?run = "tun (call_io Eof sample_route (\<lambda>_ _. Inr []) [True, False, True]) (GrpcProxyService_new sample_grpc_acceptor sample_grpc_handler)
      (sample_call ?bs (encode_packet ?k), idle_net (peer []))"
  have run: "?run = (fst ?run, snd ?run)" by simp
  have dns: "packet_dest (g_dns (call_io Eof sample_route (\<lambda>_ _. Inr []) [True, False, True])) ?k = Ok (SocketAddr (V4 8) 53)"
    by (simp add: call_io_def packet_dest_def packet_of_def IpAddrPort_new_def from_u32_def)
  have ks: "\<forall>k\<in>set [?k]. wf_packet k \<and>
      packet_dest (g_dns (call_io Eof sample_route (\<lambda>_ _. Inr []) [True, False, True])) k = Ok (SocketAddr (V4 8) 53)"
    using dns by (simp add: BUF_SIZE_def IpAddrPort_new_def)
  have q: "ip (addr_port Udp_Relay.sample_udp_request) = IpAddr (V4 0x7F000001)"
    by (simp add: IpAddrPort_new_def from_u32_def)
  from grpc_udp_relayed [OF net_call.grpc_server_io_axioms _ sample_service _ _ _ Udp_Relay.sample_udp_sel(6,4) q _ _
      sample_call_queue(2) [OF length_sample_handshake] _ _ ks _ _ run,
      where pw = "''pw''" and x = "[]" and ms = "[[], encode_packet ?k]"]
  obtain i where "sent (sock (snd (reader (snd ?run)))) = map (\<lambda>k. (p_data k, SocketAddr (V4 8) 53)) (take i [?k])"
    by (auto simp: sample_call_queue(1) sample_inbound_def sample_digest_secret sample_digest_def)
  then have "sent (sock (snd (reader (snd ?run)))) = take i [([7], SocketAddr (V4 8) 53)]"
    by (cases i) simp_all
  then show ?thesis
    by (intro exI [of _ "fst ?run"] exI [of _ "snd ?run"] exI [of _ i]) simp
qed

end
