(* ===== verification/Direct_Outbound.thy ===== *)
theory Direct_Outbound
  imports Tcp_Stream
begin

text \<open>
  The stream of \<^verbatim>\<open>src/protocol/direct/outbound.rs\<close>: a connection behind a \<^verbatim>\<open>BufReader\<close> of 512 bytes.
  The file is not part of the module tree, so no other part of the program uses it. The functions of
  \<^verbatim>\<open>BufReader\<close> are arguments; \<open>buffered_poll\<close> is a function that reads through a buffer of the given
  capacity and keeps what the documentation promises.
\<close>

section \<open>The stream\<close>

record 'b DirectOutboundStream =
  direct_stream :: 'b

definition DirectOutboundStream_new :: "(nat \<Rightarrow> 's \<Rightarrow> 'b) \<Rightarrow> 's \<Rightarrow> 'b DirectOutboundStream" where
  "DirectOutboundStream_new with_capacity stream = \<lparr>direct_stream = with_capacity 512 stream\<rparr>"

definition direct_poll_read :: "'b poll_reader \<Rightarrow> 'b DirectOutboundStream poll_reader" where
  "direct_poll_read rd n self =
     (case rd n (direct_stream self) of (r, bs, b) \<Rightarrow> (r, bs, self\<lparr>direct_stream := b\<rparr>))"

definition direct_poll_write :: "'b poll_writer \<Rightarrow> 'b DirectOutboundStream poll_writer" where
  "direct_poll_write wr bs self =
     (case wr bs (direct_stream self) of (r, b) \<Rightarrow> (r, self\<lparr>direct_stream := b\<rparr>))"

definition direct_poll_flush :: "'b poll_action \<Rightarrow> 'b DirectOutboundStream poll_action" where
  "direct_poll_flush fl self =
     (case fl (direct_stream self) of (r, b) \<Rightarrow> (r, self\<lparr>direct_stream := b\<rparr>))"

definition direct_poll_shutdown :: "'b poll_action \<Rightarrow> 'b DirectOutboundStream poll_action" where
  "direct_poll_shutdown sd self =
     (case sd (direct_stream self) of (r, b) \<Rightarrow> (r, self\<lparr>direct_stream := b\<rparr>))"

section \<open>The stream keeps the contracts\<close>

context poll_source
begin

lemma direct_source:
  "poll_source (direct_poll_read poll) (\<lambda>d. invar (direct_stream d)) (\<lambda>d. rest (direct_stream d))
    (\<lambda>d. final (direct_stream d)) (\<lambda>d. delay (direct_stream d))"
proof (unfold_locales, goal_cases)
  case (1 s n u bs s')
  with poll_Ok [of "direct_stream s" n u bs "direct_stream s'"] show ?case
    by (auto simp: direct_poll_read_def split: prod.splits)
next
  case (2 s n e bs s')
  with poll_Err [of "direct_stream s" n e bs "direct_stream s'"] show ?case
    by (auto simp: direct_poll_read_def split: prod.splits)
next
  case (3 s n bs s')
  with poll_Pending [of "direct_stream s" n bs "direct_stream s'"] show ?case
    by (auto simp: direct_poll_read_def split: prod.splits)
next
  case (4 s n p bs s')
  with poll_no_Panic [of "direct_stream s" n p bs "direct_stream s'"] show ?case
    by (auto simp: direct_poll_read_def split: prod.splits)
next
  case (5 s n bs s')
  with poll_no_Hang [of "direct_stream s" n bs "direct_stream s'"] show ?case
    by (auto simp: direct_poll_read_def split: prod.splits)
qed

end

context poll_sink
begin

lemma direct_sink:
  "poll_sink (direct_poll_write poll_write) (direct_poll_flush poll_flush) (direct_poll_shutdown poll_shutdown)
    (\<lambda>d. invar (direct_stream d)) (\<lambda>d. written (direct_stream d))"
proof (unfold_locales, goal_cases)
  case (1 s bs r s')
  with sink_write [of "direct_stream s" bs r "direct_stream s'"] show ?case
    by (auto simp: direct_poll_write_def split: prod.splits)
next
  case (2 s q s')
  with sink_flush [of "direct_stream s" q "direct_stream s'"] show ?case
    by (auto simp: direct_poll_flush_def split: prod.splits)
next
  case (3 s q s')
  with sink_shutdown [of "direct_stream s" q "direct_stream s'"] show ?case
    by (auto simp: direct_poll_shutdown_def split: prod.splits)
qed

end

section \<open>A buffered reader\<close>

text \<open>A read of at least the capacity goes past an empty buffer; a smaller one fills the buffer first.\<close>

fun buffered_poll :: "nat \<Rightarrow> 's poll_reader \<Rightarrow> (bytes \<times> 's) poll_reader" where
  "buffered_poll cap poll n (b, s) =
     (if b \<noteq> [] then (Ready (Ok ()), take n b, (drop n b, s))
      else if cap \<le> n then (case poll n s of (r, bs, s') \<Rightarrow> (r, bs, ([], s')))
      else (case poll cap s of
              (Ready (Ok u), bs, s') \<Rightarrow> (Ready (Ok u), take n bs, (drop n bs, s'))
            | (r, bs, s') \<Rightarrow> (r, [], ([], s'))))"

context poll_source
begin

lemma buffered_cases:
  assumes "buffered_poll cap poll n d = (r, bs, d')" and "0 < cap"
  obtains (hit) "fst d \<noteq> []" "r = Ready (Ok ())" "bs = take n (fst d)" "d' = (drop n (fst d), snd d)"
  | (past) s' where "fst d = []" "poll n (snd d) = (r, bs, s')" "d' = ([], s')"
  | (fill) u bs0 s' where "fst d = []" "n < cap" "poll cap (snd d) = (Ready (Ok u), bs0, s')" "r = Ready (Ok u)"
      "bs = take n bs0" "d' = (drop n bs0, s')"
  | (miss) bs0 s' where "fst d = []" "poll cap (snd d) = (r, bs0, s')" "\<And>u. r \<noteq> Ready (Ok u)" "bs = []" "d' = ([], s')"
proof (cases "fst d = []")
  case False
  with hit assms(1) show thesis by (cases d) simp
next
  case True
  show thesis
  proof (cases "cap \<le> n")
    case cap: True
    with past True assms(1) show thesis by (cases d; cases "poll n (snd d)") simp
  next
    case cap: False
    obtain r0 bs0 s0 where run: "poll cap (snd d) = (r0, bs0, s0)" by (cases "poll cap (snd d)")
    show thesis
    proof (cases "\<exists>u. r0 = Ready (Ok u)")
      case True
      with fill cap \<open>fst d = []\<close> run assms(1) show thesis by (cases d) auto
    next
      case False
      then have "r = r0" "bs = []" "d' = ([], s0)"
        using cap \<open>fst d = []\<close> run assms(1) by (cases d; cases r0; auto split: outcome.splits)+
      with miss \<open>fst d = []\<close> run False show thesis by blast
    qed
  qed
qed

lemma buffered_source:
  assumes "0 < cap"
  shows "poll_source (buffered_poll cap poll) (\<lambda>d. invar (snd d)) (\<lambda>d. fst d @ rest (snd d)) (\<lambda>d. final (snd d))
    (\<lambda>d. delay (snd d))"
proof (unfold_locales, goal_cases)
  case (1 d n u bs d')
  from 1(3) assms show ?case
  proof (cases rule: buffered_cases)
    case (past s')
    from poll_Ok [OF 1(1,2) past(2)] past show ?thesis by auto
  next
    case (fill v bs0 s')
    from poll_Ok [OF 1(1) assms fill(3)] fill 1(2) show ?thesis by auto
  qed (use 1(1,2) in simp_all)
next
  case (2 d n e bs d')
  from 2(3) assms show ?case
  proof (cases rule: buffered_cases)
    case (past s')
    from poll_Err [OF 2(1,2) past(2)] past show ?thesis by simp
  next
    case (miss bs0 s')
    from poll_Err [OF 2(1) assms miss(2)] miss show ?thesis by simp
  qed simp_all
next
  case (3 d n bs d')
  from 3(3) assms show ?case
  proof (cases rule: buffered_cases)
    case (past s')
    from poll_Pending [OF 3(1,2) past(2)] past show ?thesis by simp
  next
    case (miss bs0 s')
    from poll_Pending [OF 3(1) assms miss(2)] miss show ?thesis by simp
  qed simp_all
next
  case (4 d n p bs d')
  show ?case
  proof
    assume "buffered_poll cap poll n d = (Ready (Panic p), bs, d')"
    from this assms show False
      by (cases rule: buffered_cases) (use poll_no_Panic [OF 4(1)] 4(2) assms in auto)
  qed
next
  case (5 d n bs d')
  show ?case
  proof
    assume "buffered_poll cap poll n d = (Ready Hang, bs, d')"
    from this assms show False
      by (cases rule: buffered_cases) (use poll_no_Hang [OF 5(1)] 5(2) assms in auto)
  qed
qed

end

text \<open>
  A new stream over a connection reads the bytes of the connection, all of them and in order, and
  ends as the connection ends.
\<close>

lemma direct_outbound_transparent:
  assumes "poll_source poll invar rest final delay"
  shows "poll_source (direct_poll_read (buffered_poll 512 poll)) (\<lambda>d. invar (snd (direct_stream d)))
      (\<lambda>d. fst (direct_stream d) @ rest (snd (direct_stream d))) (\<lambda>d. final (snd (direct_stream d)))
      (\<lambda>d. delay (snd (direct_stream d)))"
    and "fst (direct_stream (DirectOutboundStream_new (\<lambda>_ c. ([], c)) s)) @
      rest (snd (direct_stream (DirectOutboundStream_new (\<lambda>_ c. ([], c)) s))) = rest s"
  using poll_source.direct_source [OF poll_source.buffered_source [OF assms, of 512]]
  by (simp_all add: DirectOutboundStream_new_def)

interpretation direct_script: poll_source "direct_poll_read (buffered_poll 512 script_poll)"
  "\<lambda>d. script_ok (snd (direct_stream d))" "\<lambda>d. fst (direct_stream d) @ script_rest (snd (direct_stream d))" "\<lambda>_. Open"
  "\<lambda>d. length (snd (direct_stream d))"
  using direct_outbound_transparent(1) [OF script.poll_source_axioms] .

end
