(* ===== verification/Spec2Isabelle.thy ===== *)
theory Spec2Isabelle
  imports Main_Program Grpc_Client Grpc_Relay Udp_Relay Direct_Outbound
begin

text \<open>
  A verification of a proxy for the Trojan and SOCKS5 protocols (the Rust crate under
  \<^verbatim>\<open>src/src\<close>; file names below are relative to it).

  \<^bold>\<open>The program.\<close> The program reads a configuration (\<^verbatim>\<open>main.rs\<close>,
  \<^verbatim>\<open>config\<close>) and starts one of three servers: TCP, gRPC or QUIC (\<^verbatim>\<open>proxy\<close>). A server
  accepts a connection, an acceptor reads the proxy request from it (\<^verbatim>\<open>protocol/trojan\<close>,
  \<^verbatim>\<open>protocol/socks5\<close>) and a handler serves the request: it connects to the destination itself
  (direct mode) or to a further proxy over TCP, gRPC or QUIC, to which it sends a Trojan header, and
  then relays bytes or datagrams both ways until one side ends.

  \<^bold>\<open>How the model is built.\<close> An asynchronous function is a function from a state to an
  outcome and a state; the outcomes are a result, an error, a panic and waiting forever
  (\<^verbatim>\<open>Trojan_Prelude\<close>). The operations of \<^verbatim>\<open>tokio\<close>, \<^verbatim>\<open>rustls\<close>,
  \<^verbatim>\<open>tonic\<close>, \<^verbatim>\<open>quinn\<close>, the resolver, the file system, the JSON and PEM readers and the hash
  function are arguments, grouped in records. What is assumed of them is stated by locales as a
  simulation of an abstract byte stream, datagram socket, channel or network; every locale is
  interpreted on these abstract objects, and each property that has such an assumption is applied to
  them in a witness. The texts of panics are those of the source with the message of the error
  appended.

  \<^bold>\<open>Loops and concurrency.\<close> A \<^verbatim>\<open>loop\<close> of the source is a partial function into an option
  type; not returning is \<^verbatim>\<open>None\<close>, and both returning and not returning are proved as such.
  \<^verbatim>\<open>select!\<close> over two tasks is a run under a finite schedule that says which task moves next; a
  schedule that is used up stands for a run still going on, so a statement for all schedules is one
  about every moment of every interleaving of the steps. A step of a task is one pass of its loop.
  There is no other bound: sizes of messages, numbers of connections and lengths of runs are
  arbitrary. Integers have the width of the source.

  \<^bold>\<open>Theories, in the order of the layers.\<close>

  \<^item> \<^verbatim>\<open>Trojan_Prelude\<close>: outcomes, asynchronous functions, simulation, big-endian words.
  \<^item> \<^verbatim>\<open>Common\<close>: address types, commands, addresses, requests (\<^verbatim>\<open>protocol/common\<close>,
    \<^verbatim>\<open>proxy/base.rs\<close>). \<^verbatim>\<open>Fmt\<close>: the textual forms of addresses and the standard library's parser
    of socket addresses, with the round trip for IPv4.
  \<^item> \<^verbatim>\<open>Async_Io\<close>, \<^verbatim>\<open>Async_Poll\<close>: reader and writer operations, the abstract stream, and the step
    from polled sources to readers, both for sources that deliver all their bytes and for sources
    that may report an end before their bytes are used up.
  \<^item> \<^verbatim>\<open>Trojan\<close> (\<^verbatim>\<open>protocol/trojan/base.rs, parser.rs, mod.rs\<close>): parsers, authentication and
    handshake. The parser accepts exactly the encodings of requests, never panics and treats
    truncated input as such; \<^verbatim>\<open>accept\<close> needs the secret; handshake and accept are inverse for IP
    addresses, and are not for domain names.
  \<^item> \<^verbatim>\<open>Socks5\<close> (\<^verbatim>\<open>protocol/socks5\<close>): the SOCKS5 handshake on the encoding of RFC 1928, what it
    reads and writes for IP addresses, and how it misreads domain names.
  \<^item> \<^verbatim>\<open>Relay\<close>: loops, \<^verbatim>\<open>select!\<close>, cursors, the abstract network, and the invariant and
    termination of copying in both directions.
  \<^item> \<^verbatim>\<open>Grpc_Stream\<close> (\<^verbatim>\<open>transport/grpc_stream.rs\<close>): messages to bytes and bytes to messages. The
    contract of a message stream is that messages arrive whole and in order, empty ones included, and
    that the stream then ends, fails or stays open. The reader gives their bytes in order, and reports
    the end of the stream at an empty message.
  \<^item> \<^verbatim>\<open>Packet\<close> (\<^verbatim>\<open>protocol/trojan/packet.rs\<close>): the six loops that carry UDP traffic, what they
    deliver end to end, and when they panic or never end.
  \<^item> \<^verbatim>\<open>Tcp_Stream\<close> (\<^verbatim>\<open>protocol/common/stream.rs\<close>): a stream over plain TCP or TLS passes every call on
    to the wrapped stream. \<^verbatim>\<open>Direct_Outbound\<close> (\<^verbatim>\<open>protocol/direct/outbound.rs\<close>, which is not part of the module tree
    and is used by nothing): the same for a connection behind a buffered reader.
  \<^item> \<^verbatim>\<open>Config\<close> (\<^verbatim>\<open>config\<close>): the configuration, TLS configurations and the derived secret.
  \<^item> \<^verbatim>\<open>Tcp_Acceptor\<close>, \<^verbatim>\<open>Tcp_Handler\<close>, \<^verbatim>\<open>Tcp_Server\<close> (\<^verbatim>\<open>proxy/tcp\<close>): who is accepted, what each
    outbound mode relays, and the server as a transition system with invariants of its reachable
    states. \<^verbatim>\<open>Grpc_Client\<close>: the gRPC mode of the handler. \<^verbatim>\<open>Udp_Relay\<close>: UDP requests in direct mode
    and in TCP mode, both loops under every schedule, and the two modes in a chain.
  \<^item> \<^verbatim>\<open>Grpc_Proxy\<close>, \<^verbatim>\<open>Grpc_Relay\<close> (\<^verbatim>\<open>proxy/grpc\<close>): acceptor, handler and service; which calls are
    accepted, for arbitrary messages; and a call from its messages to the destination, with a
    connection or with datagrams.
  \<^item> \<^verbatim>\<open>Quic_Server\<close> (\<^verbatim>\<open>proxy/quic\<close>): start, the task of a connection, the accept loop as a transition
    system. \<^verbatim>\<open>Main_Program\<close> (\<^verbatim>\<open>main.rs\<close>): command line, configuration, choice of the server.
  \<^item> This theory: two runs of the program in a chain, from a SOCKS5 application or an accepted request,
    over TCP or gRPC, to the destination and back; what arrives is a prefix of what was sent under
    every schedule, and all of it when the application closes its side and the schedules are long
    enough, one step more than there are bytes.

  \<^bold>\<open>Not modelled.\<close> Log lines; the module declarations and the build script, which have no behaviour
  of their own; how the argument parser reads a command line and how \<^verbatim>\<open>serde\<close> decodes the JSON text,
  both arguments of the program; the number behind the capacity of a channel
  (\<^verbatim>\<open>CHANNEL_SIZE\<close>): a channel takes any number of messages, or fails or stops taking them after any
  number of them, which covers every capacity; when tasks are woken, which the schedules cover. In
  the transition systems of the TCP and the QUIC server the tasks of different connections have
  separate states, as they share only the immutable acceptor and handler, and accepting a connection
  or serving a request is one step; interference between connections is outside the model.

  \<^bold>\<open>Scope of the end-to-end statements.\<close> The Trojan handshake and the SOCKS5 parser do not
  transfer domain names, as shown in \<^verbatim>\<open>Trojan\<close> and \<^verbatim>\<open>Socks5\<close>; what is delivered is therefore stated
  for requests to IP addresses. The UDP sockets are bound to an IPv4 address: the contract of such a
  socket is that a datagram to an IPv6 address is refused. In a gRPC call the messages with the
  header must not be empty, which holds for those that the client side sends; every later message is
  arbitrary.
\<close>

section \<open>Two proxies in a chain\<close>

text \<open>
  A connection served by the chain of a client-side proxy in TCP mode and a server-side proxy in
  direct mode: the server side finds on its connection what the client side has written.
\<close>

lemma chain_secret:
  assumes "main_program env1 = Ok (Tcp_Service acc1 hdl1)" and "CONFIG env1 = Ok (inb1, outb1)"
    and "main_program env2 = Ok (Tcp_Service acc2 hdl2)" and "CONFIG env2 = Ok (inb2, outb2)"
    and "out_protocol outb1 = TROJAN" and "out_secret outb1 = Some pw"
    and "in_protocol inb2 = TROJAN" and "in_secret inb2 = Some pw"
    and "env_sha224 env2 = env_sha224 env1" and "length (env_sha224 env1 (bytes_of_str pw)) = 28"
  shows "h_secret hdl1 = acc_secret acc2" and "length (acc_secret acc2) = HEX_SIZE"
  using main_tcp_fields(5) [OF assms(1,2)] main_tcp_fields(2) [OF assms(3,4)] assms(5-10)
  by (simp_all add: secret_of_def length_hex_secret HEX_SIZE_def)

text \<open>The client side of the chain: the header of the request, and behind it what the application sends.\<close>

lemma chain_client:
  assumes "relay_io inb io view route tls_check" and "h_mode handler = OutboundTCP" and "h_protocol handler = TROJAN"
    and "length (h_secret handler) = HEX_SIZE" and "h_destination handler = Some a" and "route a = Inr c"
    and "\<And>cfg name. h_tls handler = Some (cfg, name) \<Longrightarrow> tls_check cfg name = None"
    and "outp c = []" and "oend c = Accepting" and "transport_protocol q = TCP"
    and "dispatch inb io handler h q s = (r, s')"
  shows "\<exists>x y. outp (srv (view s')) = handshake_bytes q (h_secret handler) @ x \<and> prefix x (inp (cli (view s))) \<and>
    outp (cli (view s')) = outp (cli (view s)) @ y \<and> prefix y (inp c)"
proof -
  have tcp: "handle_tcp_stream inb io handler q h s = (r, s')"
    using assms(2,11) by (simp add: dispatch_def)
  from relay_io.tcp_relayed [OF assms(1,3,10,5,4,6,7) tcp]
  obtain z y where z: "outp (srv (view s')) = z" "prefix z (handshake_bytes q (h_secret handler) @ inp (cli (view s)))"
      "prefix (handshake_bytes q (h_secret handler)) z" "outp (cli (view s')) = outp (cli (view s)) @ y" "prefix y (inp c)"
    using assms(8,9) by auto
  moreover from z(2,3) obtain x where "z = handshake_bytes q (h_secret handler) @ x" "prefix x (inp (cli (view s)))"
    by (auto simp: prefix_def)
  ultimately show ?thesis by blast
qed

text \<open>The server side of the chain, on a connection that begins with the header of a request.\<close>

lemma chain_served:
  assumes "server_io inb io view route tls_check accept_check"
    and "acc_protocol acceptor = TROJAN" and "length (acc_secret acceptor) = HEX_SIZE"
    and "\<And>cfg. tls_acceptor acceptor = Some cfg \<Longrightarrow> accept_check cfg = None"
    and "h_mode handler = OutboundDIRECT" and "wf_request q" and "ip (addr_port q) = IpAddr d"
    and "inp (cli (view s)) = handshake_bytes q (acc_secret acceptor) @ x"
    and "connection_task inb io acceptor handler s = (r, s')"
  obtains h t r0 where "view t = (view s)\<lparr>cli := (cli (view s))\<lparr>inp := x\<rparr>\<rparr>"
    and "handle_direct_stream inb io (q\<lparr>proxy_protocol := TROJAN\<rparr>) h t = (r0, s')"
    and "r0 = Ok () \<or> r0 = Hang \<Longrightarrow> r = r0"
proof -
  let ?q = "q\<lparr>proxy_protocol := TROJAN\<rparr>"
  obtain h t where t: "TcpAcceptor_accept inb acceptor s = (Ok (?q, h), t)"
      "view t = (view s)\<lparr>cli := (cli (view s))\<lparr>inp := x\<rparr>\<rparr>"
    using server_io.accept_handshake [OF assms(1-3,6,7,8,4)] by blast
  obtain r0 t' where run: "handle_direct_stream inb io ?q h t = (r0, t')"
    by (cases "handle_direct_stream inb io ?q h t")
  have "s' = t'" "r0 = Ok () \<or> r0 = Hang \<Longrightarrow> r = r0"
    using assms(5,9) t(1) run by (auto simp: connection_task_def dispatch_def split: outcome.splits)
  with that [OF t(2)] run show thesis by simp
qed

lemma chain_server:
  assumes "server_io inb io view route tls_check accept_check"
    and "acc_protocol acceptor = TROJAN" and "length (acc_secret acceptor) = HEX_SIZE"
    and "\<And>cfg. tls_acceptor acceptor = Some cfg \<Longrightarrow> accept_check cfg = None"
    and "h_mode handler = OutboundDIRECT" and "wf_request q" and "transport_protocol q = TCP"
    and "ip (addr_port q) = IpAddr d" and "route (SocketAddr d (port (addr_port q))) = Inr c"
    and "inp (cli (view s)) = handshake_bytes q (acc_secret acceptor) @ x"
    and "connection_task inb io acceptor handler s = (r, s')"
  shows "dialed (view s') = dialed (view s) @ [SocketAddr d (port (addr_port q))] \<and> (r = Ok () \<or> r = Hang) \<and>
    (\<exists>y. outp (srv (view s')) = outp c @ y \<and> prefix y x) \<and>
    (\<exists>y. outp (cli (view s')) = outp (cli (view s)) @ y \<and> prefix y (inp c))"
    and "iend (cli (view s)) = Eof \<Longrightarrow> oend (cli (view s)) = Accepting \<Longrightarrow> iend c = Open \<Longrightarrow> oend c = Accepting \<Longrightarrow>
      length x < count_list (schedule io) True \<Longrightarrow> r = Ok () \<and> outp (srv (view s')) = outp c @ x"
proof -
  let ?q = "q\<lparr>proxy_protocol := TROJAN\<rparr>"
  have io: "relay_io inb io view route tls_check"
    using assms(1) by (simp add: server_io_def)
  obtain h t r0 where t: "view t = (view s)\<lparr>cli := (cli (view s))\<lparr>inp := x\<rparr>\<rparr>"
      "handle_direct_stream inb io ?q h t = (r0, s')" "r0 = Ok () \<or> r0 = Hang \<Longrightarrow> r = r0"
    by (rule chain_served [OF assms(1-3) _ assms(5,6,8,10,11)]) (use assms(4) in blast)+
  have dest: "into_SocketAddr (to_socket_addrs io) (addr_port ?q) = Ok (SocketAddr d (port (addr_port q)))"
    using assms(8) by simp
  from relay_io.copy_both_run(1-4) [OF io relay_io.direct_run [OF io _ _ dest assms(9) t(2)]]
  show "dialed (view s') = dialed (view s) @ [SocketAddr d (port (addr_port q))] \<and> (r = Ok () \<or> r = Hang) \<and>
      (\<exists>y. outp (srv (view s')) = outp c @ y \<and> prefix y x) \<and>
      (\<exists>y. outp (cli (view s')) = outp (cli (view s)) @ y \<and> prefix y (inp c))"
    using assms(7) t(1,3) by simp
  show "r = Ok () \<and> outp (srv (view s')) = outp c @ x"
    if "iend (cli (view s)) = Eof" "oend (cli (view s)) = Accepting" "iend c = Open" "oend c = Accepting"
      "length x < count_list (schedule io) True"
    using relay_io.direct_delivers [OF io _ _ dest assms(9) _ _ _ _ _ t(2)] assms(7) t(1,3) that by simp
qed

text \<open>Both sides: what the server side does with the bytes that the client side has written.\<close>

lemma chain_tcp:
  assumes client: "relay_io i1 o1 view1 route1 tls1" "h_mode hdl1 = OutboundTCP" "h_protocol hdl1 = TROJAN"
      "h_secret hdl1 = acc_secret acc2" "h_destination hdl1 = Some a" "route1 a = Inr c1"
      "\<And>cfg name. h_tls hdl1 = Some (cfg, name) \<Longrightarrow> tls1 cfg name = None"
    and fresh: "outp c1 = []" "oend c1 = Accepting"
    and request: "wf_request q" "transport_protocol q = TCP" "ip (addr_port q) = IpAddr d"
    and run1: "dispatch i1 o1 hdl1 h1 q s1 = (r1, s1')"
    and server: "server_io i2 o2 view2 route2 tls2 check2" "acc_protocol acc2 = TROJAN"
      "length (acc_secret acc2) = HEX_SIZE" "\<And>cfg. tls_acceptor acc2 = Some cfg \<Longrightarrow> check2 cfg = None"
      "h_mode hdl2 = OutboundDIRECT" "route2 (SocketAddr d (port (addr_port q))) = Inr c2"
    and wire: "inp (cli (view2 s2)) = outp (srv (view1 s1'))"
    and run2: "connection_task i2 o2 acc2 hdl2 s2 = (r2, s2')"
  shows "dialed (view2 s2') = dialed (view2 s2) @ [SocketAddr d (port (addr_port q))] \<and>
    (\<exists>x. outp (srv (view2 s2')) = outp c2 @ x \<and> prefix x (inp (cli (view1 s1)))) \<and>
    (\<exists>y. outp (cli (view1 s1')) = outp (cli (view1 s1)) @ y \<and> prefix y (inp c1) \<and>
       (outp (cli (view2 s2)) = [] \<and> inp c1 = outp (cli (view2 s2')) \<longrightarrow> prefix y (inp c2)))"
proof -
  have len: "length (h_secret hdl1) = HEX_SIZE"
    using client(4) server(3) by simp
  from chain_client [OF client(1-3) len client(5-7) fresh request(2) run1]
  obtain x y where x: "outp (srv (view1 s1')) = handshake_bytes q (h_secret hdl1) @ x" "prefix x (inp (cli (view1 s1)))"
      "outp (cli (view1 s1')) = outp (cli (view1 s1)) @ y" "prefix y (inp c1)"
    by blast
  have "inp (cli (view2 s2)) = handshake_bytes q (acc_secret acc2) @ x"
    using wire x(1) client(4) by simp
  from chain_server(1) [OF server(1-5) request(1,2,3) server(6) this run2] x(2-4) show ?thesis
    by (auto intro: prefix_order.trans)
qed

section \<open>Properties\<close>

text \<open>
  C3: The proxy chain, for requests to IP addresses. Start the program twice, once with a
  configuration for the client side (TCP mode) and once for the server side (direct mode), with the
  same password. Let the server side accept data from the client side, let TLS be established where
  it is configured and let the destination accept the connection. A request to an IP address that
  the client side accepted and relayed, however its two directions were scheduled, makes the server
  side, on the bytes it receives, dial exactly the address of the request and send it a prefix of
  what the application sent; and what comes back to the application is a prefix of what that address
  answered.
\<close>

theorem proxy_chain_delivers:
  assumes "main_program env1 = Ok (Tcp_Service acc1 hdl1)" and "CONFIG env1 = Ok (inb1, outb1)"
    and "main_program env2 = Ok (Tcp_Service acc2 hdl2)" and "CONFIG env2 = Ok (inb2, outb2)"
    and "out_protocol outb1 = TROJAN" and "out_secret outb1 = Some pw"
    and "in_protocol inb2 = TROJAN" and "in_secret inb2 = Some pw"
    and "env_sha224 env2 = env_sha224 env1" and "length (env_sha224 env1 (bytes_of_str pw)) = 28"
    and "out_mode outb1 = OutboundTCP" and "out_mode outb2 = OutboundDIRECT"
    and client: "relay_io i1 o1 view1 route1 tls1" "h_destination hdl1 = Some a" "route1 a = Inr c1"
      "\<And>cfg name. h_tls hdl1 = Some (cfg, name) \<Longrightarrow> tls1 cfg name = None"
    and fresh: "outp c1 = []" "oend c1 = Accepting"
    and request: "wf_request q" "transport_protocol q = TCP" "ip (addr_port q) = IpAddr d"
    and run1: "dispatch i1 o1 hdl1 h1 q s1 = (r1, s1')"
    and server: "server_io i2 o2 view2 route2 tls2 check2"
      "\<And>cfg. tls_acceptor acc2 = Some cfg \<Longrightarrow> check2 cfg = None"
      "route2 (SocketAddr d (port (addr_port q))) = Inr c2"
    and wire: "inp (cli (view2 s2)) = outp (srv (view1 s1'))"
    and run2: "connection_task i2 o2 acc2 hdl2 s2 = (r2, s2')"
  shows "dialed (view2 s2') = dialed (view2 s2) @ [SocketAddr d (port (addr_port q))] \<and>
    (\<exists>x. outp (srv (view2 s2')) = outp c2 @ x \<and> prefix x (inp (cli (view1 s1)))) \<and>
    (outp (cli (view2 s2)) = [] \<and> inp c1 = outp (cli (view2 s2')) \<longrightarrow>
       (\<exists>y. outp (cli (view1 s1')) = outp (cli (view1 s1)) @ y \<and> prefix y (inp c2)))"
  using chain_tcp [OF client(1) _ _ chain_secret(1) [OF assms(1-10)] client(2-4) fresh request run1 server(1) _
      chain_secret(2) [OF assms(1-10)] server(2) _ server(3) wire run2]
    main_tcp_fields(3,4) [OF assms(1,2)] main_tcp_fields(1,3) [OF assms(3,4)] assms(5,7,11,12)
  by auto

text \<open>The run of the sample client, and the server on what it wrote.\<close>

theorem proxy_chain_delivers_witness:
  "\<exists>s1' s2'. snd (dispatch net_inbound (sample_outbound [True, False, True]) sample_handler (Plain ())
       (trojan_into_request sample_request) (idle_net (peer [1, 2, 3]))) = s1' \<and>
     snd (connection_task net_inbound (sample_outbound [True, False, True]) sample_acceptor
       (sample_handler\<lparr>h_mode := OutboundDIRECT, h_destination := None\<rparr>)
       (idle_net (peer (outp (srv s1'))))) = s2' \<and>
     dialed s2' = [SocketAddr (V4 0x7F000001) 80] \<and> prefix (outp (srv s2')) [1, 2, 3]"
proof -
  let ?io = "sample_outbound [True, False, True]"
  let ?run1 = "dispatch net_inbound ?io sample_handler (Plain ()) (trojan_into_request sample_request) (idle_net (peer [1, 2, 3]))"
  let ?run2 = "connection_task net_inbound ?io sample_acceptor
      (sample_handler\<lparr>h_mode := OutboundDIRECT, h_destination := None\<rparr>) (idle_net (peer (outp (srv (snd ?run1)))))"
  have io: "server_io net_inbound ?io (\<lambda>n. n) sample_route (\<lambda>_ _. None) (\<lambda>_. None)"
    unfolding sample_outbound_def by (rule net_server.server_io_axioms)
  have runs: "?run1 = (fst ?run1, snd ?run1)" "?run2 = (fst ?run2, snd ?run2)" by simp_all
  have q: "ip (addr_port (trojan_into_request sample_request)) = IpAddr (V4 0x7F000001)"
    by (rule ip_sample_request)
  have "dialed (snd ?run2) = [SocketAddr (V4 0x7F000001) 80] \<and>
      (\<exists>x. outp (srv (snd ?run2)) = [] @ x \<and> prefix x [1, 2, 3])"
    using proxy_chain_delivers [OF main_sample_client CONFIG_sample main_sample_server CONFIG_sample _ _ _ _ _ _ _ _
        sample_outbound_io _ _ _ _ _ wf_sample_request sample_request_tcp(1) q runs(1) io _ _ _ runs(2),
        where pw = "''pw''" and a = "SocketAddr (V4 1) 443" and ?c1.0 = "peer [9]" and ?c2.0 = "peer [9]"]
    by (simp add: sample_outbound_config_def sample_inbound_def sample_env_def sample_digest_def sample_handler_def
        sample_acceptor_def sample_route_def IpAddrPort_new_def)
  then show ?thesis by simp
qed

text \<open>
  C1: From a SOCKS5 application to its destination, an IP address. Start the program once as a SOCKS5
  server in TCP mode and once as a Trojan server in direct mode, with the same password. Let an
  application send a greeting of at most 32 bytes that arrives in a read of its own, a request to
  connect to an IP address, encoded as in RFC 1928, and a payload, and let it accept data; let the
  connection between the two sides accept data, TLS be established where it is configured, and the
  destination accept the connection. The client side answers with the method selection and the
  success reply, and the server side, on the bytes it receives, dials exactly the requested address
  and sends it a prefix of the payload; what the application receives after the two replies is a
  prefix of what that address answered. This holds however the directions of both relays are
  scheduled.
\<close>

theorem socks_chain_delivers:
  assumes "main_program env1 = Ok (Tcp_Service acc1 hdl1)" and "CONFIG env1 = Ok (inb1, outb1)"
    and "main_program env2 = Ok (Tcp_Service acc2 hdl2)" and "CONFIG env2 = Ok (inb2, outb2)"
    and "out_protocol outb1 = TROJAN" and "out_secret outb1 = Some pw"
    and "in_protocol inb2 = TROJAN" and "in_secret inb2 = Some pw"
    and "env_sha224 env2 = env_sha224 env1" and "length (env_sha224 env1 (bytes_of_str pw)) = 28"
    and "in_protocol inb1 = SOCKS" and "out_mode outb1 = OutboundTCP" and "out_mode outb2 = OutboundDIRECT"
    and client: "server_io i1 o1 view1 route1 tls1 check1" "h_destination hdl1 = Some a" "route1 a = Inr c1"
      "\<And>cfg name. h_tls hdl1 = Some (cfg, name) \<Longrightarrow> tls1 cfg name = None"
      "\<And>cfg. tls_acceptor acc1 = Some cfg \<Longrightarrow> check1 cfg = None"
    and fresh: "outp c1 = []" "oend c1 = Accepting"
    and app: "wf_socks tr" "so_command tr = Connect" "so_addr tr = IpAddr d"
      "oend (cli (view1 s1)) = Accepting" "isizes (cli (view1 s1)) = length hello # sizes"
      "hello \<noteq> []" "length hello \<le> 32" "inp (cli (view1 s1)) = hello @ socks_header tr @ payload"
    and run1: "connection_task i1 o1 acc1 hdl1 s1 = (r1, s1')"
    and server: "server_io i2 o2 view2 route2 tls2 check2"
      "\<And>cfg. tls_acceptor acc2 = Some cfg \<Longrightarrow> check2 cfg = None"
      "route2 (SocketAddr d (so_port tr)) = Inr c2"
    and wire: "inp (cli (view2 s2)) = outp (srv (view1 s1'))"
    and run2: "connection_task i2 o2 acc2 hdl2 s2 = (r2, s2')"
  shows "dialed (view2 s2') = dialed (view2 s2) @ [SocketAddr d (so_port tr)] \<and>
    (\<exists>x. outp (srv (view2 s2')) = outp c2 @ x \<and> prefix x payload) \<and>
    (\<exists>y. outp (cli (view1 s1')) =
        outp (cli (view1 s1)) @ [5, 0] @ [5, 0, 0, 1, 127, 0, 0, 1] @ be_bytes 2 (in_port inb1) @ y \<and>
       (outp (cli (view2 s2)) = [] \<and> inp c1 = outp (cli (view2 s2')) \<longrightarrow> prefix y (inp c2)))"
proof -
  let ?q = "socks_into_request tr"
  note wf = wf_socks_into_request [OF app(1)]
  have q: "transport_protocol ?q = TCP" "ip (addr_port ?q) = IpAddr d" "port (addr_port ?q) = so_port tr"
    using app(2,3)
    by (simp_all add: socks_into_request_eq InboundRequest_new_def IpAddrPort_new_def transport_of_def)
  have io: "relay_io i1 o1 view1 route1 tls1"
    using client(1) by (simp add: server_io_def)
  have "acc_protocol acc1 = SOCKS"
    using main_tcp_fields(1) [OF assms(1,2)] assms(11) by simp
  from server_io.accept_socks [OF client(1) this app(1,3,4-8) client(5)]
  obtain h t where t: "TcpAcceptor_accept i1 acc1 s1 = (Ok (?q, h), t)"
      "view1 t = (view1 s1)\<lparr>cli := (cli (view1 s1))\<lparr>inp := payload, isizes := sizes,
        outp := outp (cli (view1 s1)) @ greeting @ success_reply (acc_port acc1)\<rparr>\<rparr>"
    by blast
  obtain r0 where "dispatch i1 o1 hdl1 h ?q t = (r0, s1')"
    using run1 t(1) by (auto simp: connection_task_def split: prod.splits outcome.splits)
  from chain_tcp [OF io _ _ chain_secret(1) [OF assms(1-10)] client(2-4) fresh wf q(1,2) this server(1) _
      chain_secret(2) [OF assms(1-10)] server(2) _ _ wire run2, where ?c2.0 = c2]
  show ?thesis
    using main_tcp_fields(3,4,6) [OF assms(1,2)] main_tcp_fields(1,3) [OF assms(3,4)] assms(5,7,12,13) t(2) q(3) server(3)
    by (auto simp: greeting_def success_reply_def VERSION_def)
qed

theorem socks_chain_delivers_witness:
  "\<exists>s1 s1' s2'. inp (cli s1) = [5, 1, 0] @ [5, 1, 0, 1, 127, 0, 0, 1, 0, 80] @ [1, 2, 3] \<and>
     snd (connection_task net_inbound (sample_outbound [True, False, True]) sample_socks_acceptor sample_handler s1) = s1' \<and>
     snd (connection_task net_inbound (sample_outbound [True, False, True]) sample_acceptor
       (sample_handler\<lparr>h_mode := OutboundDIRECT, h_destination := None\<rparr>)
       (idle_net (peer (outp (srv s1'))))) = s2' \<and>
     dialed s2' = [SocketAddr (V4 0x7F000001) 80] \<and> prefix (outp (srv s2')) [1, 2, 3]"
proof -
  let ?io = "sample_outbound [True, False, True]"
  let ?tr = "SocksRequest_new VERSION Connect 0 IPv4 80 (from_u32 0x7F000001)"
  let ?s1 = "idle_net ((peer ([5, 1, 0] @ [5, 1, 0, 1, 127, 0, 0, 1, 0, 80] @ [1, 2, 3]))\<lparr>isizes := [3]\<rparr>) :: Hunk net"
  let ?run1 = "connection_task net_inbound ?io sample_socks_acceptor sample_handler ?s1"
  let ?run2 = "connection_task net_inbound ?io sample_acceptor
      (sample_handler\<lparr>h_mode := OutboundDIRECT, h_destination := None\<rparr>) (idle_net (peer (outp (srv (snd ?run1)))))"
  have io: "server_io net_inbound ?io (\<lambda>n. n) sample_route (\<lambda>_ _. None) (\<lambda>_. None)"
    unfolding sample_outbound_def by (rule net_server.server_io_axioms)
  have runs: "?run1 = (fst ?run1, snd ?run1)" "?run2 = (fst ?run2, snd ?run2)" by simp_all
  have hdr: "socks_header ?tr = [5, 1, 0, 1, 127, 0, 0, 1, 0, 80]"
    by (simp add: socks_header_def SocksRequest_new_def VERSION_def from_u32_def) (code_simp)
  have tr: "wf_socks ?tr" "so_command ?tr = Connect" "so_addr ?tr = IpAddr (V4 0x7F000001)" "so_port ?tr = 80"
    by (simp_all add: wf_socks_def SocksRequest_new_def from_u32_def)
  have "dialed (snd ?run2) = [SocketAddr (V4 0x7F000001) 80] \<and>
      (\<exists>x. outp (srv (snd ?run2)) = [] @ x \<and> prefix x [1, 2, 3])"
    using socks_chain_delivers [OF main_sample_socks CONFIG_sample main_sample_server CONFIG_sample _ _ _ _ _ _ _ _ _
        io _ _ _ _ _ _ tr(1-3) _ _ _ _ _ runs(1) io _ _ _ runs(2),
        where pw = "''pw''" and a = "SocketAddr (V4 1) 443" and ?c1.0 = "peer [9]" and ?c2.0 = "peer [9]"
          and hello = "[5, 1, 0]" and sizes = "[]" and payload = "[1, 2, 3]"] hdr tr(4)
    by (simp add: sample_outbound_config_def sample_inbound_def sample_env_def sample_digest_def sample_handler_def
        sample_acceptor_def sample_socks_acceptor_def sample_route_def)
  then show ?thesis
    by (intro exI [of _ ?s1] exI [of _ "snd ?run1"] exI [of _ "snd ?run2"] conjI) simp_all
qed

text \<open>
  C5: The chain over gRPC, for requests to IP addresses. Start the program once with a configuration
  for gRPC mode and once as a gRPC server, with the same password. Let the channel of the client side
  accept messages and let the destination accept the connection. A request to connect to an IP
  address that the client side relayed, however its loops were scheduled, makes the task of the call
  on the server side, when it receives the messages the client side sent, empty ones included, and
  the call has not ended with the first of them, dial exactly the address of the request and send it
  a prefix of what the application sent; and when the client side receives the bytes of the messages
  that task answered with, what comes back to the application is a prefix of what that address
  answered.
\<close>

theorem grpc_chain_delivers:
  assumes "main_program env1 = Ok (Tcp_Service acc1 hdl1)" and "CONFIG env1 = Ok (inb1, outb1)"
    and "main_program env2 = Ok (Grpc_Service service)" and "CONFIG env2 = Ok (inb2, outb2)"
    and secret: "out_protocol outb1 = TROJAN" "out_secret outb1 = Some pw" "in_protocol inb2 = TROJAN" "in_secret inb2 = Some pw"
      "env_sha224 env2 = env_sha224 env1" "length (env_sha224 env1 (bytes_of_str pw)) = 28"
    and "out_mode outb1 = OutboundGRPC"
    and client: "grpc_client_io i1 o1 view1 (\<lambda>_. None) None" "h_destination hdl1 = Some a"
      "msgs (chan (view1 s1)) = []" "cend (chan (view1 s1)) = Accepting"
    and request: "wf_request q" "command q = Connect" "ip (addr_port q) = IpAddr d"
    and run1: "dispatch i1 o1 hdl1 h1 q s1 = (r1, s1')"
    and server: "grpc_server_io io view2 invar queue final delay route refused" "invar s2"
      "route (SocketAddr d (port (addr_port q))) = Inr c"
    and wire: "queue s2 = map data (msgs (chan (view1 s1')))" "final s2 = Open \<or> 1 < length (msgs (chan (view1 s1')))"
    and run2: "tun io service s2 = (r2, g)"
  shows "dialed (view2 (reader g)) = dialed (view2 s2) @ [SocketAddr d (port (addr_port q))] \<and>
    (\<exists>x. outp (srv (view2 (reader g))) = outp c @ x \<and> prefix x (inp (cli (view1 s1)))) \<and>
    (msgs (chan (view2 s2)) = [] \<and> concat (inbox (view1 s1)) = concat (map hunk_bytes (msgs (chan (view2 (reader g))))) \<longrightarrow>
       (\<exists>y. outp (cli (view1 s1')) = outp (cli (view1 s1)) @ y \<and> prefix y (inp c)))"
proof -
  have hs: "h_secret hdl1 = hex_secret (env_sha224 env1) pw"
    using main_tcp_fields(5) [OF assms(1,2)] secret(1,2) by (simp add: secret_of_def)
  have grpc: "handle_grpc_stream i1 o1 hdl1 q h1 s1 = (r1, s1')"
    using run1 main_tcp_fields(3) [OF assms(1,2)] assms(11) by (simp add: dispatch_def)
  from grpc_relayed [OF client(1,2) request(2) client(4) grpc] obtain new y where
      new: "msgs (chan (view1 s1')) = \<lparr>data = handshake_bytes q (h_secret hdl1)\<rparr> # new"
        "prefix (concat (map data new)) (inp (cli (view1 s1)))"
      and y: "outp (cli (view1 s1')) = outp (cli (view1 s1)) @ y" "prefix y (concat (inbox (view1 s1)))"
    using client(3) by auto
  let ?hdr = "handshake_bytes q (hex_secret (env_sha224 env2) pw)"
  have call: "queue s2 = [?hdr] @ map data new" "concat [?hdr] = ?hdr @ []" "[] \<notin> set [?hdr]" "map data new \<noteq> [] \<or> final s2 = Open"
    using wire new(1) hs secret(5) by (auto simp: handshake_bytes_def)
  have tun: "tun io (GrpcProxyService_new (fst (GrpcAcceptor_new (env_sha224 env2) inb2 None)) (fst (GrpcHandler_new None))) s2 =
      (r2, g)"
    using run2 main_grpc [OF assms(3,4)] by simp
  have sha: "length (env_sha224 env2 (bytes_of_str pw)) = 28"
    using secret(5,6) by simp
  from call_relayed [OF server(1,2) surjective_pairing surjective_pairing secret(3,4) sha request server(3) call tun]
  have res: "dialed (view2 (reader g)) = dialed (view2 s2) @ [SocketAddr d (port (addr_port q))]"
      "\<exists>x. outp (srv (view2 (reader g))) = outp c @ x \<and> prefix x (concat (map data new))"
      "\<exists>new. msgs (chan (view2 (reader g))) = msgs (chan (view2 s2)) @ new \<and> prefix (concat (map hunk_bytes new)) (inp c)"
    by simp_all
  from res(2) new(2) have "\<exists>x. outp (srv (view2 (reader g))) = outp c @ x \<and> prefix x (inp (cli (view1 s1)))"
    by (meson prefix_order.trans)
  with res(1,3) y show ?thesis
    by (auto intro: prefix_order.trans)
qed

theorem grpc_chain_delivers_witness:
  "\<exists>s1' g. snd (dispatch net_inbound (sample_outbound [True, False, True]) (sample_handler\<lparr>h_mode := OutboundGRPC\<rparr>) (Plain ())
       (trojan_into_request sample_request) (idle_net (peer [1, 2, 3]))) = s1' \<and>
     snd (tun (call_io Open sample_route (\<lambda>_ _. Inr []) [True, False, True]) sample_grpc_service
       (None # map (\<lambda>h. Some (data h)) (msgs (chan s1')), idle_net (peer []))) = g \<and>
     dialed (snd (reader g)) = [SocketAddr (V4 0x7F000001) 80] \<and> prefix (outp (srv (snd (reader g)))) [1, 2, 3]"
proof -
  let ?h = "sample_handler\<lparr>h_mode := OutboundGRPC\<rparr>" and ?q = "trojan_into_request sample_request"
  let ?run1 = "dispatch net_inbound (sample_outbound [True, False, True]) ?h (Plain ()) ?q (idle_net (peer [1, 2, 3]))"
  let ?run2 = "tun (call_io Open sample_route (\<lambda>_ _. Inr []) [True, False, True]) sample_grpc_service
      (None # map (\<lambda>h. Some (data h)) (msgs (chan (snd ?run1))), idle_net (peer []))"
  have io: "grpc_client_io net_inbound (sample_outbound [True, False, True]) (\<lambda>n. n) (\<lambda>_. None) None"
    unfolding sample_outbound_def by (rule net_grpc.grpc_client_io_axioms)
  have q: "command ?q = Connect"
    by (simp add: trojan_into_request_eq InboundRequest_new_def sample_request_def TrojanRequest_new_def)
  have runs: "?run1 = (fst ?run1, snd ?run1)" "?run2 = (fst ?run2, snd ?run2)" by simp_all
  have queue: "script_queue (map (\<lambda>h. Some (data h)) hs) = map data hs" for hs
    by (induction hs) simp_all
  have "dialed (snd (reader (snd ?run2))) = [SocketAddr (V4 0x7F000001) 80] \<and>
      (\<exists>x. outp (srv (snd (reader (snd ?run2)))) = [] @ x \<and> prefix x [1, 2, 3])"
    using grpc_chain_delivers [OF main_sample_grpc_client CONFIG_sample main_sample_grpc CONFIG_sample _ _ _ _ _ _ _
        io _ _ _ wf_sample_request q ip_sample_request runs(1) net_call.grpc_server_io_axioms _ _ _ _ runs(2),
        where pw = "''pw''" and a = "SocketAddr (V4 1) 443" and c = "peer [9]"]
    by (simp add: queue sample_outbound_config_def sample_inbound_def sample_env_def sample_digest_def sample_handler_def
        sample_route_def IpAddrPort_new_def)
  then show ?thesis
    by (intro exI [of _ "snd ?run1"] exI [of _ "snd ?run2"] conjI) simp_all
qed

text \<open>
  C2: The proxy chain delivers everything, for requests to IP addresses. In the chain of a client side
  in TCP mode and a server side in direct mode, with the same password and with TLS established where
  it is configured, let the application close its side after what it has to send, let the server side
  see the end of the client side's data after the bytes it wrote, and let the application, the
  connection between the two sides and the destination accept data and the latter two stay open.
  Then both sides return as soon as their schedules have given the upward direction one step
  more than there are bytes to forward, the server side has dialed exactly the address of the
  request, and the destination has received exactly what the application sent.
\<close>

theorem proxy_chain_complete:
  assumes "main_program env1 = Ok (Tcp_Service acc1 hdl1)" and "CONFIG env1 = Ok (inb1, outb1)"
    and "main_program env2 = Ok (Tcp_Service acc2 hdl2)" and "CONFIG env2 = Ok (inb2, outb2)"
    and "out_protocol outb1 = TROJAN" and "out_secret outb1 = Some pw"
    and "in_protocol inb2 = TROJAN" and "in_secret inb2 = Some pw"
    and "env_sha224 env2 = env_sha224 env1" and "length (env_sha224 env1 (bytes_of_str pw)) = 28"
    and "out_mode outb1 = OutboundTCP" and "out_mode outb2 = OutboundDIRECT"
    and client: "relay_io i1 o1 view1 route1 tls1" "h_destination hdl1 = Some a" "route1 a = Inr c1"
      "\<And>cfg name. h_tls hdl1 = Some (cfg, name) \<Longrightarrow> tls1 cfg name = None"
    and fresh: "outp c1 = []" "iend c1 = Open" "oend c1 = Accepting"
    and app: "iend (cli (view1 s1)) = Eof" "oend (cli (view1 s1)) = Accepting"
    and request: "wf_request q" "transport_protocol q = TCP" "ip (addr_port q) = IpAddr d"
    and run1: "length (inp (cli (view1 s1))) < count_list (schedule o1) True" "dispatch i1 o1 hdl1 h1 q s1 = (r1, s1')"
    and server: "server_io i2 o2 view2 route2 tls2 check2"
      "\<And>cfg. tls_acceptor acc2 = Some cfg \<Longrightarrow> check2 cfg = None"
      "route2 (SocketAddr d (port (addr_port q))) = Inr c2" "iend c2 = Open" "oend c2 = Accepting"
    and wire: "inp (cli (view2 s2)) = outp (srv (view1 s1'))" "iend (cli (view2 s2)) = Eof" "oend (cli (view2 s2)) = Accepting"
    and run2: "length (inp (cli (view1 s1))) < count_list (schedule o2) True" "connection_task i2 o2 acc2 hdl2 s2 = (r2, s2')"
  shows "r1 = Ok () \<and> r2 = Ok () \<and> dialed (view2 s2') = dialed (view2 s2) @ [SocketAddr d (port (addr_port q))] \<and>
    outp (srv (view2 s2')) = outp c2 @ inp (cli (view1 s1))"
proof -
  note secret = chain_secret [OF assms(1-10)]
  have hdl: "h_mode hdl1 = OutboundTCP" "h_protocol hdl1 = TROJAN" "length (h_secret hdl1) = HEX_SIZE"
    "acc_protocol acc2 = TROJAN" "h_mode hdl2 = OutboundDIRECT"
    using main_tcp_fields(3,4) [OF assms(1,2)] main_tcp_fields(1,3) [OF assms(3,4)] assms(5,7,11,12) secret by simp_all
  have "handle_tcp_stream i1 o1 hdl1 q h1 s1 = (r1, s1')"
    using run1(2) hdl(1) by (simp add: dispatch_def)
  from relay_io.tcp_delivers [OF client(1) hdl(2) request(2) client(2) hdl(3) client(3,4) app fresh(2,3) run1(1) this] fresh(1)
  have up: "r1 = Ok ()" "outp (srv (view1 s1')) = handshake_bytes q (h_secret hdl1) @ inp (cli (view1 s1))"
    by simp_all
  have "inp (cli (view2 s2)) = handshake_bytes q (acc_secret acc2) @ inp (cli (view1 s1))"
    using wire(1) up(2) secret(1) by simp
  from chain_server [OF server(1) hdl(4) secret(2) server(2) hdl(5) request server(3) this run2(2)]
  show ?thesis
    using up(1) wire(2,3) server(4,5) run2(1) by simp
qed

theorem proxy_chain_complete_witness:
  "\<exists>s1' s2'. dispatch net_inbound (net_outbound (\<lambda>_. Inr ((peer [])\<lparr>iend := Open\<rparr>)) (\<lambda>_ _. None) (\<lambda>_ _. Inr []) (replicate 4 True))
       sample_handler (Plain ()) (trojan_into_request sample_request) (idle_net (peer [1, 2, 3])) = (Ok (), s1') \<and>
     connection_task net_inbound (net_outbound (\<lambda>_. Inr ((peer [])\<lparr>iend := Open\<rparr>)) (\<lambda>_ _. None) (\<lambda>_ _. Inr []) (replicate 4 True))
       sample_acceptor (sample_handler\<lparr>h_mode := OutboundDIRECT, h_destination := None\<rparr>)
       (idle_net (peer (outp (srv s1')))) = (Ok (), s2') \<and>
     outp (srv s2') = [1, 2, 3]"
proof -
  let ?io = "net_outbound (\<lambda>_. Inr ((peer [])\<lparr>iend := Open\<rparr>)) (\<lambda>_ _. None) (\<lambda>_ _. Inr []) (replicate 4 True)"
  let ?run1 = "dispatch net_inbound ?io sample_handler (Plain ()) (trojan_into_request sample_request) (idle_net (peer [1, 2, 3]))"
  let ?run2 = "connection_task net_inbound ?io sample_acceptor
      (sample_handler\<lparr>h_mode := OutboundDIRECT, h_destination := None\<rparr>) (idle_net (peer (outp (srv (snd ?run1)))))"
  have runs: "?run1 = (fst ?run1, snd ?run1)" "?run2 = (fst ?run2, snd ?run2)" by simp_all
  have sched: "count_list (schedule ?io) True = 4" by (simp add: net_outbound_def numeral_eq_Suc)
  have "fst ?run1 = Ok () \<and> fst ?run2 = Ok () \<and> outp (srv (snd ?run2)) = [1, 2, 3]"
    using proxy_chain_complete [OF main_sample_client CONFIG_sample main_sample_server CONFIG_sample _ _ _ _ _ _ _ _
        net_relay.relay_io_axioms _ refl _ _ _ _ _ _ wf_sample_request sample_request_tcp(1) ip_sample_request _ runs(1)
        net_server.server_io_axioms _ refl _ _ _ _ _ _ runs(2), where pw = "''pw''" and a = "SocketAddr (V4 1) 443"] sched
    by (simp add: sample_outbound_config_def sample_inbound_def sample_env_def sample_digest_def sample_handler_def
        sample_acceptor_def)
  then show ?thesis
    using runs by (intro exI [of _ "snd ?run1"] exI [of _ "snd ?run2"] conjI) simp_all
qed

end
